(* ===== verification/Prelude.thy ===== *)
theory Prelude
  imports "HOL-Library.Word"
begin

unbundle bit_operations_syntax

section \<open>Machine words, byte arrays and list facts\<close>

text \<open>
  The kernel is 32-bit C. A \<open>uint8_t\<close>, \<open>uint16_t\<close> or \<open>uint32_t\<close> is a word of that
  width, so every addition and shift of the models wraps where the code's does. A C \<open>int\<close>
  that cannot overflow at its uses is an \<^typ>\<open>int\<close>. A byte buffer is a list of bytes;
  a packed little-endian field of a struct laid over a buffer is read with \<open>get16\<close> and
  \<open>get32\<close> and stored with \<open>put16\<close> and \<open>put32\<close>, as an x86 load or store does.
\<close>

type_synonym u8 = "8 word"
type_synonym u16 = "16 word"
type_synonym u32 = "32 word"
type_synonym bytes = "u8 list"

lemma u32_less: "unat (x :: u32) < 4294967296"
  using unsigned_less [of x] by simp

named_theorems byte_simps \<open>reading a byte buffer after a store\<close>

subsection \<open>Little-endian fields of a byte buffer\<close>

definition get16 :: "bytes \<Rightarrow> nat \<Rightarrow> u16" where
  "get16 b i = ucast (b ! i) OR push_bit 8 (ucast (b ! (i + 1)))"

definition get32 :: "bytes \<Rightarrow> nat \<Rightarrow> u32" where
  "get32 b i =
     ucast (b ! i) OR push_bit 8 (ucast (b ! (i + 1))) OR
     push_bit 16 (ucast (b ! (i + 2))) OR push_bit 24 (ucast (b ! (i + 3)))"

definition put16 :: "bytes \<Rightarrow> nat \<Rightarrow> u16 \<Rightarrow> bytes" where
  "put16 b i v = b[i := ucast v, i + 1 := ucast (drop_bit 8 v)]"

definition put32 :: "bytes \<Rightarrow> nat \<Rightarrow> u32 \<Rightarrow> bytes" where
  "put32 b i v =
     b[i := ucast v, i + 1 := ucast (drop_bit 8 v),
       i + 2 := ucast (drop_bit 16 v), i + 3 := ucast (drop_bit 24 v)]"

lemma length_put16 [simp]: "length (put16 b i v) = length b"
  by (simp add: put16_def)

lemma length_put32 [simp]: "length (put32 b i v) = length b"
  by (simp add: put32_def)

lemma get16_put16 [byte_simps]:
  assumes "i + 1 < length b"
  shows "get16 (put16 b i v) i = v"
proof (rule bit_word_eqI)
  fix n assume n: "n < LENGTH(16)"
  have "n < 8 \<or> 8 \<le> n" by arith
  with n assms show "bit (get16 (put16 b i v) i) n = bit v n"
    by (auto simp: get16_def put16_def bit_simps nth_list_update)
qed

lemma get32_put32 [byte_simps]:
  assumes "i + 3 < length b"
  shows "get32 (put32 b i v) i = v"
proof (rule bit_word_eqI)
  fix n assume n: "n < LENGTH(32)"
  have "n < 8 \<or> (8 \<le> n \<and> n < 16) \<or> (16 \<le> n \<and> n < 24) \<or> 24 \<le> n" by arith
  with n assms show "bit (get32 (put32 b i v) i) n = bit v n"
    by (auto simp: get32_def put32_def bit_simps nth_list_update)
qed

lemma nth_put16_other: "k < i \<or> i + 1 < k \<Longrightarrow> put16 b i v ! k = b ! k"
  by (auto simp: put16_def nth_list_update_neq)

lemma nth_put32_other: "k < i \<or> i + 3 < k \<Longrightarrow> put32 b i v ! k = b ! k"
  by (auto simp: put32_def nth_list_update_neq)

lemma get32_put32_other [byte_simps]:
  "j + 3 < i \<or> i + 3 < j \<Longrightarrow> get32 (put32 b i v) j = get32 b j"
  by (auto simp: get32_def nth_put32_other)

lemma get16_put32_other [byte_simps]:
  "j + 1 < i \<or> i + 3 < j \<Longrightarrow> get16 (put32 b i v) j = get16 b j"
  by (auto simp: get16_def nth_put32_other)

lemma get16_put16_other [byte_simps]:
  "j + 1 < i \<or> i + 1 < j \<Longrightarrow> get16 (put16 b i v) j = get16 b j"
  by (auto simp: get16_def nth_put16_other)

lemma get32_put16_other [byte_simps]:
  "j + 3 < i \<or> i + 1 < j \<Longrightarrow> get32 (put16 b i v) j = get32 b j"
  by (auto simp: get32_def nth_put16_other)

subsection \<open>Storing a run of bytes\<close>

text \<open>\<open>splice b i xs\<close> is the buffer after \<open>memcpy(b + i, xs, length xs)\<close>.\<close>

definition splice :: "'a list \<Rightarrow> nat \<Rightarrow> 'a list \<Rightarrow> 'a list" where
  "splice b i xs = take i b @ xs @ drop (i + length xs) b"

definition slice :: "'a list \<Rightarrow> nat \<Rightarrow> nat \<Rightarrow> 'a list" where
  "slice b i n = take n (drop i b)"

lemma length_splice [simp]: "i + length xs \<le> length b \<Longrightarrow> length (splice b i xs) = length b"
  by (simp add: splice_def)

lemma length_slice [simp]: "i + n \<le> length b \<Longrightarrow> length (slice b i n) = n"
  by (simp add: slice_def)

lemma nth_slice: "i + n \<le> length b \<Longrightarrow> k < n \<Longrightarrow> slice b i n ! k = b ! (i + k)"
  by (simp add: slice_def)

lemma nth_splice:
  assumes "i + length xs \<le> length b"
  shows "splice b i xs ! k = (if i \<le> k \<and> k < i + length xs then xs ! (k - i) else b ! k)"
proof -
  consider "k < i" | "i \<le> k" "k < i + length xs" | "i + length xs \<le> k" by linarith
  then show ?thesis
    by cases (use assms in \<open>auto simp: splice_def nth_append\<close>)
qed

lemma splice_splice_next:
  "d + length xs + length ys \<le> length m \<Longrightarrow>
   splice (splice m d xs) (d + length xs) ys = splice m d (xs @ ys)"
  by (rule nth_equalityI) (auto simp: nth_splice nth_append)

lemma slice_splice_same [byte_simps]:
  "i + length xs \<le> length b \<Longrightarrow> n = length xs \<Longrightarrow> slice (splice b i xs) i n = xs"
  by (simp add: slice_def splice_def)

lemma slice_splice_other [byte_simps]:
  assumes "i + length xs \<le> length b" and "j + n \<le> length b"
    and "j + n \<le> i \<or> i + length xs \<le> j"
  shows "slice (splice b i xs) j n = slice b j n"
  by (rule nth_equalityI) (use assms in \<open>auto simp: nth_slice nth_splice\<close>)

lemma splice_slice_id: "i + n \<le> length b \<Longrightarrow> splice b i (slice b i n) = b"
  by (auto simp: slice_def splice_def min_def)
     (metis append_take_drop_id drop_drop add.commute)

subsection \<open>Flag bits\<close>

text \<open>
  The code tests a flag with \<open>w & mask\<close>, sets it with \<open>w |= mask\<close> and clears it with
  \<open>w &= ~mask\<close>. The masks are powers of two; each test is turned into a test of one bit.
\<close>

named_theorems flag_simps \<open>testing, setting and clearing single flag bits\<close>

lemma and_exp_eq_0 [flag_simps]: "(w AND 2 ^ n = (0 :: 'a::len word)) = (\<not> bit w n)"
  by (rule and_exp_eq_0_iff_not_bit)

lemma and_one_eq_0 [flag_simps]: "(w AND 1 = (0 :: 'a::len word)) = (\<not> bit w 0)"
  using and_exp_eq_0_iff_not_bit [of w 0] by simp

lemma and_mask_eq_0 [flag_simps]:
  "(w AND 2 = (0 :: 'a::len word)) = (\<not> bit w 1)"
  "(w AND 4 = (0 :: 'a::len word)) = (\<not> bit w 2)"
  "(w AND 8 = (0 :: 'a::len word)) = (\<not> bit w 3)"
  "(w AND 16 = (0 :: 'a::len word)) = (\<not> bit w 4)"
  "(w AND 32 = (0 :: 'a::len word)) = (\<not> bit w 5)"
  "(w AND 64 = (0 :: 'a::len word)) = (\<not> bit w 6)"
  "(w AND 128 = (0 :: 'a::len word)) = (\<not> bit w 7)"
  using and_exp_eq_0_iff_not_bit [of w 1] and_exp_eq_0_iff_not_bit [of w 2]
    and_exp_eq_0_iff_not_bit [of w 3] and_exp_eq_0_iff_not_bit [of w 4]
    and_exp_eq_0_iff_not_bit [of w 5] and_exp_eq_0_iff_not_bit [of w 6]
    and_exp_eq_0_iff_not_bit [of w 7]
  by simp_all

lemma bit_or_1 [flag_simps]: "bit (w OR 1 :: 'a::len word) n = (n = 0 \<or> bit w n)"
  by (auto simp: bit_simps)

lemma bit_or_2 [flag_simps]: "bit (w OR 2 :: u8) n = (n = 1 \<or> bit w n)"
  by (auto simp: bit_simps)

lemma bit_clear_1 [flag_simps]: "bit (w AND - 2 :: 'a::len word) n = (n \<noteq> 0 \<and> bit w n)"
proof -
  have "- 2 = (NOT 1 :: 'a word)" by simp
  then show ?thesis by (metis bit_and_iff bit_not_iff bit_1_iff bit_imp_possible_bit)
qed

lemma bit_clear_2 [flag_simps]: "bit (w AND - 3 :: 'a::len word) n = (n \<noteq> 1 \<and> bit w n)"
proof -
  have "- 3 = (NOT 2 :: 'a word)" by simp
  then show ?thesis
    by (metis bit_and_iff bit_not_iff bit_imp_possible_bit bit_2_iff)
qed

end
