(* ===== verification/CMonad.thy ===== *)
theory CMonad
  imports Prelude
begin

section \<open>Imperative code: state, error codes, loops\<close>

text \<open>
  A C function that works on a state and returns an \<open>int\<close> error code is a function
  \<open>'s \<Rightarrow> ((err + 'a) \<times> 's) option\<close>. The result \<open>Some (Inr x, s')\<close> is a return of 0
  with the out-parameters \<open>x\<close>; \<open>Some (Inl e, s')\<close> is a return of the code \<open>e\<close>, with the
  changes made so far kept in \<open>s'\<close>; \<open>None\<close> means that the C code has no result: it loops
  for ever or leaves the defined behaviour of C (a read or write outside an object).
  So a theorem that concludes \<open>Some\<close> says that the code terminates and stays inside its
  objects.

  \<open>seq m f\<close> is \<open>err = m(); if (err) return err; f\<close>. Every loop of the sources is one
  \<open>loop body x\<close> over the variables \<open>x\<close> it changes: the body ends with \<open>Inl x'\<close> to go
  round again and with \<open>Inr v\<close> to leave the loop.

  \<open>wp m Q E s\<close> is the total-correctness weakest precondition: from \<open>s\<close> the code returns,
  and \<open>Q\<close> holds for a normal return, \<open>E\<close> for an error return.
\<close>

type_synonym err = int
type_synonym ('s, 'a) cm = "'s \<Rightarrow> ((err + 'a) \<times> 's) option"

definition ret :: "'a \<Rightarrow> ('s, 'a) cm" where
  "ret x = (\<lambda>s. Some (Inr x, s))"

definition fail :: "err \<Rightarrow> ('s, 'a) cm" where
  "fail e = (\<lambda>s. Some (Inl e, s))"

definition undef :: "('s, 'a) cm" where
  "undef = (\<lambda>s. None)"

definition seq :: "('s, 'a) cm \<Rightarrow> ('a \<Rightarrow> ('s, 'b) cm) \<Rightarrow> ('s, 'b) cm" where
  "seq m f = (\<lambda>s. case m s of None \<Rightarrow> None
     | Some (r, s') \<Rightarrow> (case r of Inl e \<Rightarrow> Some (Inl e, s') | Inr x \<Rightarrow> f x s'))"

definition reads :: "('s \<Rightarrow> 'a) \<Rightarrow> ('s, 'a) cm" where
  "reads f = (\<lambda>s. Some (Inr (f s), s))"

definition modify :: "('s \<Rightarrow> 's) \<Rightarrow> ('s, unit) cm" where
  "modify f = (\<lambda>s. Some (Inr (), f s))"

text \<open>\<open>catch m\<close> runs \<open>m\<close> and hands its return code on, for callers that look at the code.\<close>

definition catch :: "('s, 'a) cm \<Rightarrow> ('s, err + 'a) cm" where
  "catch m = (\<lambda>s. case m s of None \<Rightarrow> None | Some (r, s') \<Rightarrow> Some (Inr r, s'))"

partial_function (option)
  loop :: "('x \<Rightarrow> ('s, 'x + 'r) cm) \<Rightarrow> 'x \<Rightarrow> 's \<Rightarrow> ((err + 'r) \<times> 's) option" where
  "loop body x s = (case body x s of None \<Rightarrow> None
     | Some (r, s') \<Rightarrow> (case r of Inl e \<Rightarrow> Some (Inl e, s')
       | Inr y \<Rightarrow> (case y of Inl x' \<Rightarrow> loop body x' s' | Inr v \<Rightarrow> Some (Inr v, s'))))"

declare loop.simps [code]

subsection \<open>Weakest preconditions\<close>

named_theorems wp_simps \<open>weakest preconditions of the basic statements\<close>

definition wp ::
  "('s, 'a) cm \<Rightarrow> ('a \<Rightarrow> 's \<Rightarrow> bool) \<Rightarrow> (err \<Rightarrow> 's \<Rightarrow> bool) \<Rightarrow> 's \<Rightarrow> bool" where
  "wp m Q E s = (case m s of None \<Rightarrow> False
     | Some (r, s') \<Rightarrow> (case r of Inl e \<Rightarrow> E e s' | Inr x \<Rightarrow> Q x s'))"

lemma wp_ret [wp_simps]: "wp (ret x) Q E = Q x"
  by (rule ext) (simp add: wp_def ret_def)

lemma wp_fail [wp_simps]: "wp (fail e) Q E = E e"
  by (rule ext) (simp add: wp_def fail_def)

lemma wp_undef [wp_simps]: "wp undef Q E s = False"
  by (simp add: wp_def undef_def)

lemma wp_reads [wp_simps]: "wp (reads f) Q E s = Q (f s) s"
  by (simp add: wp_def reads_def)

lemma wp_modify [wp_simps]: "wp (modify f) Q E s = Q () (f s)"
  by (simp add: wp_def modify_def)

lemma wp_seq [wp_simps]: "wp (seq m f) Q E s = wp m (\<lambda>x. wp (f x) Q E) E s"
  by (auto simp: wp_def seq_def split: option.splits prod.splits sum.splits)

lemma wp_seq_fun: "wp (seq m f) Q E = wp m (\<lambda>x. wp (f x) Q E) E"
  by (rule ext) (simp add: wp_simps)

lemma wp_catch [wp_simps]:
  "wp (catch m) Q E s = wp m (\<lambda>x. Q (Inr x)) (\<lambda>e. Q (Inl e)) s"
  by (auto simp: wp_def catch_def split: option.splits prod.splits sum.splits)

lemma wp_if [wp_simps]:
  "wp (if b then m else n) Q E s = (if b then wp m Q E s else wp n Q E s)"
  by simp

lemma wp_prod [wp_simps]:
  "wp (case p of (a, b) \<Rightarrow> f a b) Q E s = (case p of (a, b) \<Rightarrow> wp (f a b) Q E s)"
  by (cases p) simp

lemma wp_let [wp_simps]: "wp (let x = v in f x) Q E s = (let x = v in wp (f x) Q E s)"
  by (simp add: Let_def)

lemma wp_conseq:
  "wp m Q E s \<Longrightarrow> (\<And>x s'. Q x s' \<Longrightarrow> Q' x s') \<Longrightarrow> (\<And>e s'. E e s' \<Longrightarrow> E' e s') \<Longrightarrow> wp m Q' E' s"
  by (auto simp: wp_def split: option.splits prod.splits sum.splits)

lemma wp_conj:
  "wp m Q E s \<Longrightarrow> wp m Q' E' s \<Longrightarrow>
   wp m (\<lambda>x s'. Q x s' \<and> Q' x s') (\<lambda>e s'. E e s' \<and> E' e s') s"
  by (auto simp: wp_def split: option.splits prod.splits sum.splits)

lemma wpD:
  assumes "wp m Q E s"
  obtains (ret) x s' where "m s = Some (Inr x, s')" "Q x s'"
    | (err) e s' where "m s = Some (Inl e, s')" "E e s'"
  using assms by (auto simp: wp_def split: option.splits prod.splits sum.splits)

lemma wp_result_ret: "m s = Some (Inr x, s') \<Longrightarrow> wp m Q E s = Q x s'"
  by (simp add: wp_def)

lemma wp_result_err: "m s = Some (Inl e, s') \<Longrightarrow> wp m Q E s = E e s'"
  by (simp add: wp_def)

text \<open>
  The rule for loops: an invariant on the loop variables and the state, and a number that
  every further round makes smaller. It gives termination and the result together.
\<close>

lemma wp_loop:
  assumes body: "\<And>x s. I x s \<Longrightarrow>
      wp (body x) (\<lambda>y s'. case y of Inl x' \<Rightarrow> I x' s' \<and> m x' s' < (m x s :: nat)
        | Inr v \<Rightarrow> Q v s') E s"
    and init: "I x s"
  shows "wp (loop body x) Q E s"
  using init
proof (induction "m x s" arbitrary: x s rule: less_induct)
  case less
  from body [OF less.prems] show ?case
    by (subst wp_def, subst loop.simps)
       (auto simp: wp_def split: option.splits prod.splits sum.splits dest!: less.hyps)
qed

text \<open>Unfolding one round of a loop.\<close>

lemma loop_unfold:
  "loop body x = seq (body x) (\<lambda>y. case y of Inl x' \<Rightarrow> loop body x' | Inr v \<Rightarrow> ret v)"
  by (rule ext, subst loop.simps)
     (auto simp: seq_def ret_def split: option.splits prod.splits sum.splits)

lemma wp_round:
  "wp (loop body x) Q E s = wp (body x) (\<lambda>y. case y of Inl x' \<Rightarrow> wp (loop body x') Q E | Inr v \<Rightarrow> Q v) E s"
  by (subst loop_unfold) (auto simp: wp_seq wp_ret intro!: arg_cong [where f = "\<lambda>q. wp _ q E s"] split: sum.split)

text \<open>
  \<open>for (uint32_t i = 0; i < n; i++) body(i)\<close>: the invariant speaks of the number of rounds.
\<close>

lemma wp_for:
  fixes n :: "32 word"
  assumes body: "\<And>i s. i < n \<Longrightarrow> I (unat i) s \<Longrightarrow> wp (body i) (\<lambda>_ s'. I (Suc (unat i)) s') E s"
    and init: "I 0 s" and fin: "\<And>s'. I (unat n) s' \<Longrightarrow> Q () s'"
  shows "wp (loop (\<lambda>i. if i < n then seq (body i) (\<lambda>_. ret (Inl (i + 1))) else ret (Inr ())) 0) Q E s"
proof (rule wp_loop [where I = "\<lambda>i t. i \<le> n \<and> I (unat i) t" and m = "\<lambda>i _. unat (n - i)"])
  fix i t assume inv: "i \<le> n \<and> I (unat i) t"
  show "wp (if i < n then seq (body i) (\<lambda>_. ret (Inl (i + 1))) else ret (Inr ())) (\<lambda>y s'. case y of
      Inl i' \<Rightarrow> (i' \<le> n \<and> I (unat i') s') \<and> unat (n - i') < unat (n - i) | Inr v \<Rightarrow> Q v s') E t"
  proof (cases "i < n")
    case True
    have "i + 1 \<le> n \<and> unat (n - (i + 1)) < unat (n - i)" "unat (i + 1) = Suc (unat i)"
      using True by unat_arith+
    then show ?thesis using True wp_conseq [OF body [OF True]] inv by (simp add: wp_simps)
  next
    case False
    then have "i = n" using inv by simp
    then show ?thesis using False inv fin by (simp add: wp_simps)
  qed
qed (use init in simp)

end
