(* ===== verification/Fat_Types.thy ===== *)
theory Fat_Types
  imports CMonad
begin

section \<open>FAT32: constants, structs and the driver's state (fat.h, fat.c)\<close>

text \<open>
  The structs of \<open>fat.h\<close> are records with the source's fields (a prefix tells the structs
  apart: \<open>f_\<close> for \<open>Fat\<close>, \<open>d_\<close> for \<open>Dir\<close>, \<open>fl_\<close> for \<open>File\<close>). The packed on-disk structs
  \<open>Sfn\<close>, \<open>Lfn\<close>, \<open>Bpb\<close>, \<open>Mbr\<close> and \<open>FsInfo\<close> are overlays of a byte buffer, so each of their
  fields is a read at the field's offset. A \<open>Fat*\<close> is a number, 0 the null pointer, and the
  state holds the \<open>Fat\<close> objects in a store indexed by these numbers.

  The two callbacks of \<open>DiskOps\<close> are functions on a device state \<open>'d\<close>; the kernel hands in
  its ATA functions, so they are a parameter here. A callback takes the caller's buffer and
  returns the flag, for a read the new contents of that buffer, and the new device state;
  \<open>None\<close> is a callback that never returns.
\<close>

subsection \<open>Constants\<close>

definition FAT_ERR_NONE :: err where "FAT_ERR_NONE = 0"
definition FAT_ERR_NOFAT :: err where "FAT_ERR_NOFAT = -1"
definition FAT_ERR_BROKEN :: err where "FAT_ERR_BROKEN = -2"
definition FAT_ERR_IO :: err where "FAT_ERR_IO = -3"
definition FAT_ERR_PARAM :: err where "FAT_ERR_PARAM = -4"
definition FAT_ERR_PATH :: err where "FAT_ERR_PATH = -5"
definition FAT_ERR_EOF :: err where "FAT_ERR_EOF = -6"
definition FAT_ERR_DENIED :: err where "FAT_ERR_DENIED = -7"
definition FAT_ERR_FULL :: err where "FAT_ERR_FULL = -8"

lemmas err_defs = FAT_ERR_NONE_def FAT_ERR_NOFAT_def FAT_ERR_BROKEN_def FAT_ERR_IO_def
  FAT_ERR_PARAM_def FAT_ERR_PATH_def FAT_ERR_EOF_def FAT_ERR_DENIED_def FAT_ERR_FULL_def

abbreviation (input) FAT_ATTR_RO :: u8 where "FAT_ATTR_RO \<equiv> 0x01"
abbreviation (input) FAT_ATTR_SYS :: u8 where "FAT_ATTR_SYS \<equiv> 0x04"
abbreviation (input) FAT_ATTR_LABEL :: u8 where "FAT_ATTR_LABEL \<equiv> 0x08"
abbreviation (input) FAT_ATTR_DIR :: u8 where "FAT_ATTR_DIR \<equiv> 0x10"
abbreviation (input) FAT_ATTR_ARCHIVE :: u8 where "FAT_ATTR_ARCHIVE \<equiv> 0x20"
abbreviation (input) FAT_ATTR_LFN :: u8 where "FAT_ATTR_LFN \<equiv> 0x0f"

abbreviation (input) FAT_WRITE :: u8 where "FAT_WRITE \<equiv> 0x01"
abbreviation (input) FAT_READ :: u8 where "FAT_READ \<equiv> 0x02"
abbreviation (input) FAT_APPEND :: u8 where "FAT_APPEND \<equiv> 0x04"
abbreviation (input) FAT_TRUNC :: u8 where "FAT_TRUNC \<equiv> 0x08"
abbreviation (input) FAT_CREATE :: u8 where "FAT_CREATE \<equiv> 0x10"
abbreviation (input) FAT_ACCESSED :: u8 where "FAT_ACCESSED \<equiv> 0x20"
abbreviation (input) FAT_MODIFIED :: u8 where "FAT_MODIFIED \<equiv> 0x40"
abbreviation (input) FAT_FILE_DIRTY :: u8 where "FAT_FILE_DIRTY \<equiv> 0x80"

abbreviation (input) FAT_BUF_DIRTY :: u8 where "FAT_BUF_DIRTY \<equiv> 0x01"
abbreviation (input) FAT_INFO_DIRTY :: u8 where "FAT_INFO_DIRTY \<equiv> 0x02"

abbreviation (input) CLUST_FREE :: u8 where "CLUST_FREE \<equiv> 0x01"
abbreviation (input) CLUST_USED :: u8 where "CLUST_USED \<equiv> 0x02"
abbreviation (input) CLUST_LAST :: u8 where "CLUST_LAST \<equiv> 0x04"
abbreviation (input) CLUST_BAD :: u8 where "CLUST_BAD \<equiv> 0x08"

datatype fat_seek = FAT_SEEK_START | FAT_SEEK_CURR | FAT_SEEK_END

abbreviation (input) SFN_FREE :: u8 where "SFN_FREE \<equiv> 0xe5"
abbreviation (input) SFN_LAST :: u8 where "SFN_LAST \<equiv> 0x00"
abbreviation (input) SFN_PAD :: u8 where "SFN_PAD \<equiv> 0x20"
abbreviation (input) LFN_HEAD_MSK :: u8 where "LFN_HEAD_MSK \<equiv> 0x40"
abbreviation (input) LFN_SEQ_MSK :: u8 where "LFN_SEQ_MSK \<equiv> 0x1f"

abbreviation (input) SLASH :: u8 where "SLASH \<equiv> 0x2f"
abbreviation (input) DOT :: u8 where "DOT \<equiv> 0x2e"

subsection \<open>The structs of fat.h\<close>

record 'd DiskOps =
  ops_read :: "bytes \<Rightarrow> u32 \<Rightarrow> 'd \<Rightarrow> (bool \<times> bytes \<times> 'd) option"
  ops_write :: "bytes \<Rightarrow> u32 \<Rightarrow> 'd \<Rightarrow> (bool \<times> 'd) option"

record Timestamp =
  ts_hour :: u8
  ts_min :: u8
  ts_sec :: u8
  ts_day :: u8
  ts_month :: u8
  ts_year :: u16

record 'd Fat =
  f_next :: nat
  f_ops :: "'d DiskOps"
  f_clust_msk :: u32
  f_clust_cnt :: u32
  f_info_sect :: u32
  f_fat_sect0 :: u32
  f_fat_sect1 :: u32
  f_data_sect :: u32
  f_root_clust :: u32
  f_last_used :: u32
  f_free_cnt :: u32
  f_sect :: u32
  f_buf :: bytes
  f_flags :: u8
  f_clust_shift :: u8
  f_name_len :: u8
  f_name :: bytes

record DirInfo =
  di_created :: Timestamp
  di_modified :: Timestamp
  di_size :: u32
  di_attr :: u8
  di_name :: bytes
  di_name_len :: u8

record Dir =
  d_fat :: nat
  d_sclust :: u32
  d_clust :: u32
  d_sect :: u32
  d_idx :: u16

record File =
  fl_fat :: nat
  fl_dir_sect :: u32
  fl_sclust :: u32
  fl_clust :: u32
  fl_sect :: u32
  fl_size :: u32
  fl_offset :: u32
  fl_dir_idx :: u16
  fl_attr :: u8
  fl_flags :: u8
  fl_buf :: bytes

record Loc =
  l_sect :: u32
  l_idx :: u16

subsection \<open>The driver's state\<close>

text \<open>
  \<open>cdir\<close> and \<open>cfile\<close> are the objects \<open>*dir\<close> and \<open>*file\<close> the current call works on: a C
  function that fails still leaves its changes in them, and so do the models. \<open>junk8\<close> and
  \<open>junk32\<close> are the values an automatic variable holds before it is assigned; nothing is
  assumed of them.
\<close>

record 'd fs =
  dev :: 'd
  fats :: "nat \<Rightarrow> 'd Fat"
  g_fat_list :: nat
  g_buf :: bytes
  g_len :: u16
  g_crc :: u8
  cdir :: Dir
  cfile :: File
  junk8 :: u8
  junk32 :: u32

definition getF :: "nat \<Rightarrow> ('d fs, 'd Fat) cm" where
  "getF p = reads (\<lambda>s. fats s p)"

definition setF :: "nat \<Rightarrow> ('d Fat \<Rightarrow> 'd Fat) \<Rightarrow> ('d fs, unit) cm" where
  "setF p f = modify (\<lambda>s. s\<lparr>fats := (fats s)(p := f (fats s p))\<rparr>)"

definition getD :: "('d fs, Dir) cm" where
  "getD = reads cdir"

definition setD :: "(Dir \<Rightarrow> Dir) \<Rightarrow> ('d fs, unit) cm" where
  "setD f = modify (\<lambda>s. s\<lparr>cdir := f (cdir s)\<rparr>)"

definition getFl :: "('d fs, File) cm" where
  "getFl = reads cfile"

definition setFl :: "(File \<Rightarrow> File) \<Rightarrow> ('d fs, unit) cm" where
  "setFl f = modify (\<lambda>s. s\<lparr>cfile := f (cfile s)\<rparr>)"

text \<open>A function with a local \<open>Dir dir\<close>: the caller's object is untouched when it returns.\<close>

definition with_local_dir :: "('d fs, 'a) cm \<Rightarrow> ('d fs, 'a) cm" where
  "with_local_dir m = (\<lambda>s. case m s of None \<Rightarrow> None
     | Some (r, s') \<Rightarrow> Some (r, s'\<lparr>cdir := cdir s\<rparr>))"

lemmas fs_ops_defs = getF_def setF_def getD_def setD_def getFl_def setFl_def

text \<open>The callbacks, called through \<open>fat->ops\<close>.\<close>

definition disk_write :: "nat \<Rightarrow> bytes \<Rightarrow> u32 \<Rightarrow> ('d fs, bool) cm" where
  "disk_write p b n = (\<lambda>s. case ops_write (f_ops (fats s p)) b n (dev s) of None \<Rightarrow> None
     | Some (ok, d') \<Rightarrow> Some (Inr ok, s\<lparr>dev := d'\<rparr>))"

definition disk_read :: "nat \<Rightarrow> bytes \<Rightarrow> u32 \<Rightarrow> ('d fs, bool \<times> bytes) cm" where
  "disk_read p b n = (\<lambda>s. case ops_read (f_ops (fats s p)) b n (dev s) of None \<Rightarrow> None
     | Some (ok, b', d') \<Rightarrow> Some (Inr (ok, b'), s\<lparr>dev := d'\<rparr>))"

subsection \<open>Directory entries: the overlays \<open>Sfn\<close> and \<open>Lfn\<close> of 32 bytes\<close>

definition sfn_name :: "bytes \<Rightarrow> bytes" where "sfn_name e = take 11 e"
definition sfn_attr :: "bytes \<Rightarrow> u8" where "sfn_attr e = e ! 11"
definition sfn_cre_time :: "bytes \<Rightarrow> u16" where "sfn_cre_time e = get16 e 14"
definition sfn_cre_date :: "bytes \<Rightarrow> u16" where "sfn_cre_date e = get16 e 16"
definition sfn_clust_hi :: "bytes \<Rightarrow> u16" where "sfn_clust_hi e = get16 e 20"
definition sfn_mod_time :: "bytes \<Rightarrow> u16" where "sfn_mod_time e = get16 e 22"
definition sfn_mod_date :: "bytes \<Rightarrow> u16" where "sfn_mod_date e = get16 e 24"
definition sfn_clust_lo :: "bytes \<Rightarrow> u16" where "sfn_clust_lo e = get16 e 26"
definition sfn_size :: "bytes \<Rightarrow> u32" where "sfn_size e = get32 e 28"

definition lfn_seq :: "bytes \<Rightarrow> u8" where "lfn_seq e = e ! 0"
definition lfn_attr :: "bytes \<Rightarrow> u8" where "lfn_attr e = e ! 11"
definition lfn_crc :: "bytes \<Rightarrow> u8" where "lfn_crc e = e ! 13"

definition sfn_is_last :: "bytes \<Rightarrow> bool" where
  "sfn_is_last e = (e ! 0 = SFN_LAST)"

definition sfn_is_free :: "bytes \<Rightarrow> bool" where
  "sfn_is_free e = (e ! 0 = SFN_LAST \<or> e ! 0 = SFN_FREE)"

definition sfn_is_lfn :: "bytes \<Rightarrow> bool" where
  "sfn_is_lfn e = (sfn_attr e = FAT_ATTR_LFN)"

definition sfn_cluster :: "bytes \<Rightarrow> u32" where
  "sfn_cluster e = push_bit 16 (ucast (sfn_clust_hi e)) OR ucast (sfn_clust_lo e)"

end
