(* ===== verification/Fat_Names.thy ===== *)
theory Fat_Names
  imports Fat_Types
begin

unbundle bit_operations_syntax

section \<open>FAT32: paths, names, checksums and time stamps\<close>

text \<open>
  The pure helpers of \<open>fat.c\<close>. A C string is the list of its bytes before the terminating
  zero; the byte at a pointer that has reached the end is that zero (\<open>deref\<close>).
\<close>

definition deref :: "bytes \<Rightarrow> u8" where
  "deref str = (case str of [] \<Rightarrow> 0 | c # _ \<Rightarrow> c)"

definition to_upper :: "u8 \<Rightarrow> u8" where
  "to_upper c = (if 0x61 \<le> c \<and> c \<le> 0x7a then c AND NOT 0x20 else c)"

definition subpath_len :: "bytes \<Rightarrow> nat" where
  "subpath_len path = length (takeWhile (\<lambda>c. c \<noteq> 0 \<and> c \<noteq> SLASH) path)"

definition skip_slashes :: "bytes \<Rightarrow> bytes" where
  "skip_slashes str = dropWhile (\<lambda>c. c = SLASH) str"

definition last_subpath_len :: "bytes \<Rightarrow> nat" where
  "last_subpath_len path =
     (let len = subpath_len path in
      if len = 0 then 0
      else if deref (skip_slashes (drop len path)) \<noteq> 0 then 0 else len)"

definition get_crc :: "bytes \<Rightarrow> u8" where
  "get_crc name = foldl (\<lambda>sum c. push_bit 7 (sum AND 1) + drop_bit 1 sum + c) 0 (take 11 name)"

subsection \<open>Time stamps\<close>

definition decode_timestamp :: "u16 \<Rightarrow> u16 \<Rightarrow> Timestamp" where
  "decode_timestamp date time =
     \<lparr>ts_hour = ucast (drop_bit 11 time AND 0x1f),
      ts_min = ucast (drop_bit 5 time AND 0x3f),
      ts_sec = 2 * ucast (time AND 0x1f),
      ts_day = ucast (date AND 0x1f),
      ts_month = ucast (drop_bit 5 date AND 0xf),
      ts_year = (drop_bit 9 date AND 0x3f) + 1980\<rparr>"

definition fat_get_timestamp :: Timestamp where
  "fat_get_timestamp =
     \<lparr>ts_hour = 0, ts_min = 0, ts_sec = 0, ts_day = 1, ts_month = 1, ts_year = 1980\<rparr>"

text \<open>\<open>encode_ts\<close> packs a time stamp, \<open>encode_timestamp\<close> packs the current one: (date, time).\<close>

definition encode_ts :: "Timestamp \<Rightarrow> u16 \<times> u16" where
  "encode_ts ts =
     (push_bit 9 ((ts_year ts - 1980) AND 0x3f) OR push_bit 5 (ucast (ts_month ts) AND 0xf)
        OR (ucast (ts_day ts) AND 0x1f),
      (ucast (ts_sec ts div 2) AND 0x1f) OR push_bit 5 (ucast (ts_min ts) AND 0x3f)
        OR push_bit 11 (ucast (ts_hour ts) AND 0x1f))"

definition encode_timestamp :: "u16 \<times> u16" where
  "encode_timestamp = encode_ts fat_get_timestamp"

subsection \<open>Short names\<close>

text \<open>The allowed special characters are \<open>!#$%&'()-@^_`{}~\<close> and the space.\<close>

definition sfn_specials :: bytes where
  "sfn_specials = [0x21, 0x23, 0x24, 0x25, 0x26, 0x27, 0x28, 0x29, 0x2d, 0x40, 0x5e, 0x5f,
     0x60, 0x7b, 0x7d, 0x7e, 0x20]"

definition sfn_char :: "u8 \<Rightarrow> u8" where
  "sfn_char c0 = (let c = to_upper c0 in
     if 0x41 \<le> c \<and> c \<le> 0x5a then c else if c \<in> set sfn_specials then c else 0x5f)"

definition put_sfn_name :: "bytes \<Rightarrow> nat \<Rightarrow> bytes" where
  "put_sfn_name name len =
     (let base = takeWhile (\<lambda>c. c \<noteq> DOT) (take (min len 8) name);
          rest = drop 1 (dropWhile (\<lambda>c. c \<noteq> DOT) (drop (length base) (take len name)));
          ext = take 3 rest
      in map sfn_char base @ replicate (8 - length base) SFN_PAD @
         map sfn_char ext @ replicate (3 - length ext) SFN_PAD)"

definition sfn_text :: "bytes \<Rightarrow> bytes" where
  "sfn_text n =
     takeWhile (\<lambda>c. c \<noteq> SFN_PAD) (take 8 n) @ (if n ! 8 \<noteq> SFN_PAD then [DOT] else []) @
     takeWhile (\<lambda>c. c \<noteq> SFN_PAD) (slice n 8 3)"

definition parse_sfn_name :: "bytes \<Rightarrow> ('d fs, unit) cm" where
  "parse_sfn_name n = modify (\<lambda>s. s\<lparr>g_buf := splice (g_buf s) 0 (sfn_text n),
     g_len := of_nat (length (sfn_text n))\<rparr>)"

subsection \<open>Long names: 13 characters per entry\<close>

definition g_lfn_indices :: "nat list" where
  "g_lfn_indices = [1, 3, 5, 7, 9, 14, 16, 18, 20, 22, 24, 28, 30]"

definition put_lfn_name_frag :: "bytes \<Rightarrow> bytes \<Rightarrow> nat \<Rightarrow> bytes" where
  "put_lfn_name_frag lfn name len =
     foldl (\<lambda>raw i. put16 raw (g_lfn_indices ! i)
         (if i < len then ucast (name ! i) else if i = len then 0 else 0xffff))
       lfn [0..<13]"

text \<open>The characters of an entry as the reading loop takes them: up to the first zero.\<close>

definition lfn_frag_chars :: "bytes \<Rightarrow> bytes" where
  "lfn_frag_chars lfn = takeWhile (\<lambda>c. c \<noteq> 0) (map (\<lambda>i. lfn ! (g_lfn_indices ! i)) [0..<13])"

text \<open>The entry number \<open>i\<close> of \<open>lfns\<close> for a name, as \<open>dir_add\<close> writes it over an old entry.\<close>

definition lfn_entry :: "bytes \<Rightarrow> bytes \<Rightarrow> nat \<Rightarrow> nat \<Rightarrow> u8 \<Rightarrow> u8 \<Rightarrow> bytes" where
  "lfn_entry e name len i msk crc =
     (let pos = 13 * (i - 1)
      in put16 ((put_lfn_name_frag e (drop pos name) (min (len - pos) 13))
           [11 := FAT_ATTR_LFN, 0 := msk OR of_nat i, 13 := crc, 12 := 0]) 26 0)"

end
