(* ===== verification/Fat_Cache.thy ===== *)
theory Fat_Cache
  imports Fat_Names
begin

unbundle bit_operations_syntax

section \<open>FAT32: the one-sector write-back cache\<close>

text \<open>
  Every \<open>Fat\<close> buffers one sector and writes it back when another is needed. The disk as the
  driver sees it is \<open>lsec\<close>, the device's sectors with the buffered one in place; \<open>disk_ok\<close> is
  the contract of the callbacks. The lemmas show what \<open>update_buf\<close>, \<open>sync_buf\<close> and \<open>sync_fs\<close> do
  to either of them, failing devices included.
\<close>

subsection \<open>The code: \<open>sync_buf\<close>, \<open>update_buf\<close>, \<open>sync_fs\<close>\<close>

definition sync_buf :: "nat \<Rightarrow> ('d fs, unit) cm" where
  "sync_buf p =
     seq (getF p) (\<lambda>F.
     if f_flags F AND FAT_BUF_DIRTY \<noteq> 0 then
       seq (disk_write p (f_buf F) (f_sect F)) (\<lambda>ok.
       if \<not> ok then fail FAT_ERR_IO
       else setF p (\<lambda>F. F\<lparr>f_flags := f_flags F AND NOT FAT_BUF_DIRTY\<rparr>))
     else ret ())"

definition update_buf :: "nat \<Rightarrow> u32 \<Rightarrow> ('d fs, unit) cm" where
  "update_buf p sect =
     seq (getF p) (\<lambda>F.
     if f_sect F \<noteq> sect then
       seq (sync_buf p) (\<lambda>_.
       seq (disk_read p (f_buf F) sect) (\<lambda>(ok, b).
       seq (setF p (\<lambda>F. F\<lparr>f_buf := b\<rparr>)) (\<lambda>_.
       if \<not> ok then fail FAT_ERR_IO
       else setF p (\<lambda>F. F\<lparr>f_sect := sect\<rparr>))))
     else ret ())"

text \<open>The fields \<open>free_cnt\<close> and \<open>next_free\<close> of the \<open>FsInfo\<close> overlay are at 488 and 492.\<close>

definition sync_fs :: "nat \<Rightarrow> ('d fs, unit) cm" where
  "sync_fs p =
     seq (sync_buf p) (\<lambda>_.
     seq (getF p) (\<lambda>F.
     if f_flags F AND FAT_INFO_DIRTY \<noteq> 0 then
       seq (update_buf p (f_info_sect F)) (\<lambda>_.
       seq (setF p (\<lambda>F. F\<lparr>f_buf := put32 (put32 (f_buf F) 492 (f_last_used F)) 488 (f_free_cnt F),
              f_flags := f_flags F OR FAT_BUF_DIRTY\<rparr>)) (\<lambda>_.
       seq (sync_buf p) (\<lambda>_.
       setF p (\<lambda>F. F\<lparr>f_flags := f_flags F AND NOT FAT_INFO_DIRTY\<rparr>))))
     else ret ()))"

text \<open>Writing into the buffered sector: the code stores through a pointer into \<open>fat->buf\<close>
  and sets the dirty flag.\<close>

definition store_buf :: "nat \<Rightarrow> (bytes \<Rightarrow> bytes) \<Rightarrow> ('d fs, unit) cm" where
  "store_buf p f = setF p (\<lambda>F. F\<lparr>f_buf := f (f_buf F), f_flags := f_flags F OR FAT_BUF_DIRTY\<rparr>)"

subsection \<open>The flat disk behind the cache\<close>

text \<open>
  What the driver relies on in the callbacks (the contract of \<open>DiskOps\<close>): they return; a
  successful read delivers the sector and a failed one leaves the buffer alone; a successful
  write changes exactly the addressed sector, a failed one may tear that sector and no other.
  \<open>media\<close> reads the sectors out of a device state.
\<close>

definition disk_ok :: "'d DiskOps \<Rightarrow> ('d \<Rightarrow> u32 \<Rightarrow> bytes) \<Rightarrow> bool" where
  "disk_ok ops media \<longleftrightarrow>
     (\<forall>d n. length (media d n) = 512) \<and>
     (\<forall>b n d. length b = 512 \<longrightarrow> (\<exists>ok b' d'. ops_read ops b n d = Some (ok, b', d') \<and>
        media d' = media d \<and> b' = (if ok then media d n else b))) \<and>
     (\<forall>b n d. length b = 512 \<longrightarrow> (\<exists>ok d'. ops_write ops b n d = Some (ok, d') \<and>
        (\<forall>m. m \<noteq> n \<longrightarrow> media d' m = media d m) \<and> (ok \<longrightarrow> media d' n = b)))"

text \<open>
  \<open>cache_ok\<close>: the buffer holds one sector; when it is clean it agrees with the disk, when
  it is dirty it stands for a real sector. Sector 0 is the mark for "nothing buffered".
\<close>

definition cache_ok :: "('d \<Rightarrow> u32 \<Rightarrow> bytes) \<Rightarrow> nat \<Rightarrow> 'd fs \<Rightarrow> bool" where
  "cache_ok media p s \<longleftrightarrow>
     disk_ok (f_ops (fats s p)) media \<and> length (f_buf (fats s p)) = 512 \<and>
     (bit (f_flags (fats s p)) 0 \<longrightarrow> f_sect (fats s p) \<noteq> 0) \<and>
     (\<not> bit (f_flags (fats s p)) 0 \<longrightarrow> f_sect (fats s p) \<noteq> 0 \<longrightarrow>
        f_buf (fats s p) = media (dev s) (f_sect (fats s p)))"

text \<open>The disk as a client of the cache sees it.\<close>

definition lsec :: "('d \<Rightarrow> u32 \<Rightarrow> bytes) \<Rightarrow> nat \<Rightarrow> 'd fs \<Rightarrow> u32 \<Rightarrow> bytes" where
  "lsec media p s n = (if n = f_sect (fats s p) \<and> n \<noteq> 0 then f_buf (fats s p)
     else media (dev s) n)"

text \<open>What the cache functions may change: the device, and the cache's fields of one \<open>Fat\<close>.\<close>

definition cache_frame :: "nat \<Rightarrow> 'd fs \<Rightarrow> 'd fs \<Rightarrow> bool" where
  "cache_frame p s s' \<longleftrightarrow> (\<exists>d b c fl.
     s' = s\<lparr>dev := d, fats := (fats s)(p := (fats s p)\<lparr>f_buf := b, f_sect := c, f_flags := fl\<rparr>)\<rparr> \<and>
     (\<forall>n. n \<noteq> 0 \<longrightarrow> bit fl n = bit (f_flags (fats s p)) n))"

definition cache_same :: "('d \<Rightarrow> u32 \<Rightarrow> bytes) \<Rightarrow> nat \<Rightarrow> 'd fs \<Rightarrow> 'd fs \<Rightarrow> bool" where
  "cache_same media p s s' \<longleftrightarrow>
     cache_ok media p s' \<and> lsec media p s' = lsec media p s \<and> cache_frame p s s'"

lemma cache_frameI:
  assumes "\<And>n. n \<noteq> 0 \<Longrightarrow> bit fl n = bit (f_flags (fats s p)) n"
  shows "cache_frame p s (s\<lparr>dev := d, fats := (fats s)(p := (fats s p)\<lparr>f_buf := b,
    f_sect := c, f_flags := fl\<rparr>)\<rparr>)"
  using assms by (auto simp: cache_frame_def)

lemma cache_frame_refl [simp]: "cache_frame p s s"
proof -
  have "s = s\<lparr>dev := dev s, fats := (fats s)(p := (fats s p)\<lparr>f_buf := f_buf (fats s p),
      f_sect := f_sect (fats s p), f_flags := f_flags (fats s p)\<rparr>)\<rparr>" by simp
  then show ?thesis by (metis cache_frame_def)
qed

lemma cache_frameE:
  assumes "cache_frame p s s'"
  obtains d b c fl where
    "s' = s\<lparr>dev := d, fats := (fats s)(p := (fats s p)\<lparr>f_buf := b, f_sect := c, f_flags := fl\<rparr>)\<rparr>"
    "\<And>n. n \<noteq> 0 \<Longrightarrow> bit fl n = bit (f_flags (fats s p)) n"
  using assms by (auto simp: cache_frame_def)

lemma cache_frameD:
  assumes "cache_frame p s s'"
  shows "f_next (fats s' p) = f_next (fats s p)" "f_ops (fats s' p) = f_ops (fats s p)"
    "f_clust_msk (fats s' p) = f_clust_msk (fats s p)"
    "f_clust_cnt (fats s' p) = f_clust_cnt (fats s p)"
    "f_info_sect (fats s' p) = f_info_sect (fats s p)"
    "f_fat_sect0 (fats s' p) = f_fat_sect0 (fats s p)"
    "f_fat_sect1 (fats s' p) = f_fat_sect1 (fats s p)"
    "f_data_sect (fats s' p) = f_data_sect (fats s p)"
    "f_root_clust (fats s' p) = f_root_clust (fats s p)"
    "f_last_used (fats s' p) = f_last_used (fats s p)"
    "f_free_cnt (fats s' p) = f_free_cnt (fats s p)"
    "f_clust_shift (fats s' p) = f_clust_shift (fats s p)"
    "f_name_len (fats s' p) = f_name_len (fats s p)" "f_name (fats s' p) = f_name (fats s p)"
    "q \<noteq> p \<Longrightarrow> fats s' q = fats s q"
    "g_fat_list s' = g_fat_list s" "g_buf s' = g_buf s" "g_len s' = g_len s" "g_crc s' = g_crc s"
    "cdir s' = cdir s" "cfile s' = cfile s" "junk8 s' = junk8 s" "junk32 s' = junk32 s"
    "n \<noteq> 0 \<Longrightarrow> bit (f_flags (fats s' p)) n = bit (f_flags (fats s p)) n"
  using assms by (auto elim!: cache_frameE)

lemma cache_frame_trans [trans]:
  "cache_frame p s t \<Longrightarrow> cache_frame p t u \<Longrightarrow> cache_frame p s u"
  by (auto elim!: cache_frameE intro!: cache_frameI)

lemma cache_same_refl [simp]: "cache_same media p s s = cache_ok media p s"
  by (simp add: cache_same_def)

lemma cache_same_trans [trans]:
  "cache_same media p s t \<Longrightarrow> cache_same media p t u \<Longrightarrow> cache_same media p s u"
  by (auto simp: cache_same_def elim: cache_frame_trans)

lemma wp_disk_read:
  assumes "disk_ok (f_ops (fats s p)) media" and "length b = 512"
    and "\<And>ok d'. media d' = media (dev s) \<Longrightarrow>
      Q (ok, if ok then media (dev s) n else b) (s\<lparr>dev := d'\<rparr>)"
  shows "wp (disk_read p b n) Q E s"
proof -
  obtain ok b' d' where "ops_read (f_ops (fats s p)) b n (dev s) = Some (ok, b', d')"
    "media d' = media (dev s)" "b' = (if ok then media (dev s) n else b)"
    using assms(1,2) unfolding disk_ok_def by blast
  then show ?thesis
    using assms(3) [of d' ok] by (simp add: disk_read_def wp_def)
qed

lemma wp_disk_write:
  assumes "disk_ok (f_ops (fats s p)) media" and "length b = 512"
    and "\<And>ok d'. (\<And>m. m \<noteq> n \<Longrightarrow> media d' m = media (dev s) m) \<Longrightarrow> (ok \<Longrightarrow> media d' n = b) \<Longrightarrow>
      Q ok (s\<lparr>dev := d'\<rparr>)"
  shows "wp (disk_write p b n) Q E s"
proof -
  obtain ok d' where "ops_write (f_ops (fats s p)) b n (dev s) = Some (ok, d')"
    "\<forall>m. m \<noteq> n \<longrightarrow> media d' m = media (dev s) m" "ok \<longrightarrow> media d' n = b"
    using assms(1,2) unfolding disk_ok_def by blast
  then show ?thesis
    using assms(3) [of d' ok] by (simp add: disk_write_def wp_def)
qed

subsection \<open>The cache functions refine the flat disk\<close>

lemma cache_frame_dev:
  "(\<And>n. n \<noteq> 0 \<Longrightarrow> bit fl n = bit (f_flags (fats s p)) n) \<Longrightarrow>
   cache_frame p s (s\<lparr>dev := d, fats := (fats s)(p := (fats s p)\<lparr>f_flags := fl\<rparr>)\<rparr>)"
  "cache_frame p s (s\<lparr>dev := d, fats := (fats s)(p := (fats s p)\<lparr>f_buf := b\<rparr>)\<rparr>)"
  "cache_frame p s (s\<lparr>dev := d, fats := (fats s)(p := (fats s p)\<lparr>f_buf := b, f_sect := c\<rparr>)\<rparr>)"
  "cache_frame p s (s\<lparr>dev := d\<rparr>)"
  using cache_frameI [where s = s and p = p and d = d and fl = fl and b = "f_buf (fats s p)"
      and c = "f_sect (fats s p)"]
    cache_frameI [where s = s and p = p and d = d and fl = "f_flags (fats s p)" and b = b
      and c = "f_sect (fats s p)"]
    cache_frameI [where s = s and p = p and d = d and fl = "f_flags (fats s p)" and b = b
      and c = c]
    cache_frameI [where s = s and p = p and d = d and fl = "f_flags (fats s p)"
      and b = "f_buf (fats s p)" and c = "f_sect (fats s p)"]
  by simp_all

lemma wp_sync_buf:
  assumes ok: "cache_ok media p s"
    and Q: "\<And>s'. cache_same media p s s' \<Longrightarrow> \<not> bit (f_flags (fats s' p)) 0 \<Longrightarrow>
      f_sect (fats s' p) = f_sect (fats s p) \<Longrightarrow> f_buf (fats s' p) = f_buf (fats s p) \<Longrightarrow> Q () s'"
    and E: "\<And>s'. cache_same media p s s' \<Longrightarrow> E FAT_ERR_IO s'"
  shows "wp (sync_buf p) Q E s"
proof (cases "bit (f_flags (fats s p)) 0")
  case False
  then show ?thesis
    using ok by (auto simp: sync_buf_def fs_ops_defs wp_simps flag_simps intro!: Q)
next
  case True
  let ?F = "fats s p"
  have disk: "disk_ok (f_ops ?F) media" and len: "length (f_buf ?F) = 512" and nz: "f_sect ?F \<noteq> 0"
    using ok True by (auto simp: cache_ok_def)
  have "wp (disk_write p (f_buf ?F) (f_sect ?F)) (\<lambda>ok. wp (if \<not> ok then fail FAT_ERR_IO
       else setF p (\<lambda>F. F\<lparr>f_flags := f_flags F AND NOT FAT_BUF_DIRTY\<rparr>)) Q E) E s"
  proof (rule wp_disk_write [OF disk len])
    fix r d'
    assume other: "\<And>m. m \<noteq> f_sect ?F \<Longrightarrow> media d' m = media (dev s) m"
      and hit: "r \<Longrightarrow> media d' (f_sect ?F) = f_buf ?F"
    have "cache_same media p s (s\<lparr>dev := d', fats := (fats s)(p := ?F\<lparr>f_flags := f_flags ?F AND - 2\<rparr>)\<rparr>)"
      if r using that ok nz hit other
      by (auto simp: cache_same_def cache_ok_def lsec_def flag_simps fun_eq_iff intro!: cache_frame_dev)
    moreover have "cache_same media p s (s\<lparr>dev := d'\<rparr>)" if "\<not> r"
      using ok nz other True
      by (auto simp: cache_same_def cache_ok_def lsec_def fun_eq_iff intro!: cache_frame_dev)
    ultimately show "wp (if \<not> r then fail FAT_ERR_IO
       else setF p (\<lambda>F. F\<lparr>f_flags := f_flags F AND NOT FAT_BUF_DIRTY\<rparr>)) Q E (s\<lparr>dev := d'\<rparr>)"
      by (auto simp: fs_ops_defs wp_simps flag_simps intro!: Q E)
  qed
  with True show ?thesis
    by (simp add: sync_buf_def fs_ops_defs wp_simps flag_simps)
qed

text \<open>Loading a sector into a clean buffer.\<close>

lemma wp_load:
  assumes ok: "cache_ok media p s" and nz: "n \<noteq> 0" and clean: "\<not> bit (f_flags (fats s p)) 0"
    and b: "b = f_buf (fats s p)"
    and Q: "\<And>s'. cache_same media p s s' \<Longrightarrow> f_sect (fats s' p) = n \<Longrightarrow>
      f_buf (fats s' p) = media (dev s) n \<Longrightarrow> Q () s'"
    and E: "\<And>s'. cache_same media p s s' \<Longrightarrow> E FAT_ERR_IO s'"
  shows "wp (seq (disk_read p b n) (\<lambda>(ok, b).
       seq (setF p (\<lambda>F. F\<lparr>f_buf := b\<rparr>)) (\<lambda>_.
       if \<not> ok then fail FAT_ERR_IO else setF p (\<lambda>F. F\<lparr>f_sect := n\<rparr>)))) Q E s"
proof -
  let ?F = "fats s p"
  have disk: "disk_ok (f_ops ?F) media" and len: "length b = 512"
    using ok b by (auto simp: cache_ok_def)
  show ?thesis
    unfolding wp_seq
  proof (rule wp_disk_read [OF disk len])
    fix r d' assume med: "media d' = media (dev s)"
    have "cache_same media p s
        (s\<lparr>dev := d', fats := (fats s)(p := ?F\<lparr>f_buf := media (dev s) n, f_sect := n\<rparr>)\<rparr>)"
      using ok clean med disk nz
      by (auto simp: cache_same_def cache_ok_def lsec_def fun_eq_iff disk_ok_def intro!: cache_frame_dev)
    moreover have "cache_same media p s (s\<lparr>dev := d', fats := (fats s)(p := ?F\<lparr>f_buf := b\<rparr>)\<rparr>)"
      using ok med b
      by (auto simp: cache_same_def cache_ok_def lsec_def fun_eq_iff intro!: cache_frame_dev)
    ultimately show "wp (case (r, if r then media (dev s) n else b) of (ok, b) \<Rightarrow>
         seq (setF p (\<lambda>F. F\<lparr>f_buf := b\<rparr>)) (\<lambda>_.
         if \<not> ok then fail FAT_ERR_IO else setF p (\<lambda>F. F\<lparr>f_sect := n\<rparr>))) Q E (s\<lparr>dev := d'\<rparr>)"
      by (auto simp: fs_ops_defs wp_simps intro!: Q E)
  qed
qed

lemma wp_update_buf:
  assumes ok: "cache_ok media p s" and nz: "n \<noteq> 0"
    and Q: "\<And>s'. cache_same media p s s' \<Longrightarrow> f_sect (fats s' p) = n \<Longrightarrow>
      f_buf (fats s' p) = lsec media p s n \<Longrightarrow> Q () s'"
    and E: "\<And>s'. cache_same media p s s' \<Longrightarrow> E FAT_ERR_IO s'"
  shows "wp (update_buf p n) Q E s"
proof (cases "f_sect (fats s p) = n")
  case True
  then show ?thesis
    using ok nz by (auto simp: update_buf_def fs_ops_defs wp_simps lsec_def intro!: Q)
next
  case False
  have "wp (seq (disk_read p (f_buf (fats s p)) n) (\<lambda>(ok, b).
       seq (setF p (\<lambda>F. F\<lparr>f_buf := b\<rparr>)) (\<lambda>_.
       if \<not> ok then fail FAT_ERR_IO else setF p (\<lambda>F. F\<lparr>f_sect := n\<rparr>)))) Q E t"
    if t: "cache_same media p s t" and clean: "\<not> bit (f_flags (fats t p)) 0"
      and sect: "f_sect (fats t p) = f_sect (fats s p)" and buf: "f_buf (fats t p) = f_buf (fats s p)" for t
  proof (rule wp_load [OF _ nz clean])
    show "cache_ok media p t" using t by (simp add: cache_same_def)
    show "f_buf (fats s p) = f_buf (fats t p)" using buf by simp
    have "lsec media p t n = lsec media p s n" using t by (simp add: cache_same_def)
    then have med: "media (dev t) n = lsec media p s n" using False sect by (auto simp: lsec_def)
    show "Q () s'" if "cache_same media p t s'" "f_sect (fats s' p) = n"
        "f_buf (fats s' p) = media (dev t) n" for s'
      using that t med by (intro Q) (auto intro: cache_same_trans)
    show "E FAT_ERR_IO s'" if "cache_same media p t s'" for s'
      using that t by (intro E) (auto intro: cache_same_trans)
  qed
  then show ?thesis
    using False ok E by (auto simp: update_buf_def fs_ops_defs wp_simps intro!: wp_sync_buf)
qed

text \<open>A store into the loaded sector changes the flat disk at that sector only.\<close>

lemma wp_store_buf:
  assumes ok: "cache_ok media p s" and sect: "f_sect (fats s p) = n" and nz: "n \<noteq> 0"
    and len: "length (f (lsec media p s n)) = 512"
    and Q: "\<And>s'. cache_ok media p s' \<Longrightarrow> lsec media p s' = (lsec media p s)(n := f (lsec media p s n)) \<Longrightarrow>
      cache_frame p s s' \<Longrightarrow> f_sect (fats s' p) = n \<Longrightarrow> Q () s'"
  shows "wp (store_buf p f) Q E s"
proof -
  let ?F = "fats s p"
  let ?s = "s\<lparr>fats := (fats s)(p := ?F\<lparr>f_buf := f (f_buf ?F), f_flags := f_flags ?F OR 1\<rparr>)\<rparr>"
  have "cache_frame p s ?s"
    using cache_frameI [where s = s and p = p and d = "dev s" and fl = "f_flags ?F OR 1"
        and b = "f (f_buf ?F)" and c = "f_sect ?F"] by (simp add: flag_simps)
  then have "Q () ?s"
    using ok sect nz len by (intro Q) (auto simp: cache_ok_def lsec_def flag_simps fun_eq_iff)
  then show ?thesis
    by (simp add: store_buf_def fs_ops_defs wp_simps)
qed

text \<open>Loading a sector and storing into it.\<close>

lemma wp_update_store:
  assumes ok: "cache_ok media p s" and nz: "n \<noteq> 0"
    and len: "length (f (lsec media p s n)) = 512"
    and Q: "\<And>s'. cache_ok media p s' \<Longrightarrow> lsec media p s' = (lsec media p s)(n := f (lsec media p s n)) \<Longrightarrow>
      cache_frame p s s' \<Longrightarrow> f_sect (fats s' p) = n \<Longrightarrow> Q () s'"
    and E: "\<And>s'. cache_same media p s s' \<Longrightarrow> E FAT_ERR_IO s'"
  shows "wp (seq (update_buf p n) (\<lambda>_. store_buf p f)) Q E s"
  unfolding wp_seq
proof (rule wp_update_buf [OF ok nz])
  fix t assume t: "cache_same media p s t" and sect: "f_sect (fats t p) = n"
  from t have tok: "cache_ok media p t" and l: "lsec media p t = lsec media p s"
    and fr: "cache_frame p s t" by (simp_all add: cache_same_def)
  show "wp (store_buf p f) Q E t"
    using tok sect nz by (rule wp_store_buf) (use len l Q fr in \<open>auto intro: cache_frame_trans\<close>)
qed (rule E)

lemma cache_ok_lsec_length: "cache_ok media p s \<Longrightarrow> length (lsec media p s n) = 512"
  by (simp add: cache_ok_def lsec_def disk_ok_def)

subsection \<open>\<open>sync_fs\<close>: everything on disk, and the FsInfo sector with it\<close>

text \<open>What the functions above the cache may change of a \<open>Fat\<close>: the cache, all flags, and
  the two counters of the FsInfo sector.\<close>

definition tab_frame :: "nat \<Rightarrow> 'd fs \<Rightarrow> 'd fs \<Rightarrow> bool" where
  "tab_frame p s s' \<longleftrightarrow> (\<exists>d b c fl lu fc.
     s' = s\<lparr>dev := d, fats := (fats s)(p := (fats s p)\<lparr>f_buf := b, f_sect := c, f_flags := fl,
       f_last_used := lu, f_free_cnt := fc\<rparr>)\<rparr>)"

lemma tab_frameE:
  assumes "tab_frame p s s'"
  obtains d b c fl lu fc where
    "s' = s\<lparr>dev := d, fats := (fats s)(p := (fats s p)\<lparr>f_buf := b, f_sect := c, f_flags := fl,
       f_last_used := lu, f_free_cnt := fc\<rparr>)\<rparr>"
  using assms by (auto simp: tab_frame_def)

lemma tab_frameI:
  "tab_frame p s (s\<lparr>dev := d, fats := (fats s)(p := (fats s p)\<lparr>f_buf := b, f_sect := c,
     f_flags := fl, f_last_used := lu, f_free_cnt := fc\<rparr>)\<rparr>)"
  unfolding tab_frame_def by (intro exI) (rule refl)

lemma cache_frame_tab: "cache_frame p s s' \<Longrightarrow> tab_frame p s s'"
proof (erule cache_frameE)
  fix d b c fl
  assume "s' = s\<lparr>dev := d, fats := (fats s)(p := (fats s p)\<lparr>f_buf := b, f_sect := c, f_flags := fl\<rparr>)\<rparr>"
  then show "tab_frame p s s'"
    using tab_frameI [where p = p and s = s and d = d and b = b and c = c and fl = fl
        and lu = "f_last_used (fats s p)" and fc = "f_free_cnt (fats s p)"] by simp
qed

lemma tab_frame_refl [simp]: "tab_frame p s s"
  by (simp add: cache_frame_tab)

lemma tab_frame_trans [trans]: "tab_frame p s t \<Longrightarrow> tab_frame p t u \<Longrightarrow> tab_frame p s u"
  by (auto elim!: tab_frameE intro!: tab_frameI)

lemma tab_frame_upd:
  "tab_frame p s (s\<lparr>fats := (fats s)(p := (fats s p)\<lparr>f_flags := fl\<rparr>)\<rparr>)"
  "tab_frame p s (s\<lparr>fats := (fats s)(p := (fats s p)\<lparr>f_free_cnt := fc\<rparr>)\<rparr>)"
  "tab_frame p s (s\<lparr>fats := (fats s)(p := (fats s p)\<lparr>f_last_used := lu, f_free_cnt := fc\<rparr>)\<rparr>)"
  using tab_frameI [where p = p and s = s and d = "dev s" and b = "f_buf (fats s p)"
      and c = "f_sect (fats s p)" and fl = fl and lu = "f_last_used (fats s p)"
      and fc = "f_free_cnt (fats s p)"]
    tab_frameI [where p = p and s = s and d = "dev s" and b = "f_buf (fats s p)"
      and c = "f_sect (fats s p)" and fl = "f_flags (fats s p)" and lu = "f_last_used (fats s p)"
      and fc = fc]
    tab_frameI [where p = p and s = s and d = "dev s" and b = "f_buf (fats s p)"
      and c = "f_sect (fats s p)" and fl = "f_flags (fats s p)" and lu = lu and fc = fc]
  by simp_all

lemma tab_frameD:
  assumes "tab_frame p s s'"
  shows "f_next (fats s' p) = f_next (fats s p)" "f_ops (fats s' p) = f_ops (fats s p)"
    "f_clust_msk (fats s' p) = f_clust_msk (fats s p)"
    "f_clust_cnt (fats s' p) = f_clust_cnt (fats s p)"
    "f_info_sect (fats s' p) = f_info_sect (fats s p)"
    "f_fat_sect0 (fats s' p) = f_fat_sect0 (fats s p)"
    "f_fat_sect1 (fats s' p) = f_fat_sect1 (fats s p)"
    "f_data_sect (fats s' p) = f_data_sect (fats s p)"
    "f_root_clust (fats s' p) = f_root_clust (fats s p)"
    "f_clust_shift (fats s' p) = f_clust_shift (fats s p)"
    "f_name_len (fats s' p) = f_name_len (fats s p)" "f_name (fats s' p) = f_name (fats s p)"
    "q \<noteq> p \<Longrightarrow> fats s' q = fats s q"
    "g_fat_list s' = g_fat_list s" "g_buf s' = g_buf s" "g_len s' = g_len s" "g_crc s' = g_crc s"
    "cdir s' = cdir s" "cfile s' = cfile s" "junk8 s' = junk8 s" "junk32 s' = junk32 s"
  using assms by (auto elim!: tab_frameE)

text \<open>Changing the counters or the other flags leaves the cache and the flat disk alone.\<close>

lemma cache_ok_upd [simp]:
  "cache_ok media p (s\<lparr>fats := (fats s)(p := (fats s p)\<lparr>f_free_cnt := fc\<rparr>)\<rparr>) = cache_ok media p s"
  "cache_ok media p (s\<lparr>fats := (fats s)(p := (fats s p)\<lparr>f_last_used := lu, f_free_cnt := fc\<rparr>)\<rparr>) = cache_ok media p s"
  "bit fl 0 = bit (f_flags (fats s p)) 0 \<Longrightarrow>
   cache_ok media p (s\<lparr>fats := (fats s)(p := (fats s p)\<lparr>f_flags := fl\<rparr>)\<rparr>) = cache_ok media p s"
  by (simp_all add: cache_ok_def)

lemma lsec_upd [simp]:
  "lsec media p (s\<lparr>fats := (fats s)(p := (fats s p)\<lparr>f_free_cnt := fc\<rparr>)\<rparr>) = lsec media p s"
  "lsec media p (s\<lparr>fats := (fats s)(p := (fats s p)\<lparr>f_last_used := lu, f_free_cnt := fc\<rparr>)\<rparr>) = lsec media p s"
  "lsec media p (s\<lparr>fats := (fats s)(p := (fats s p)\<lparr>f_flags := fl\<rparr>)\<rparr>) = lsec media p s"
  by (auto simp: lsec_def intro!: ext)

definition info_put :: "'d Fat \<Rightarrow> bytes \<Rightarrow> bytes" where
  "info_put F b = put32 (put32 b 492 (f_last_used F)) 488 (f_free_cnt F)"

text \<open>A clean cache is nothing but a copy: the device holds the flat disk.\<close>

lemma clean_media:
  assumes "cache_ok media p s" and "\<not> bit (f_flags (fats s p)) 0"
  shows "media (dev s) = lsec media p s"
  using assms by (auto simp: cache_ok_def lsec_def fun_eq_iff)

definition synced :: "('d \<Rightarrow> u32 \<Rightarrow> bytes) \<Rightarrow> nat \<Rightarrow> 'd fs \<Rightarrow> bool" where
  "synced media p s \<longleftrightarrow> cache_ok media p s \<and> \<not> bit (f_flags (fats s p)) 0 \<and>
     \<not> bit (f_flags (fats s p)) 1 \<and> media (dev s) = lsec media p s"

lemma wp_sync_fs:
  assumes ok: "cache_ok media p s" and info: "f_info_sect (fats s p) = n" and nz: "n \<noteq> 0"
    and Q: "\<And>s'. synced media p s' \<Longrightarrow> tab_frame p s s' \<Longrightarrow>
      f_last_used (fats s' p) = f_last_used (fats s p) \<Longrightarrow> f_free_cnt (fats s' p) = f_free_cnt (fats s p) \<Longrightarrow>
      lsec media p s' = (if bit (f_flags (fats s p)) 1
        then (lsec media p s)(n := info_put (fats s p) (lsec media p s n)) else lsec media p s) \<Longrightarrow> Q () s'"
    and E: "\<And>s'. cache_ok media p s' \<Longrightarrow> tab_frame p s s' \<Longrightarrow>
      f_last_used (fats s' p) = f_last_used (fats s p) \<Longrightarrow> f_free_cnt (fats s' p) = f_free_cnt (fats s p) \<Longrightarrow>
      (\<And>m. m \<noteq> n \<Longrightarrow> lsec media p s' m = lsec media p s m) \<Longrightarrow> E FAT_ERR_IO s'"
  shows "wp (sync_fs p) Q E s"
  unfolding sync_fs_def wp_seq
proof (rule wp_sync_buf [OF ok])
  fix t assume t: "cache_same media p s t" and clean: "\<not> bit (f_flags (fats t p)) 0"
  then have tok: "cache_ok media p t" and lt: "lsec media p t = lsec media p s"
    and ft: "cache_frame p s t" by (auto simp: cache_same_def)
  note [simp] = cache_frameD [OF ft]
  have ft': "tab_frame p s t" using ft by (rule cache_frame_tab)
  have Eu: "E FAT_ERR_IO u" if "cache_same media p t u" for u
    using that cache_frameD [of p t u] lt ft'
    by (intro E) (auto simp: cache_same_def intro: tab_frame_trans cache_frame_tab)
  show "wp (getF p) (\<lambda>x. wp (if f_flags x AND FAT_INFO_DIRTY \<noteq> 0 then
       seq (update_buf p (f_info_sect x)) (\<lambda>_.
       seq (setF p (\<lambda>F. F\<lparr>f_buf := put32 (put32 (f_buf F) 492 (f_last_used F)) 488 (f_free_cnt F),
              f_flags := f_flags F OR FAT_BUF_DIRTY\<rparr>)) (\<lambda>_.
       seq (sync_buf p) (\<lambda>_.
       setF p (\<lambda>F. F\<lparr>f_flags := f_flags F AND NOT FAT_INFO_DIRTY\<rparr>))))
     else ret ()) Q E) E t" (is "wp _ (\<lambda>x. wp (if _ then ?body x else _) Q E) E t")
  proof (cases "bit (f_flags (fats s p)) 1")
    case False
    then show ?thesis
      using tok clean lt ft' clean_media [OF tok clean]
      by (auto simp: fs_ops_defs wp_simps flag_simps synced_def intro!: Q)
  next
    case True
    have "wp (?body (fats t p)) Q E t"
      unfolding wp_seq
    proof (rule wp_update_buf [OF tok])
      fix u assume u: "cache_same media p t u" and sect: "f_sect (fats u p) = f_info_sect (fats t p)"
      then have uok: "cache_ok media p u" and lu: "lsec media p u = lsec media p s"
        and fu: "cache_frame p s u"
        using lt ft by (auto simp: cache_same_def intro: cache_frame_trans)
      have "wp (store_buf p (info_put (fats s p))) (\<lambda>_. wp (seq (sync_buf p) (\<lambda>_.
         setF p (\<lambda>F. F\<lparr>f_flags := f_flags F AND NOT FAT_INFO_DIRTY\<rparr>))) Q E) E u"
        unfolding wp_seq
      proof (rule wp_store_buf [OF uok, where n = n])
        show "f_sect (fats u p) = n" using sect info by simp
        show "length (info_put (fats s p) (lsec media p u n)) = 512"
          using cache_ok_lsec_length [OF uok] by (simp add: info_put_def)
        fix v assume vok: "cache_ok media p v" and fv: "cache_frame p u v"
          and lv: "lsec media p v = (lsec media p u)(n := info_put (fats s p) (lsec media p u n))"
        show "wp (sync_buf p) (\<lambda>_. wp (setF p (\<lambda>F. F\<lparr>f_flags := f_flags F AND NOT FAT_INFO_DIRTY\<rparr>)) Q E) E v"
        proof (rule wp_sync_buf [OF vok])
          fix w assume w: "cache_same media p v w" and wc: "\<not> bit (f_flags (fats w p)) 0"
          then have wok: "cache_ok media p w" and lw: "lsec media p w = lsec media p v"
            and fw: "cache_frame p s w"
            using fu fv by (auto simp: cache_same_def intro: cache_frame_trans)
          let ?w = "w\<lparr>fats := (fats w)(p := (fats w p)\<lparr>f_flags := f_flags (fats w p) AND - 3\<rparr>)\<rparr>"
          have "cache_ok media p ?w" using wok wc by (simp add: flag_simps)
          then have "synced media p ?w"
            using wc clean_media [of media p ?w] by (simp add: synced_def flag_simps)
          moreover have "tab_frame p s ?w"
            by (rule tab_frame_trans [OF cache_frame_tab [OF fw]]) (rule tab_frame_upd)
          ultimately have "Q () ?w"
            using True lw lv lu cache_frameD [OF fw] by (intro Q) simp_all
          then show "wp (setF p (\<lambda>F. F\<lparr>f_flags := f_flags F AND NOT FAT_INFO_DIRTY\<rparr>)) Q E w"
            by (simp add: fs_ops_defs wp_simps)
        next
          fix w assume w: "cache_same media p v w"
          then have fw: "cache_frame p s w"
            using fu fv by (auto simp: cache_same_def intro: cache_frame_trans)
          show "E FAT_ERR_IO w"
            using w lv lu cache_frameD [OF fw] cache_frame_tab [OF fw]
            by (intro E) (auto simp: cache_same_def)
        qed
      qed (use nz in simp)
      then show "wp (setF p (\<lambda>F. F\<lparr>f_buf := put32 (put32 (f_buf F) 492 (f_last_used F)) 488 (f_free_cnt F),
              f_flags := f_flags F OR FAT_BUF_DIRTY\<rparr>)) (\<lambda>_.
          wp (sync_buf p) (\<lambda>_.
         wp (setF p (\<lambda>F. F\<lparr>f_flags := f_flags F AND NOT FAT_INFO_DIRTY\<rparr>)) Q E) E) E u"
        using cache_frameD [OF fu]
        by (simp add: store_buf_def info_put_def fs_ops_defs wp_simps)
    qed (use info nz Eu in simp_all)
    then show ?thesis
      using True by (simp add: fs_ops_defs wp_simps flag_simps)
  qed
qed (use E ok in \<open>auto simp: cache_same_def cache_frameD cache_frame_tab\<close>)

end
