(* ===== verification/Fat_Table.thy ===== *)
theory Fat_Table
  imports Fat_Cache
begin

unbundle bit_operations_syntax

section \<open>FAT32: the allocation table and cluster chains\<close>

text \<open>
  The entries of the table, read and written through the cache and kept in one or two copies,
  and the three functions on chains: \<open>remove_chain\<close>, \<open>stretch_chain\<close>, \<open>clust_clear\<close>. The table is
  specified as the function \<open>fat_tab\<close> from clusters to entries that the flat disk holds, a chain as
  the list of its clusters; the lemmas give each function's total correctness over these.
\<close>

subsection \<open>The code\<close>

definition sect_to_clust :: "'d Fat \<Rightarrow> u32 \<Rightarrow> u32" where
  "sect_to_clust F sect = drop_bit (unat (f_clust_shift F)) (sect - f_data_sect F) + 2"

definition clust_to_sect :: "'d Fat \<Rightarrow> u32 \<Rightarrow> u32" where
  "clust_to_sect F clust = push_bit (unat (f_clust_shift F)) (clust - 2) + f_data_sect F"

text \<open>The kind of a table entry; \<open>None\<close> is the value \<open>get_fat\<close> rejects.\<close>

definition clust_flags :: "u32 \<Rightarrow> u32 \<Rightarrow> u8 option" where
  "clust_flags cnt val =
     (if val = 0 then Some CLUST_FREE
      else if val = 0x0ffffff7 then Some CLUST_BAD
      else if 0x0ffffff8 \<le> val then Some (CLUST_USED OR CLUST_LAST)
      else if 2 \<le> val \<and> val < cnt then Some CLUST_USED
      else None)"

definition get_fat :: "nat \<Rightarrow> u32 \<Rightarrow> ('d fs, u32 \<times> u8) cm" where
  "get_fat p clust =
     seq (getF p) (\<lambda>F.
     seq (update_buf p (f_fat_sect0 F + clust div 128)) (\<lambda>_.
     seq (getF p) (\<lambda>F.
     let val = get32 (f_buf F) (4 * unat (clust mod 128)) AND 0x0fffffff in
     case clust_flags (f_clust_cnt F) val of
       None \<Rightarrow> fail FAT_ERR_BROKEN
     | Some flags \<Rightarrow> ret (val, flags))))"

definition put_entry :: "nat \<Rightarrow> u32 \<Rightarrow> bytes \<Rightarrow> bytes" where
  "put_entry idx val b =
     put32 b (4 * idx) ((get32 b (4 * idx) AND 0xf0000000) OR (val AND 0x0fffffff))"

definition put_fat2 :: "nat \<Rightarrow> u32 \<Rightarrow> u32 \<Rightarrow> u32 \<Rightarrow> ('d fs, unit) cm" where
  "put_fat2 p fat_sect clust val =
     seq (update_buf p (fat_sect + clust div 128)) (\<lambda>_.
     store_buf p (put_entry (unat (clust mod 128)) val))"

definition put_fat :: "nat \<Rightarrow> u32 \<Rightarrow> u32 \<Rightarrow> ('d fs, unit) cm" where
  "put_fat p clust val =
     seq (getF p) (\<lambda>F.
     seq (if f_fat_sect1 F \<noteq> 0 then put_fat2 p (f_fat_sect1 F) clust val else ret ()) (\<lambda>_.
     put_fat2 p (f_fat_sect0 F) clust val))"

definition remove_chain_step :: "nat \<Rightarrow> u32 \<Rightarrow> ('d fs, u32 + unit) cm" where
  "remove_chain_step p clust =
     seq (get_fat p clust) (\<lambda>(nxt, flags).
     if flags AND (CLUST_BAD OR CLUST_FREE) \<noteq> 0 then fail FAT_ERR_BROKEN
     else
       seq (put_fat p clust 0) (\<lambda>_.
       seq (setF p (\<lambda>F. F\<lparr>f_free_cnt := f_free_cnt F + 1\<rparr>)) (\<lambda>_.
       if flags AND CLUST_LAST \<noteq> 0 then ret (Inr ()) else ret (Inl nxt))))"

definition remove_chain :: "nat \<Rightarrow> u32 \<Rightarrow> ('d fs, unit) cm" where
  "remove_chain p clust =
     seq (setF p (\<lambda>F. F\<lparr>f_flags := f_flags F OR FAT_INFO_DIRTY\<rparr>)) (\<lambda>_.
     seq (loop (remove_chain_step p) clust) (\<lambda>_.
     sync_fs p))"

definition next_clust :: "'d Fat \<Rightarrow> u32 \<Rightarrow> u32" where
  "next_clust F clust = (if f_clust_cnt F \<le> clust + 1 then 2 else clust + 1)"

text \<open>
  The scan of \<open>stretch_chain\<close>. Its variables are \<open>clust\<close> and \<open>flags\<close>; it is left with
  \<open>Some clust\<close> at a free cluster. When \<open>get_fat\<close> fails the code does \<open>return flags\<close>: it
  hands back the flags of the cluster before, or what the variable held at first. Where
  that byte is 0 the caller takes it for success; the loop is then left with \<open>None\<close>.
\<close>

definition scan_step :: "nat \<Rightarrow> u32 \<times> u8 \<Rightarrow> ('d fs, (u32 \<times> u8) + u32 option) cm" where
  "scan_step p = (\<lambda>(clust, flags).
     seq (getF p) (\<lambda>F.
     let c = next_clust F clust in
     if c = f_last_used F then fail FAT_ERR_FULL
     else
       seq (catch (get_fat p c)) (\<lambda>r.
       case r of
         Inl err \<Rightarrow> if flags = 0 then ret (Inr None) else fail (uint flags)
       | Inr (nxt, fl) \<Rightarrow>
           if fl AND CLUST_FREE \<noteq> 0 then ret (Inr (Some c)) else ret (Inl (c, fl)))))"

text \<open>The end of \<open>stretch_chain\<close>: the free cluster becomes the new end of the chain.\<close>

definition link_clust :: "nat \<Rightarrow> u32 \<Rightarrow> u32 \<Rightarrow> ('d fs, u32) cm" where
  "link_clust p prev clust =
     seq (put_fat p clust 0x0fffffff) (\<lambda>_.
     seq (if prev \<noteq> 0 then put_fat p prev clust else ret ()) (\<lambda>_.
     seq (setF p (\<lambda>F. F\<lparr>f_last_used := clust, f_free_cnt := f_free_cnt F - 1\<rparr>)) (\<lambda>_.
     seq (sync_fs p) (\<lambda>_.
     ret clust))))"

text \<open>\<open>out\<close> is what \<open>*out_clust\<close> held before the call; it keeps it where the code does not
  assign it.\<close>

definition stretch_chain :: "nat \<Rightarrow> u32 \<Rightarrow> u32 \<Rightarrow> ('d fs, u32) cm" where
  "stretch_chain p prev out =
     seq (setF p (\<lambda>F. F\<lparr>f_flags := f_flags F OR FAT_INFO_DIRTY\<rparr>)) (\<lambda>_.
     seq (getF p) (\<lambda>F.
     seq (reads junk8) (\<lambda>flags0.
     seq (if prev \<noteq> 0 then seq (get_fat p (next_clust F prev)) (\<lambda>(nxt, fl).
            ret (fl, if fl AND CLUST_FREE \<noteq> 0 then Some (next_clust F prev) else None))
          else ret (flags0, None)) (\<lambda>(flags, hit).
     seq (case hit of Some c \<Rightarrow> ret (Some c)
          | None \<Rightarrow> loop (scan_step p) (f_last_used F, flags)) (\<lambda>found.
     case found of
       None \<Rightarrow> ret out
     | Some clust \<Rightarrow> link_clust p prev clust)))))"

definition create_chain :: "nat \<Rightarrow> u32 \<Rightarrow> ('d fs, u32) cm" where
  "create_chain p out = stretch_chain p 0 out"

definition clust_clear_step :: "nat \<Rightarrow> nat \<times> u32 \<Rightarrow> ('d fs, (nat \<times> u32) + unit) cm" where
  "clust_clear_step p = (\<lambda>(i, sect).
     seq (getF p) (\<lambda>F.
     if i < 2 ^ unat (f_clust_shift F) then
       seq (setF p (\<lambda>F. F\<lparr>f_flags := f_flags F OR FAT_BUF_DIRTY, f_sect := sect\<rparr>)) (\<lambda>_.
       seq (sync_buf p) (\<lambda>_.
       ret (Inl (i + 1, sect + 1))))
     else ret (Inr ())))"

definition clust_clear :: "nat \<Rightarrow> u32 \<Rightarrow> ('d fs, unit) cm" where
  "clust_clear p clust =
     seq (sync_buf p) (\<lambda>_.
     seq (getF p) (\<lambda>F.
     seq (setF p (\<lambda>F. F\<lparr>f_buf := replicate 512 0\<rparr>)) (\<lambda>_.
     loop (clust_clear_step p) (0, clust_to_sect F clust))))"

subsection \<open>The table behind the cache\<close>

text \<open>
  Where the table lies. \<open>geom F\<close>: the sectors of the first copy, of the second copy (where
  mirroring is on) and the FsInfo sector are distinct and none is sector 0; and the table is no longer than FAT32 allows.
\<close>

definition geom :: "'d Fat \<Rightarrow> bool" where
  "geom F \<longleftrightarrow> 2 \<le> f_clust_cnt F \<and> f_clust_cnt F \<le> 0x0ffffff7 \<and> f_info_sect F \<noteq> 0 \<and>
     (\<forall>c < f_clust_cnt F. f_fat_sect0 F + c div 128 \<noteq> 0 \<and> f_fat_sect0 F + c div 128 \<noteq> f_info_sect F) \<and>
     (f_fat_sect1 F \<noteq> 0 \<longrightarrow> (\<forall>c < f_clust_cnt F. f_fat_sect1 F + c div 128 \<noteq> 0 \<and>
        f_fat_sect1 F + c div 128 \<noteq> f_info_sect F \<and>
        (\<forall>c' < f_clust_cnt F. f_fat_sect1 F + c div 128 \<noteq> f_fat_sect0 F + c' div 128)))"

text \<open>\<open>tab_at base\<close> is the copy of the table at sector \<open>base\<close>, \<open>fat_tab\<close> the active one,
  read from the flat disk; both are 0 outside the table.\<close>

definition entry_of :: "(u32 \<Rightarrow> bytes) \<Rightarrow> u32 \<Rightarrow> u32 \<Rightarrow> u32" where
  "entry_of L base c = get32 (L (base + c div 128)) (4 * unat (c mod 128)) AND 0x0fffffff"

definition tab_at :: "('d \<Rightarrow> u32 \<Rightarrow> bytes) \<Rightarrow> nat \<Rightarrow> 'd fs \<Rightarrow> u32 \<Rightarrow> u32 \<Rightarrow> u32" where
  "tab_at media p s base = (\<lambda>c. if c < f_clust_cnt (fats s p) then entry_of (lsec media p s) base c else 0)"

definition fat_tab :: "('d \<Rightarrow> u32 \<Rightarrow> bytes) \<Rightarrow> nat \<Rightarrow> 'd fs \<Rightarrow> u32 \<Rightarrow> u32" where
  "fat_tab media p s = tab_at media p s (f_fat_sect0 (fats s p))"

definition fat_region :: "'d Fat \<Rightarrow> u32 set" where
  "fat_region F = {f_fat_sect0 F + c div 128 |c. c < f_clust_cnt F} \<union>
     (if f_fat_sect1 F \<noteq> 0 then {f_fat_sect1 F + c div 128 |c. c < f_clust_cnt F} else {})"

lemma idx_bound: "4 * unat (c mod 128 :: u32) + 3 < 512"
proof -
  have "unat (c mod 128) < 128" by (simp add: unat_mod)
  then show ?thesis by linarith
qed

lemma length_put_entry [simp]: "length (put_entry i v b) = length b"
  by (simp add: put_entry_def)

lemma nibble_and [simp]:
  "((x AND 0xf0000000) OR (v AND 0x0fffffff)) AND 0x0fffffff = (v AND 0x0fffffff :: u32)"
proof -
  have "(0x0fffffff :: u32) = mask 28" and "(0xf0000000 :: u32) = NOT (mask 28)"
    by (simp_all add: mask_eq_exp_minus_1)
  then show ?thesis
    by (simp only:) (rule bit_word_eqI, auto simp: bit_simps)
qed

lemma get32_put_entry:
  fixes c d :: u32
  assumes "length b = 512"
  shows "get32 (put_entry (unat (c mod 128)) v b) (4 * unat (d mod 128)) AND 0x0fffffff
     = (if d mod 128 = c mod 128 then v AND 0x0fffffff
        else get32 b (4 * unat (d mod 128)) AND 0x0fffffff)"
proof (cases "d mod 128 = c mod 128")
  case True
  then show ?thesis
    using assms idx_bound [of c] by (simp add: put_entry_def byte_simps)
next
  case False
  then have "unat (d mod 128) \<noteq> unat (c mod 128)" by (simp add: word_unat_eq_iff)
  then have "4 * unat (d mod 128) + 3 < 4 * unat (c mod 128) \<or>
      4 * unat (c mod 128) + 3 < 4 * unat (d mod 128)" by linarith
  then show ?thesis
    using False by (simp only: put_entry_def get32_put32_other) simp
qed

lemma div_mod_eqI: "c div 128 = d div 128 \<Longrightarrow> c mod 128 = d mod 128 \<Longrightarrow> c = (d :: u32)"
  by (metis div_mult_mod_eq)

lemma entry_of_put:
  assumes "length (L (base + c div 128)) = 512"
  shows "entry_of (L(base + c div 128 := put_entry (unat (c mod 128)) v (L (base + c div 128)))) base
     = (entry_of L base)(c := v AND 0x0fffffff)"
proof (rule ext)
  fix d show "entry_of (L(base + c div 128 := put_entry (unat (c mod 128)) v (L (base + c div 128)))) base d
     = ((entry_of L base)(c := v AND 0x0fffffff)) d"
    using assms div_mod_eqI [of d c] get32_put_entry [of "L (base + c div 128)" c v d]
    by (auto simp: entry_of_def)
qed

lemma tab_at_cong:
  assumes "f_clust_cnt (fats s' p) = f_clust_cnt (fats s p)"
    and "\<And>c. c < f_clust_cnt (fats s p) \<Longrightarrow> lsec media p s' (base + c div 128) = lsec media p s (base + c div 128)"
  shows "tab_at media p s' base = tab_at media p s base"
  using assms by (auto simp: tab_at_def entry_of_def)

text \<open>
  \<open>tab_ok\<close>: what the functions on the table need. \<open>tab_step p s s'\<close>: only the table moved,
  and only inside its region of the disk.
\<close>

definition tab_ok :: "('d \<Rightarrow> u32 \<Rightarrow> bytes) \<Rightarrow> nat \<Rightarrow> 'd fs \<Rightarrow> bool" where
  "tab_ok media p s \<longleftrightarrow> cache_ok media p s \<and> geom (fats s p)"

definition tab_step :: "('d \<Rightarrow> u32 \<Rightarrow> bytes) \<Rightarrow> nat \<Rightarrow> 'd fs \<Rightarrow> 'd fs \<Rightarrow> bool" where
  "tab_step media p s s' \<longleftrightarrow> tab_ok media p s' \<and> cache_frame p s s' \<and>
     (\<forall>n. n \<notin> fat_region (fats s p) \<longrightarrow> lsec media p s' n = lsec media p s n)"

lemma geom_cong:
  "f_clust_cnt G = f_clust_cnt F \<Longrightarrow> f_info_sect G = f_info_sect F \<Longrightarrow>
   f_fat_sect0 G = f_fat_sect0 F \<Longrightarrow> f_fat_sect1 G = f_fat_sect1 F \<Longrightarrow>
   geom G = geom F \<and> fat_region G = fat_region F"
  by (simp add: geom_def fat_region_def)

lemma cache_frame_geom:
  "cache_frame p s s' \<Longrightarrow> geom (fats s' p) = geom (fats s p) \<and> fat_region (fats s' p) = fat_region (fats s p)"
  by (rule geom_cong) (simp_all add: cache_frameD)

lemma tab_frame_geom:
  "tab_frame p s s' \<Longrightarrow> geom (fats s' p) = geom (fats s p) \<and> fat_region (fats s' p) = fat_region (fats s p)"
  by (rule geom_cong) (simp_all add: tab_frameD)

lemma tab_step_refl [simp]: "tab_step media p s s = tab_ok media p s"
  by (simp add: tab_step_def)

lemma tab_step_trans [trans]:
  "tab_step media p s t \<Longrightarrow> tab_step media p t u \<Longrightarrow> tab_step media p s u"
  by (auto simp: tab_step_def cache_frame_geom elim: cache_frame_trans)

lemma cache_same_tab_step:
  "cache_same media p s s' \<Longrightarrow> geom (fats s p) \<Longrightarrow> tab_step media p s s'"
  by (auto simp: cache_same_def tab_step_def tab_ok_def cache_frame_geom)

lemma cache_same_tab:
  "cache_same media p s s' \<Longrightarrow> fat_tab media p s' = fat_tab media p s"
  by (auto simp: cache_same_def fat_tab_def cache_frameD intro!: tab_at_cong)

subsection \<open>\<open>get_fat\<close> and \<open>put_fat\<close>\<close>

lemma wp_get_fat:
  assumes ok: "tab_ok media p s" and c: "c < f_clust_cnt (fats s p)"
    and Q: "\<And>s' fl. cache_same media p s s' \<Longrightarrow>
      clust_flags (f_clust_cnt (fats s p)) (fat_tab media p s c) = Some fl \<Longrightarrow>
      Q (fat_tab media p s c, fl) s'"
    and E: "\<And>s'. cache_same media p s s' \<Longrightarrow> E FAT_ERR_IO s'"
    and B: "\<And>s'. cache_same media p s s' \<Longrightarrow>
      clust_flags (f_clust_cnt (fats s p)) (fat_tab media p s c) = None \<Longrightarrow> E FAT_ERR_BROKEN s'"
  shows "wp (get_fat p c) Q E s"
proof -
  let ?n = "f_fat_sect0 (fats s p) + c div 128"
  have cok: "cache_ok media p s" and nz: "?n \<noteq> 0"
    using ok c by (auto simp: tab_ok_def geom_def)
  have "wp (update_buf p ?n) (\<lambda>_. wp (seq (getF p) (\<lambda>F.
     let val = get32 (f_buf F) (4 * unat (c mod 128)) AND 0x0fffffff in
     case clust_flags (f_clust_cnt F) val of
       None \<Rightarrow> fail FAT_ERR_BROKEN | Some flags \<Rightarrow> ret (val, flags))) Q E) E s"
  proof (rule wp_update_buf [OF cok nz])
    fix t assume t: "cache_same media p s t" and buf: "f_buf (fats t p) = lsec media p s ?n"
    have "f_clust_cnt (fats t p) = f_clust_cnt (fats s p)"
      using t by (simp add: cache_same_def cache_frameD)
    moreover have "get32 (f_buf (fats t p)) (4 * unat (c mod 128)) AND 0x0fffffff = fat_tab media p s c"
      using c buf by (simp add: fat_tab_def tab_at_def entry_of_def)
    ultimately show "wp (seq (getF p) (\<lambda>F.
       let val = get32 (f_buf F) (4 * unat (c mod 128)) AND 0x0fffffff in
       case clust_flags (f_clust_cnt F) val of
         None \<Rightarrow> fail FAT_ERR_BROKEN | Some flags \<Rightarrow> ret (val, flags))) Q E t"
      using t by (auto simp: fs_ops_defs wp_simps Let_def split: option.split intro: Q B)
  qed (rule E)
  then show ?thesis by (simp add: get_fat_def fs_ops_defs wp_simps)
qed

lemma tab_at_put:
  assumes "lsec media p s' = (lsec media p s)(base + c div 128 :=
      put_entry (unat (c mod 128)) v (lsec media p s (base + c div 128)))"
    and "cache_ok media p s" and "f_clust_cnt (fats s' p) = f_clust_cnt (fats s p)"
    and "c < f_clust_cnt (fats s p)"
  shows "tab_at media p s' base = (tab_at media p s base)(c := v AND 0x0fffffff)"
  using entry_of_put [of "lsec media p s" base c v] cache_ok_lsec_length [OF assms(2)] assms(4)
  by (auto simp: tab_at_def assms(1,3) fun_eq_iff)

lemma wp_put_fat2:
  assumes ok: "cache_ok media p s" and nz: "base + c div 128 \<noteq> 0"
    and Q: "\<And>s'. cache_ok media p s' \<Longrightarrow> cache_frame p s s' \<Longrightarrow>
      lsec media p s' = (lsec media p s)(base + c div 128 :=
        put_entry (unat (c mod 128)) v (lsec media p s (base + c div 128))) \<Longrightarrow> Q () s'"
    and E: "\<And>s'. cache_same media p s s' \<Longrightarrow> E FAT_ERR_IO s'"
  shows "wp (put_fat2 p base c v) Q E s"
  unfolding put_fat2_def
  by (rule wp_update_store [OF ok nz]) (use cache_ok_lsec_length [OF ok] in \<open>simp_all add: Q E\<close>)

text \<open>
  A \<open>put_fat\<close> that returns has written both copies, changed nothing else of the disk, and
  the entry reads back as the value's low 28 bits.
\<close>

lemma wp_put_fat:
  assumes ok: "tab_ok media p s" and c: "c < f_clust_cnt (fats s p)"
    and Q: "\<And>s'. tab_step media p s s' \<Longrightarrow>
      fat_tab media p s' = (fat_tab media p s)(c := v AND 0x0fffffff) \<Longrightarrow>
      (f_fat_sect1 (fats s p) \<noteq> 0 \<Longrightarrow> tab_at media p s' (f_fat_sect1 (fats s p)) =
        (tab_at media p s (f_fat_sect1 (fats s p)))(c := v AND 0x0fffffff)) \<Longrightarrow> Q () s'"
    and E: "\<And>s'. tab_step media p s s' \<Longrightarrow> E FAT_ERR_IO s'"
  shows "wp (put_fat p c v) Q E s"
proof -
  let ?F = "fats s p"
  let ?b0 = "f_fat_sect0 ?F" and ?b1 = "f_fat_sect1 ?F"
  have cok: "cache_ok media p s" and g: "geom ?F" and nz: "?b0 + c div 128 \<noteq> 0"
    using ok c by (auto simp: tab_ok_def geom_def)
  have main: "wp (put_fat2 p ?b0 c v) Q E t"
    if t: "tab_step media p s t" and tab0: "fat_tab media p t = fat_tab media p s"
      and tab1: "?b1 \<noteq> 0 \<Longrightarrow> tab_at media p t ?b1 = (tab_at media p s ?b1)(c := v AND 0x0fffffff)" for t
  proof -
    have tok: "cache_ok media p t" and fr: "cache_frame p s t"
      using t by (auto simp: tab_step_def tab_ok_def)
    note fD [simp] = cache_frameD [OF fr]
    show ?thesis
    proof (rule wp_put_fat2 [OF tok nz])
      fix u assume u: "cache_ok media p u" "cache_frame p t u"
        and l: "lsec media p u = (lsec media p t)(?b0 + c div 128 :=
           put_entry (unat (c mod 128)) v (lsec media p t (?b0 + c div 128)))"
      note uD [simp] = cache_frameD [OF u(2)]
      have "tab_step media p s u"
        using t u l c g by (auto simp: tab_step_def tab_ok_def fat_region_def cache_frame_geom
            elim: cache_frame_trans)
      moreover have "tab_at media p u ?b0 = (tab_at media p t ?b0)(c := v AND 0x0fffffff)"
        by (rule tab_at_put [OF l tok]) (use c in simp_all)
      moreover have "tab_at media p u ?b1 = tab_at media p t ?b1" if "?b1 \<noteq> 0"
        by (rule tab_at_cong) (use that l g c in \<open>auto simp: geom_def\<close>)
      ultimately show "Q () u"
        using tab0 tab1 by (intro Q) (simp_all add: fat_tab_def)
    next
      fix u assume "cache_same media p t u"
      then have "tab_step media p t u"
        using g by (simp add: cache_same_tab_step cache_frame_geom [OF fr])
      with t show "E FAT_ERR_IO u"
        by (intro E) (rule tab_step_trans)
    qed
  qed
  have sep: "?b0 + c' div 128 \<noteq> ?b1 + c div 128" if "?b1 \<noteq> 0" "c' < f_clust_cnt ?F" for c'
    using that g c by (metis geom_def)
  show ?thesis
  proof (cases "?b1 = 0")
    case True
    then show ?thesis
      using main [of s] ok by (simp add: put_fat_def fs_ops_defs wp_simps)
  next
    case False
    then have nz1: "?b1 + c div 128 \<noteq> 0" using g c by (auto simp: geom_def)
    have "wp (put_fat2 p ?b1 c v) (\<lambda>_. wp (put_fat2 p ?b0 c v) Q E) E s"
    proof (rule wp_put_fat2 [OF cok nz1])
      fix t assume t: "cache_ok media p t" "cache_frame p s t"
        and l: "lsec media p t = (lsec media p s)(?b1 + c div 128 :=
           put_entry (unat (c mod 128)) v (lsec media p s (?b1 + c div 128)))"
      note tD [simp] = cache_frameD [OF t(2)]
      have "tab_step media p s t"
        using t l c g False by (auto simp: tab_step_def tab_ok_def fat_region_def cache_frame_geom)
      moreover have "tab_at media p t ?b0 = tab_at media p s ?b0"
        by (rule tab_at_cong) (use False l sep in simp_all)
      moreover have "tab_at media p t ?b1 = (tab_at media p s ?b1)(c := v AND 0x0fffffff)"
        by (rule tab_at_put [OF l cok]) (use c in simp_all)
      ultimately show "wp (put_fat2 p ?b0 c v) Q E t"
        by (intro main) (simp_all add: fat_tab_def)
    qed (use g in \<open>auto intro!: E cache_same_tab_step\<close>)
    then show ?thesis
      using False by (simp add: put_fat_def fs_ops_defs wp_simps)
  qed
qed

subsection \<open>Cluster chains\<close>

text \<open>
  \<open>chain T n cs\<close>: in the table \<open>T\<close> of \<open>n\<close> clusters, \<open>cs\<close> are the clusters of a chain in
  order; the last one holds an end mark, each other one the number of its successor.
\<close>

fun chain :: "(u32 \<Rightarrow> u32) \<Rightarrow> u32 \<Rightarrow> u32 list \<Rightarrow> bool" where
  "chain T n [] = False"
| "chain T n [c] = (c < n \<and> 0x0ffffff8 \<le> T c)"
| "chain T n (c # d # cs) = (c < n \<and> T c = d \<and> 2 \<le> d \<and> d < 0x0ffffff7 \<and> chain T n (d # cs))"

lemma chain_hd_less: "chain T n cs \<Longrightarrow> hd cs < n"
  by (cases "(T, n, cs)" rule: chain.cases) auto

lemma chain_nonempty: "chain T n cs \<Longrightarrow> cs \<noteq> []"
  by auto

lemma chain_Cons2_less: "chain T n (c # d # cs) \<Longrightarrow> d < n"
  using chain_hd_less [of T n "d # cs"] by simp

lemma chain_suffix: "chain T n (xs @ ys) \<Longrightarrow> ys \<noteq> [] \<Longrightarrow> chain T n ys"
proof (induction xs)
  case (Cons x xs)
  then show ?case by (cases "xs @ ys") auto
qed simp

lemma chain_less: "chain T n cs \<Longrightarrow> c \<in> set cs \<Longrightarrow> c < n"
proof -
  assume "chain T n cs" "c \<in> set cs"
  then obtain xs ys where "chain T n (xs @ (c # ys))" by (metis split_list)
  then show ?thesis using chain_suffix chain_hd_less by (metis list.distinct(1) list.sel(1))
qed

text \<open>A table has at most one chain from a cluster, so a chain never meets a cluster twice.\<close>

lemma chain_unique: "chain T n (c # xs) \<Longrightarrow> chain T n (c # ys) \<Longrightarrow> xs = ys"
proof (induction xs arbitrary: c ys)
  case Nil
  then show ?case by (cases ys) (auto simp: word_le_nat_alt word_less_nat_alt)
next
  case (Cons x xs)
  then show ?case
  proof (cases ys)
    case Nil
    with Cons.prems show ?thesis by (auto simp: word_le_nat_alt word_less_nat_alt)
  next
    case (Cons y zs)
    with Cons.prems Cons.IH [of x zs] show ?thesis by auto
  qed
qed

lemma chain_distinct: "chain T n cs \<Longrightarrow> distinct cs"
proof (induction cs)
  case (Cons c cs)
  have "c \<notin> set cs"
  proof
    assume "c \<in> set cs"
    then obtain xs ys where cs: "cs = xs @ (c # ys)" by (meson split_list)
    then have "chain T n ((c # xs) @ (c # ys))" using Cons.prems by simp
    then have "chain T n (c # ys)" by (rule chain_suffix) simp
    then have "cs = ys" using Cons.prems chain_unique by blast
    then show False using cs by simp
  qed
  moreover have "distinct cs"
    using Cons by (cases cs) auto
  ultimately show ?case by simp
qed simp

lemma chain_cong: "(\<And>c. c \<in> set cs \<Longrightarrow> T' c = T c) \<Longrightarrow> chain T' n cs = chain T n cs"
  by (induction T n cs rule: chain.induct) auto

lemma chain_entry_flags:
  "chain T n (c # cs) \<Longrightarrow> clust_flags n (T c) =
     Some (if cs = [] then CLUST_USED OR CLUST_LAST else CLUST_USED)"
  using chain_hd_less [of T n cs]
  by (cases cs) (auto simp: clust_flags_def word_le_nat_alt word_less_nat_alt)

subsection \<open>\<open>remove_chain\<close>\<close>

text \<open>
  \<open>tab_run p s s'\<close>: any sequence of operations on the table and the FsInfo sector; every
  other sector of the disk and every other object keeps its contents.
\<close>

definition tab_run :: "('d \<Rightarrow> u32 \<Rightarrow> bytes) \<Rightarrow> nat \<Rightarrow> 'd fs \<Rightarrow> 'd fs \<Rightarrow> bool" where
  "tab_run media p s s' \<longleftrightarrow> tab_ok media p s' \<and> tab_frame p s s' \<and>
     (\<forall>n. n \<notin> fat_region (fats s p) \<longrightarrow> n \<noteq> f_info_sect (fats s p) \<longrightarrow>
        lsec media p s' n = lsec media p s n)"

definition mirrored :: "('d \<Rightarrow> u32 \<Rightarrow> bytes) \<Rightarrow> nat \<Rightarrow> 'd fs \<Rightarrow> bool" where
  "mirrored media p s \<longleftrightarrow> (f_fat_sect1 (fats s p) \<noteq> 0 \<longrightarrow>
     tab_at media p s (f_fat_sect1 (fats s p)) = fat_tab media p s)"

lemma tab_run_refl [simp]: "tab_run media p s s = tab_ok media p s"
  by (simp add: tab_run_def)

lemma tab_run_trans [trans]: "tab_run media p s t \<Longrightarrow> tab_run media p t u \<Longrightarrow> tab_run media p s u"
  using tab_frame_geom [of p s t] tab_frameD [of p s t]
  by (auto simp: tab_run_def elim: tab_frame_trans)

lemma tab_step_run: "tab_step media p s s' \<Longrightarrow> tab_run media p s s'"
  by (auto simp: tab_step_def tab_run_def cache_frame_tab)

lemma cache_same_run: "cache_same media p s s' \<Longrightarrow> tab_ok media p s \<Longrightarrow> tab_run media p s s'"
  by (simp add: tab_ok_def tab_step_run cache_same_tab_step)

lemma tab_runD:
  assumes "tab_run media p s s'"
  shows "tab_ok media p s'" "f_clust_cnt (fats s' p) = f_clust_cnt (fats s p)"
    "f_fat_sect0 (fats s' p) = f_fat_sect0 (fats s p)"
    "f_fat_sect1 (fats s' p) = f_fat_sect1 (fats s p)"
    "f_info_sect (fats s' p) = f_info_sect (fats s p)"
    "fat_region (fats s' p) = fat_region (fats s p)"
  using assms tab_frameD [of p s s'] tab_frame_geom [of p s s'] by (simp_all add: tab_run_def)

lemma mirrored_cache_same:
  assumes "cache_same media p s s'"
  shows "mirrored media p s' = mirrored media p s"
proof -
  have "tab_at media p s' b = tab_at media p s b" for b
    by (rule tab_at_cong) (use assms in \<open>simp_all add: cache_same_def cache_frameD\<close>)
  then show ?thesis
    using assms cache_same_tab [OF assms] cache_frameD(7) [of p s s']
    by (simp add: mirrored_def cache_same_def)
qed

text \<open>\<open>put_fat\<close> once more, with the mirror and the counters.\<close>

lemma wp_put_fat_run:
  assumes ok: "tab_ok media p s" and c: "c < f_clust_cnt (fats s p)"
    and Q: "\<And>s'. tab_run media p s s' \<Longrightarrow> cache_frame p s s' \<Longrightarrow>
      fat_tab media p s' = (fat_tab media p s)(c := v AND 0x0fffffff) \<Longrightarrow>
      (mirrored media p s \<Longrightarrow> mirrored media p s') \<Longrightarrow> Q () s'"
    and E: "\<And>s'. tab_run media p s s' \<Longrightarrow> E FAT_ERR_IO s'"
  shows "wp (put_fat p c v) Q E s"
proof (rule wp_put_fat [OF ok c])
  fix s' assume s': "tab_step media p s s'"
    and t0: "fat_tab media p s' = (fat_tab media p s)(c := v AND 0x0fffffff)"
    and t1: "f_fat_sect1 (fats s p) \<noteq> 0 \<Longrightarrow> tab_at media p s' (f_fat_sect1 (fats s p)) =
        (tab_at media p s (f_fat_sect1 (fats s p)))(c := v AND 0x0fffffff)"
  have fr: "cache_frame p s s'" using s' by (simp add: tab_step_def)
  show "Q () s'"
    using t0 t1 fr tab_step_run [OF s'] by (intro Q) (auto simp: mirrored_def cache_frameD)
qed (use E in \<open>simp add: tab_step_run\<close>)

text \<open>Changing a counter of the FsInfo sector in memory.\<close>

lemma tab_run_upd:
  assumes "tab_ok media p s"
    and "s' = s\<lparr>fats := (fats s)(p := F)\<rparr>"
    and "F = (fats s p)\<lparr>f_last_used := lu, f_free_cnt := fc\<rparr> \<or> F = (fats s p)\<lparr>f_free_cnt := fc\<rparr> \<or>
      (F = (fats s p)\<lparr>f_flags := fl\<rparr> \<and> bit fl 0 = bit (f_flags (fats s p)) 0)"
  shows "tab_run media p s s' \<and> fat_tab media p s' = fat_tab media p s \<and>
    mirrored media p s' = mirrored media p s"
proof -
  have fr: "tab_frame p s s'" using assms(2,3) tab_frame_upd by auto
  have l: "lsec media p s' = lsec media p s" and "cache_ok media p s'"
    using assms by (auto simp: tab_ok_def)
  then have "tab_ok media p s'"
    using assms(1) tab_frame_geom [OF fr] by (simp add: tab_ok_def)
  moreover have "tab_at media p s' b = tab_at media p s b" for b
    by (rule tab_at_cong) (simp_all add: l tab_frameD [OF fr])
  ultimately show ?thesis
    using fr l by (simp add: tab_run_def fat_tab_def mirrored_def tab_frameD [OF fr])
qed

lemma tab_run_free:
  assumes "tab_ok media p s"
  shows "tab_run media p s (s\<lparr>fats := (fats s)(p := (fats s p)\<lparr>f_free_cnt := fc\<rparr>)\<rparr>)"
    "fat_tab media p (s\<lparr>fats := (fats s)(p := (fats s p)\<lparr>f_free_cnt := fc\<rparr>)\<rparr>) = fat_tab media p s"
    "mirrored media p (s\<lparr>fats := (fats s)(p := (fats s p)\<lparr>f_free_cnt := fc\<rparr>)\<rparr>) = mirrored media p s"
  using tab_run_upd [OF assms refl, where F = "(fats s p)\<lparr>f_free_cnt := fc\<rparr>"] by auto

lemma tab_run_counters:
  assumes "tab_ok media p s"
  shows "tab_run media p s (s\<lparr>fats := (fats s)(p := (fats s p)\<lparr>f_last_used := lu, f_free_cnt := fc\<rparr>)\<rparr>)"
    "fat_tab media p (s\<lparr>fats := (fats s)(p := (fats s p)\<lparr>f_last_used := lu, f_free_cnt := fc\<rparr>)\<rparr>)
      = fat_tab media p s"
    "mirrored media p (s\<lparr>fats := (fats s)(p := (fats s p)\<lparr>f_last_used := lu, f_free_cnt := fc\<rparr>)\<rparr>)
      = mirrored media p s"
  using tab_run_upd [OF assms refl, where F = "(fats s p)\<lparr>f_last_used := lu, f_free_cnt := fc\<rparr>"]
  by auto

lemma tab_run_flags:
  assumes "tab_ok media p s" and "bit fl 0 = bit (f_flags (fats s p)) 0"
  shows "tab_run media p s (s\<lparr>fats := (fats s)(p := (fats s p)\<lparr>f_flags := fl\<rparr>)\<rparr>)"
    "fat_tab media p (s\<lparr>fats := (fats s)(p := (fats s p)\<lparr>f_flags := fl\<rparr>)\<rparr>) = fat_tab media p s"
    "mirrored media p (s\<lparr>fats := (fats s)(p := (fats s p)\<lparr>f_flags := fl\<rparr>)\<rparr>) = mirrored media p s"
  using tab_run_upd [OF assms(1) refl, where F = "(fats s p)\<lparr>f_flags := fl\<rparr>"] assms(2) by auto

text \<open>The final \<open>sync_fs\<close> of an operation on the table.\<close>

lemma wp_sync_run:
  assumes ok: "tab_ok media p s" and dirty: "bit (f_flags (fats s p)) 1"
    and Q: "\<And>s'. synced media p s' \<Longrightarrow> tab_run media p s s' \<Longrightarrow>
      fat_tab media p s' = fat_tab media p s \<Longrightarrow> mirrored media p s' = mirrored media p s \<Longrightarrow>
      f_last_used (fats s' p) = f_last_used (fats s p) \<Longrightarrow> f_free_cnt (fats s' p) = f_free_cnt (fats s p) \<Longrightarrow>
      lsec media p s' (f_info_sect (fats s p)) =
        info_put (fats s p) (lsec media p s (f_info_sect (fats s p))) \<Longrightarrow> Q () s'"
    and E: "\<And>s'. tab_run media p s s' \<Longrightarrow> E FAT_ERR_IO s'"
  shows "wp (sync_fs p) Q E s"
proof -
  have cok: "cache_ok media p s" and g: "geom (fats s p)" using ok by (auto simp: tab_ok_def)
  have nz: "f_info_sect (fats s p) \<noteq> 0" using g by (simp add: geom_def)
  have run: "tab_run media p s s'"
    if "cache_ok media p s'" "tab_frame p s s'"
      "\<And>m. m \<noteq> f_info_sect (fats s p) \<Longrightarrow> lsec media p s' m = lsec media p s m" for s'
    using that g tab_frame_geom [of p s s'] by (simp add: tab_run_def tab_ok_def)
  show ?thesis
  proof (rule wp_sync_fs [OF cok refl nz])
    fix s' assume a: "synced media p s'" "tab_frame p s s'"
        "f_last_used (fats s' p) = f_last_used (fats s p)" "f_free_cnt (fats s' p) = f_free_cnt (fats s p)"
      and l: "lsec media p s' = (if bit (f_flags (fats s p)) 1 then (lsec media p s)
        (f_info_sect (fats s p) := info_put (fats s p) (lsec media p s (f_info_sect (fats s p))))
        else lsec media p s)"
    have "tab_at media p s' b = tab_at media p s b"
      if "b = f_fat_sect0 (fats s p) \<or> b = f_fat_sect1 (fats s p) \<and> b \<noteq> 0" for b
      by (rule tab_at_cong) (use that g l dirty in \<open>auto simp: geom_def tab_frameD [OF a(2)]\<close>)
    then show "Q () s'"
      using a l dirty by (intro Q run)
        (auto simp: fat_tab_def mirrored_def synced_def tab_frameD [OF a(2)])
  qed (intro E run)
qed

text \<open>
  The loop of \<open>remove_chain\<close> after freeing the clusters \<open>dn\<close> of the chain \<open>dn @ rst\<close>.
\<close>

definition removed_inv ::
  "('d \<Rightarrow> u32 \<Rightarrow> bytes) \<Rightarrow> nat \<Rightarrow> 'd fs \<Rightarrow> u32 list \<Rightarrow> 'd fs \<Rightarrow> bool" where
  "removed_inv media p s0 dn s \<longleftrightarrow> tab_run media p s0 s \<and>
     bit (f_flags (fats s p)) 1 \<and> f_last_used (fats s p) = f_last_used (fats s0 p) \<and>
     f_free_cnt (fats s p) = f_free_cnt (fats s0 p) + of_nat (length dn) \<and>
     fat_tab media p s = (\<lambda>c. if c \<in> set dn then 0 else fat_tab media p s0 c) \<and>
     (mirrored media p s0 \<longrightarrow> mirrored media p s)"

lemma removed_inv_step:
  assumes I: "removed_inv media p s0 dn s" and ch: "chain (fat_tab media p s0) (f_clust_cnt (fats s0 p)) (dn @ c # rst)"
    and Q: "\<And>y s'. removed_inv media p s0 (dn @ [c]) s' \<Longrightarrow>
      y = (if rst = [] then Inr () else Inl (hd rst)) \<Longrightarrow> Q y s'"
    and E: "\<And>s'. tab_run media p s0 s' \<Longrightarrow> E FAT_ERR_IO s'"
  shows "wp (remove_chain_step p c) Q E s"
proof -
  have ok: "tab_ok media p s" and run: "tab_run media p s0 s"
    and cnt: "f_clust_cnt (fats s p) = f_clust_cnt (fats s0 p)"
    using I by (auto simp: removed_inv_def dest: tab_runD)
  have c: "c < f_clust_cnt (fats s p)" and notin: "c \<notin> set dn"
    using chain_less [OF ch, of c] chain_distinct [OF ch] cnt by auto
  have suf: "chain (fat_tab media p s0) (f_clust_cnt (fats s0 p)) (c # rst)"
    by (rule chain_suffix [OF ch]) simp
  have tabc: "fat_tab media p s c = fat_tab media p s0 c"
    using I notin by (simp add: removed_inv_def)
  have fl: "clust_flags (f_clust_cnt (fats s p)) (fat_tab media p s c) =
      Some (if rst = [] then CLUST_USED OR CLUST_LAST else CLUST_USED)"
    using chain_entry_flags [OF suf] tabc cnt by simp
  have nxt: "rst \<noteq> [] \<Longrightarrow> fat_tab media p s c = hd rst"
    using suf tabc by (cases rst) auto
  have IO: "E FAT_ERR_IO t" if "cache_same media p s t" for t
    using E tab_run_trans [OF run cache_same_run [OF that ok]] .
  show ?thesis
    unfolding remove_chain_step_def wp_seq
  proof (rule wp_get_fat [OF ok c])
    fix t f assume t: "cache_same media p s t"
      and f: "clust_flags (f_clust_cnt (fats s p)) (fat_tab media p s c) = Some f"
    have tok: "tab_ok media p t" and runt: "tab_run media p s0 t" and fr: "cache_frame p s t"
      using cache_same_run [OF t ok] tab_run_trans [OF run] t
      by (auto simp: cache_same_def dest: tab_runD)
    have "wp (put_fat p c 0) (\<lambda>_. wp (seq (setF p (\<lambda>F. F\<lparr>f_free_cnt := f_free_cnt F + 1\<rparr>)) (\<lambda>_.
        if f AND CLUST_LAST \<noteq> 0 then ret (Inr ()) else ret (Inl (fat_tab media p s c)))) Q E) E t"
    proof (rule wp_put_fat_run [OF tok])
      show "c < f_clust_cnt (fats t p)" using c fr by (simp add: cache_frameD)
      fix u assume u: "tab_run media p t u" "cache_frame p t u"
        "fat_tab media p u = (fat_tab media p t)(c := 0 AND 0x0fffffff)"
        and m: "mirrored media p t \<Longrightarrow> mirrored media p u"
      let ?v = "u\<lparr>fats := (fats u)(p := (fats u p)\<lparr>f_free_cnt := f_free_cnt (fats u p) + 1\<rparr>)\<rparr>"
      have "tab_ok media p u" using u(1) by (rule tab_runD)
      note v = tab_run_free [OF this, where fc = "f_free_cnt (fats u p) + 1"]
      have "tab_run media p s0 ?v"
        using runt u(1) v(1) by (blast intro: tab_run_trans)
      then have "removed_inv media p s0 (dn @ [c]) ?v"
        using I v u(3) m mirrored_cache_same [OF t] cache_same_tab [OF t]
          cache_frameD [OF cache_frame_trans [OF fr u(2)]]
        by (auto simp: removed_inv_def fun_eq_iff)
      then show "wp (seq (setF p (\<lambda>F. F\<lparr>f_free_cnt := f_free_cnt F + 1\<rparr>)) (\<lambda>_.
        if f AND CLUST_LAST \<noteq> 0 then ret (Inr ()) else ret (Inl (fat_tab media p s c)))) Q E u"
        using f fl nxt by (auto simp: fs_ops_defs wp_simps split: if_splits intro!: Q)
    qed (use E runt tab_run_trans in blast)
    then show "wp (case (fat_tab media p s c, f) of (nxt, flags) \<Rightarrow>
       if flags AND (CLUST_BAD OR CLUST_FREE) \<noteq> 0 then fail FAT_ERR_BROKEN
       else seq (put_fat p c 0) (\<lambda>_. seq (setF p (\<lambda>F. F\<lparr>f_free_cnt := f_free_cnt F + 1\<rparr>)) (\<lambda>_.
          if flags AND CLUST_LAST \<noteq> 0 then ret (Inr ()) else ret (Inl nxt)))) Q E t"
      using f fl by (auto simp: wp_seq split: if_splits)
  qed (use IO fl in auto)
qed

lemma wp_remove_chain_loop:
  assumes I: "removed_inv media p s0 dn s"
    and ch: "chain (fat_tab media p s0) (f_clust_cnt (fats s0 p)) (dn @ c # rst)"
    and Q: "\<And>s'. removed_inv media p s0 (dn @ c # rst) s' \<Longrightarrow> Q () s'"
    and E: "\<And>s'. tab_run media p s0 s' \<Longrightarrow> E FAT_ERR_IO s'"
  shows "wp (loop (remove_chain_step p) c) Q E s"
  using I ch Q
proof (induction rst arbitrary: dn c s)
  case Nil
  show ?case
    by (subst loop_unfold, subst wp_seq, rule removed_inv_step [OF Nil.prems(1,2)])
      (auto simp: wp_simps intro: E Nil.prems(3))
next
  case (Cons d rst)
  show ?case
  proof (subst loop_unfold, subst wp_seq, rule removed_inv_step [OF Cons.prems(1,2)])
    fix y :: "u32 + unit" and s'
    assume s': "removed_inv media p s0 (dn @ [c]) s'" and y: "y = (if d # rst = [] then Inr () else Inl (hd (d # rst)))"
    have "wp (loop (remove_chain_step p) d) Q E s'"
      using Cons.prems(2,3) by (intro Cons.IH [OF s']) simp_all
    then show "wp (case y of Inl x \<Rightarrow> loop (remove_chain_step p) x | Inr x \<Rightarrow> ret x) Q E s'"
      using y by simp
  qed (rule E)
qed

text \<open>
  \<open>remove_chain\<close> on the first cluster of a chain: it returns, and either all clusters of
  the chain are free, counted, and the change is on the disk, or a disk access failed.
\<close>

lemma wp_remove_chain:
  assumes ok: "tab_ok media p s" and ch: "chain (fat_tab media p s) (f_clust_cnt (fats s p)) (c # rst)"
    and Q: "\<And>s'. synced media p s' \<Longrightarrow> tab_run media p s s' \<Longrightarrow>
      fat_tab media p s' = (\<lambda>x. if x \<in> set (c # rst) then 0 else fat_tab media p s x) \<Longrightarrow>
      (mirrored media p s \<Longrightarrow> mirrored media p s') \<Longrightarrow>
      f_last_used (fats s' p) = f_last_used (fats s p) \<Longrightarrow>
      f_free_cnt (fats s' p) = f_free_cnt (fats s p) + of_nat (length (c # rst)) \<Longrightarrow>
      get32 (media (dev s') (f_info_sect (fats s p))) 488 = f_free_cnt (fats s' p) \<Longrightarrow> Q () s'"
    and E: "\<And>s'. tab_run media p s s' \<Longrightarrow> E FAT_ERR_IO s'"
  shows "wp (remove_chain p c) Q E s"
proof -
  let ?t = "s\<lparr>fats := (fats s)(p := (fats s p)\<lparr>f_flags := f_flags (fats s p) OR 2\<rparr>)\<rparr>"
  have t: "tab_run media p s ?t" "fat_tab media p ?t = fat_tab media p s"
    "mirrored media p ?t = mirrored media p s"
    using tab_run_flags [OF ok, where fl = "f_flags (fats s p) OR 2"] by (simp_all add: flag_simps)
  have I: "removed_inv media p s [] ?t"
    using t by (simp add: removed_inv_def flag_simps)
  have "wp (loop (remove_chain_step p) c) (\<lambda>_. wp (sync_fs p) Q E) E ?t"
  proof (rule wp_remove_chain_loop [OF I])
    show "chain (fat_tab media p s) (f_clust_cnt (fats s p)) ([] @ c # rst)" using ch by simp
    fix u assume u: "removed_inv media p s ([] @ c # rst) u"
    then have run: "tab_run media p s u" by (simp add: removed_inv_def)
    show "wp (sync_fs p) Q E u"
    proof (rule wp_sync_run)
      show "tab_ok media p u" using run by (rule tab_runD)
      show "bit (f_flags (fats u p)) 1" using u by (simp add: removed_inv_def)
      fix v assume v: "synced media p v" "tab_run media p u v" "fat_tab media p v = fat_tab media p u"
        "mirrored media p v = mirrored media p u"
        "f_last_used (fats v p) = f_last_used (fats u p)" "f_free_cnt (fats v p) = f_free_cnt (fats u p)"
        and l: "lsec media p v (f_info_sect (fats u p)) =
          info_put (fats u p) (lsec media p u (f_info_sect (fats u p)))"
      have "length (lsec media p u (f_info_sect (fats u p))) = 512"
        using run cache_ok_lsec_length tab_runD(1) by (metis tab_ok_def)
      then have "get32 (media (dev v) (f_info_sect (fats s p))) 488 = f_free_cnt (fats v p)"
        using v(1,6) l tab_runD(5) [OF run] by (simp add: synced_def info_put_def byte_simps)
      then show "Q () v"
        using v u tab_run_trans [OF run v(2)] by (intro Q) (simp_all add: removed_inv_def)
    qed (use E run tab_run_trans in blast)
  qed (rule E)
  then show ?thesis
    by (simp add: remove_chain_def fs_ops_defs wp_simps)
qed

subsection \<open>\<open>stretch_chain\<close>: the search for a free cluster\<close>

text \<open>
  The search starts behind \<open>last_used\<close>, wraps round at the end of the table and gives up
  on arrival at \<open>last_used\<close>. \<open>passed l c x\<close>: on its way from \<open>l\<close> to \<open>c\<close> it has looked at \<open>x\<close>;
  \<open>to_go\<close> is the number of clusters before it is back.
\<close>

definition passed :: "u32 \<Rightarrow> u32 \<Rightarrow> u32 \<Rightarrow> bool" where
  "passed l c x \<longleftrightarrow> (if l \<le> c then l < x \<and> x \<le> c else l < x \<or> x \<le> c)"

definition to_go :: "u32 \<Rightarrow> u32 \<Rightarrow> u32 \<Rightarrow> nat" where
  "to_go n l c = (if l \<le> c then unat n - unat c + unat l else unat l - unat c)"

lemma next_clust_flags [simp]: "next_clust (F\<lparr>f_flags := fl\<rparr>) c = next_clust F c"
  by (simp add: next_clust_def)

lemma next_clust_cases:
  assumes "2 \<le> c" "c < f_clust_cnt F"
  obtains "unat c + 1 = unat (f_clust_cnt F)" "next_clust F c = 2"
  | "unat (next_clust F c) = unat c + 1" "unat c + 1 < unat (f_clust_cnt F)"
proof -
  have "unat (f_clust_cnt F) < 2 ^ 32" using unsigned_less [of "f_clust_cnt F"] by simp
  then have "unat (c + 1) = unat c + 1"
    using assms by (simp add: word_less_nat_alt unat_word_ariths)
  moreover have "unat c + 1 = unat (f_clust_cnt F) \<or> unat c + 1 < unat (f_clust_cnt F)"
    using assms by (auto simp: word_less_nat_alt)
  ultimately show ?thesis
    using assms that by (auto simp: next_clust_def word_le_nat_alt word_less_nat_alt)
qed

lemma next_clust_range: "2 \<le> c \<Longrightarrow> c < f_clust_cnt F \<Longrightarrow> 2 \<le> next_clust F c \<and> next_clust F c < f_clust_cnt F"
  by (rule next_clust_cases [of c F]) (auto simp: word_le_nat_alt word_less_nat_alt)

lemma to_go_next:
  assumes "2 \<le> c" "c < f_clust_cnt F" "2 \<le> l" "l < f_clust_cnt F" "next_clust F c \<noteq> l"
  shows "to_go (f_clust_cnt F) l (next_clust F c) < to_go (f_clust_cnt F) l c"
  by (rule next_clust_cases [OF assms(1,2)])
    (use assms in \<open>auto simp: to_go_def word_le_nat_alt word_less_nat_alt word_unat_eq_iff\<close>)

lemma passed_next:
  assumes "2 \<le> c" "c < f_clust_cnt F" "2 \<le> l" "next_clust F c \<noteq> l" "2 \<le> x" "x < f_clust_cnt F"
    and "passed l (next_clust F c) x"
  shows "passed l c x \<or> x = next_clust F c"
  by (rule next_clust_cases [OF assms(1,2)])
    (use assms in \<open>auto simp: passed_def word_le_nat_alt word_less_nat_alt word_unat_eq_iff split: if_splits\<close>)

lemma passed_all:
  assumes "2 \<le> c" "c < f_clust_cnt F" "2 \<le> l" "next_clust F c = l" "2 \<le> x" "x < f_clust_cnt F" "x \<noteq> l"
  shows "passed l c x"
  by (rule next_clust_cases [OF assms(1,2)])
    (use assms in \<open>auto simp: passed_def word_le_nat_alt word_less_nat_alt word_unat_eq_iff\<close>)

lemma clust_flags_free: "clust_flags n v = Some fl \<Longrightarrow> (fl AND CLUST_FREE \<noteq> 0) = (v = 0) \<and> fl \<noteq> 0"
  by (auto simp: clust_flags_def split: if_splits)

definition entries_ok :: "('d \<Rightarrow> u32 \<Rightarrow> bytes) \<Rightarrow> nat \<Rightarrow> 'd fs \<Rightarrow> bool" where
  "entries_ok media p s \<longleftrightarrow> (\<forall>c < f_clust_cnt (fats s p).
     clust_flags (f_clust_cnt (fats s p)) (fat_tab media p s c) \<noteq> None)"

definition scan_inv ::
  "('d \<Rightarrow> u32 \<Rightarrow> bytes) \<Rightarrow> nat \<Rightarrow> 'd fs \<Rightarrow> u32 \<Rightarrow> u8 \<Rightarrow> u32 \<Rightarrow> u8 \<Rightarrow> 'd fs \<Rightarrow> bool" where
  "scan_inv media p s l fl0 c fl t \<longleftrightarrow> cache_same media p s t \<and> 2 \<le> c \<and> c < f_clust_cnt (fats s p) \<and>
     (fl = 0 \<longrightarrow> fl0 = 0) \<and> (\<forall>x. 2 \<le> x \<longrightarrow> x < f_clust_cnt (fats s p) \<longrightarrow> passed l c x \<longrightarrow> fat_tab media p s x \<noteq> 0)"

lemma wp_scan:
  assumes ok: "tab_ok media p s" and eok: "entries_ok media p s"
    and l: "f_last_used (fats s p) = l" "2 \<le> l" "l < f_clust_cnt (fats s p)"
    and Q: "\<And>c s'. cache_same media p s s' \<Longrightarrow> 2 \<le> c \<Longrightarrow> c < f_clust_cnt (fats s p) \<Longrightarrow>
      c \<noteq> l \<Longrightarrow> fat_tab media p s c = 0 \<Longrightarrow> Q (Some c) s'"
    and Z: "\<And>s'. fl0 = 0 \<Longrightarrow> cache_same media p s s' \<Longrightarrow> Q None s'"
    and F: "\<And>s'. cache_same media p s s' \<Longrightarrow> (\<And>x. 2 \<le> x \<Longrightarrow> x < f_clust_cnt (fats s p) \<Longrightarrow> x \<noteq> l \<Longrightarrow>
      fat_tab media p s x \<noteq> 0) \<Longrightarrow> E FAT_ERR_FULL s'"
    and G: "\<And>f s'. cache_same media p s s' \<Longrightarrow> f \<noteq> 0 \<Longrightarrow> E (uint (f :: u8)) s'"
  shows "wp (loop (scan_step p) (l, fl0)) Q E s"
proof (rule wp_loop [where I = "\<lambda>y t. scan_inv media p s l fl0 (fst y) (snd y) t"
    and m = "\<lambda>y t. to_go (f_clust_cnt (fats s p)) l (fst y)"])
  show "scan_inv media p s l fl0 (fst (l, fl0)) (snd (l, fl0)) s"
    using ok l by (auto simp: tab_ok_def passed_def scan_inv_def)
next
  fix y t
  assume I: "scan_inv media p s l fl0 (fst y) (snd y) t"
  obtain c fl where y: "y = (c, fl)" by (cases y)
  let ?n = "f_clust_cnt (fats s p)" and ?c = "next_clust (fats s p) c"
  have t: "cache_same media p s t" and c: "2 \<le> c" "c < ?n" and fl: "fl = 0 \<longrightarrow> fl0 = 0"
    and vis: "\<And>x. 2 \<le> x \<Longrightarrow> x < ?n \<Longrightarrow> passed l c x \<Longrightarrow> fat_tab media p s x \<noteq> 0"
    using I y by (auto simp: scan_inv_def)
  have tok: "tab_ok media p t" using cache_same_run [OF t ok] by (rule tab_runD)
  have fr: "cache_frame p s t" using t by (simp add: cache_same_def)
  note [simp] = cache_frameD [OF fr] cache_same_tab [OF t]
  have nx: "next_clust (fats t p) c = ?c" by (simp add: next_clust_def)
  have c': "2 \<le> ?c" "?c < ?n" using next_clust_range [OF c] by auto
  define Post where "Post = (\<lambda>y' s'. case y' of
       Inl x' \<Rightarrow> scan_inv media p s l fl0 (fst x') (snd x') s' \<and> to_go ?n l (fst x') < to_go ?n l (fst y)
     | Inr v \<Rightarrow> Q v s')"
  have "wp (scan_step p (c, fl)) Post E t"
  proof (cases "?c = l")
    case True
    have "E FAT_ERR_FULL t"
      using passed_all [OF c l(2) True] vis by (intro F [OF t]) blast
    then show ?thesis
      using True l nx by (simp add: scan_step_def fs_ops_defs wp_simps Let_def)
  next
    case False
    let ?k = "\<lambda>r. case r of Inl err \<Rightarrow> if fl = 0 then ret (Inr None) else fail (uint fl)
        | Inr (nxt, f) \<Rightarrow> if f AND CLUST_FREE \<noteq> 0 then ret (Inr (Some (next_clust (fats t p) c)))
            else ret (Inl (next_clust (fats t p) c, f))"
    have bad: "wp (?k (Inl e)) Post E u" if "cache_same media p t u" for e u
      using Z G fl cache_same_trans [OF t that] by (auto simp: wp_simps Post_def)
    have "wp (get_fat p ?c) (\<lambda>x. wp (?k (Inr x)) Post E) (\<lambda>e. wp (?k (Inl e)) Post E) t"
    proof (rule wp_get_fat [OF tok])
      show "?c < f_clust_cnt (fats t p)" using c' by simp
      fix u f assume u: "cache_same media p t u"
        and f: "clust_flags (f_clust_cnt (fats t p)) (fat_tab media p t ?c) = Some f"
      have su: "cache_same media p s u" by (rule cache_same_trans [OF t u])
      note cf = clust_flags_free [OF f]
      show "wp (?k (Inr (fat_tab media p t ?c, f))) Post E u"
      proof (cases "fat_tab media p s ?c = 0")
        case True
        then show ?thesis using cf c' su Q False by (simp add: wp_simps Post_def nx)
      next
        case free: False
        have "\<forall>x. 2 \<le> x \<longrightarrow> x < ?n \<longrightarrow> passed l ?c x \<longrightarrow> fat_tab media p s x \<noteq> 0"
          using passed_next [OF c l(2) False] vis free by blast
        then show ?thesis
          using cf c' su free to_go_next [OF c l(2,3) False]
          by (simp add: wp_simps Post_def scan_inv_def y nx)
      qed
    qed (rule bad, assumption)+
    then show ?thesis
      using False l by (simp add: scan_step_def fs_ops_defs wp_simps Let_def nx split del: if_split)
  qed
  then show "wp (scan_step p y) (\<lambda>y' s'. case y' of
       Inl x' \<Rightarrow> scan_inv media p s l fl0 (fst x') (snd x') s' \<and> to_go ?n l (fst x') < to_go ?n l (fst y)
     | Inr v \<Rightarrow> Q v s') E t"
    by (simp add: y Post_def)
qed

subsection \<open>\<open>stretch_chain\<close>: linking the cluster\<close>

text \<open>The table after cluster \<open>c\<close> has become the end of the chain that ended in \<open>prev\<close>.\<close>

definition linked :: "(u32 \<Rightarrow> u32) \<Rightarrow> u32 \<Rightarrow> u32 \<Rightarrow> u32 \<Rightarrow> u32" where
  "linked T prev c = (if prev = 0 then T(c := 0x0fffffff) else (T(c := 0x0fffffff))(prev := c))"

lemma and_mask_id: "c < n \<Longrightarrow> n \<le> 0x0ffffff7 \<Longrightarrow> c AND 0x0fffffff = (c :: u32)"
proof -
  assume "c < n" "n \<le> 0x0ffffff7"
  then have "unat c < 2 ^ 28" by (simp add: word_le_nat_alt word_less_nat_alt)
  then have "unat (take_bit 28 c) = unat c"
    by (simp add: unsigned_take_bit_eq take_bit_nat_eq_self)
  then have "c AND mask 28 = c" by (simp add: take_bit_eq_mask word_unat_eq_iff)
  then show ?thesis by (simp add: mask_eq_exp_minus_1)
qed

text \<open>\<open>dirty_run s s'\<close>: a run of the table functions that keeps the FsInfo mark and counters.\<close>

definition dirty_run :: "('d \<Rightarrow> u32 \<Rightarrow> bytes) \<Rightarrow> nat \<Rightarrow> 'd fs \<Rightarrow> 'd fs \<Rightarrow> bool" where
  "dirty_run media p s s' \<longleftrightarrow> tab_run media p s s' \<and> bit (f_flags (fats s' p)) 1 \<and>
     f_last_used (fats s' p) = f_last_used (fats s p) \<and>
     f_free_cnt (fats s' p) = f_free_cnt (fats s p) \<and>
     (mirrored media p s \<longrightarrow> mirrored media p s')"

lemma dirty_run_put:
  assumes "dirty_run media p s t" and "tab_run media p t u" and "cache_frame p t u"
    and "mirrored media p t \<Longrightarrow> mirrored media p u"
  shows "dirty_run media p s u"
  using assms tab_run_trans [of media p s t u] by (auto simp: dirty_run_def cache_frameD)

lemma wp_link_clust:
  assumes run: "dirty_run media p s t" and tab: "fat_tab media p t = fat_tab media p s"
    and c: "2 \<le> c" "c < f_clust_cnt (fats s p)" and prev: "prev < f_clust_cnt (fats s p)"
    and Q: "\<And>s'. synced media p s' \<Longrightarrow> tab_run media p s s' \<Longrightarrow>
      fat_tab media p s' = linked (fat_tab media p s) prev c \<Longrightarrow>
      (mirrored media p s \<Longrightarrow> mirrored media p s') \<Longrightarrow> f_last_used (fats s' p) = c \<Longrightarrow>
      f_free_cnt (fats s' p) = f_free_cnt (fats s p) - 1 \<Longrightarrow> Q c s'"
    and E: "\<And>s'. tab_run media p s s' \<Longrightarrow> E FAT_ERR_IO s'"
  shows "wp (link_clust p prev c) Q E t"
proof -
  let ?n = "f_clust_cnt (fats s p)"
  have tok: "tab_ok media p t" and nt: "f_clust_cnt (fats t p) = ?n" and rt: "tab_run media p s t"
    using run by (auto simp: dirty_run_def dest: tab_runD)
  have small: "x < ?n \<Longrightarrow> x AND 0x0fffffff = x" for x
    using tok nt and_mask_id [of x ?n] by (simp add: tab_ok_def geom_def)
  have fin: "wp (seq (setF p (\<lambda>F. F\<lparr>f_last_used := c, f_free_cnt := f_free_cnt F - 1\<rparr>)) (\<lambda>_.
       seq (sync_fs p) (\<lambda>_. ret c))) Q E v"
    if v: "dirty_run media p s v" and tv: "fat_tab media p v = linked (fat_tab media p s) prev c" for v
  proof -
    let ?w = "v\<lparr>fats := (fats v)(p := (fats v p)\<lparr>f_last_used := c, f_free_cnt := f_free_cnt (fats v p) - 1\<rparr>)\<rparr>"
    have rv: "tab_run media p s v" and vok: "tab_ok media p v"
      using v by (auto simp: dirty_run_def dest: tab_runD)
    note w = tab_run_counters [OF vok, where lu = c and fc = "f_free_cnt (fats v p) - 1"]
    have rw: "tab_run media p s ?w" using rv w(1) by (rule tab_run_trans)
    have "wp (sync_fs p) (\<lambda>_. Q c) E ?w"
    proof (rule wp_sync_run)
      show "tab_ok media p ?w" using rw by (rule tab_runD)
      show "bit (f_flags (fats ?w p)) 1" using v by (simp add: dirty_run_def)
      fix s' assume s': "synced media p s'" "tab_run media p ?w s'" "fat_tab media p s' = fat_tab media p ?w"
        "mirrored media p s' = mirrored media p ?w" "f_last_used (fats s' p) = f_last_used (fats ?w p)"
        "f_free_cnt (fats s' p) = f_free_cnt (fats ?w p)"
      show "Q c s'"
        using s' v w tv tab_run_trans [OF rw s'(2)] by (intro Q) (simp_all add: dirty_run_def)
    qed (use tab_run_trans [OF rw] in \<open>blast intro: E\<close>)
    then show ?thesis by (simp add: fs_ops_defs wp_simps)
  qed
  show ?thesis
    unfolding link_clust_def wp_seq [of "put_fat p c _"]
  proof (rule wp_put_fat_run [OF tok])
    fix u assume u: "tab_run media p t u" "cache_frame p t u"
      and tu: "fat_tab media p u = (fat_tab media p t)(c := 0x0fffffff AND 0x0fffffff)"
      and mu: "mirrored media p t \<Longrightarrow> mirrored media p u"
    have ru: "dirty_run media p s u" by (rule dirty_run_put [OF run u mu])
    then have uok: "tab_ok media p u" and ru': "tab_run media p s u"
      by (auto simp: dirty_run_def dest: tab_runD)
    show "wp (seq (if prev \<noteq> 0 then put_fat p prev c else ret ()) (\<lambda>_.
       seq (setF p (\<lambda>F. F\<lparr>f_last_used := c, f_free_cnt := f_free_cnt F - 1\<rparr>)) (\<lambda>_.
       seq (sync_fs p) (\<lambda>_. ret c)))) Q E u"
    proof (cases "prev = 0")
      case True
      then show ?thesis
        using fin [OF ru] tu tab by (simp add: linked_def wp_seq [of "ret ()"] wp_ret)
    next
      case False
      have "wp (put_fat p prev c) (\<lambda>_. wp (seq (setF p (\<lambda>F. F\<lparr>f_last_used := c, f_free_cnt := f_free_cnt F - 1\<rparr>)) (\<lambda>_.
        seq (sync_fs p) (\<lambda>_. ret c))) Q E) E u"
      proof (rule wp_put_fat_run [OF uok])
        show "prev < f_clust_cnt (fats u p)" using prev tab_runD(2) [OF ru'] by simp
      qed (use False tu tab small c fin dirty_run_put [OF ru] tab_run_trans [OF ru'] in
          \<open>auto simp: linked_def intro!: E fin\<close>)
      then show ?thesis using False by (simp add: wp_seq [of "put_fat p prev c"])
    qed
  qed (use c nt E tab_run_trans [OF rt] in auto)
qed

lemma dirty_run_same:
  "dirty_run media p s t \<Longrightarrow> cache_same media p t u \<Longrightarrow> dirty_run media p s u"
  using cache_same_run [of media p t u] mirrored_cache_same [of media p t u]
  by (auto simp: dirty_run_def cache_same_def cache_frameD dest: tab_runD intro: tab_run_trans)

text \<open>
  \<open>stretch_chain\<close>. It returns one of: a cluster that was free, now the end of the chain, with
  everything on the disk; \<open>FULL\<close>, when no cluster but possibly \<open>last_used\<close> is free; an I/O
  error; or, when the table cannot be read during the search, a stale flags byte in place
  of an error code, which reads as success where that byte is 0.
\<close>

lemma wp_stretch_chain:
  assumes ok: "tab_ok media p s" and eok: "entries_ok media p s"
    and l: "f_last_used (fats s p) = l" "2 \<le> l" "l < f_clust_cnt (fats s p)"
    and prev: "prev = 0 \<or> 2 \<le> prev \<and> prev < f_clust_cnt (fats s p)"
    and Q: "\<And>c s'. synced media p s' \<Longrightarrow> tab_run media p s s' \<Longrightarrow> 2 \<le> c \<Longrightarrow> c < f_clust_cnt (fats s p) \<Longrightarrow>
      (prev = 0 \<Longrightarrow> c \<noteq> l) \<Longrightarrow> fat_tab media p s c = 0 \<Longrightarrow> fat_tab media p s' = linked (fat_tab media p s) prev c \<Longrightarrow>
      (mirrored media p s \<Longrightarrow> mirrored media p s') \<Longrightarrow> f_last_used (fats s' p) = c \<Longrightarrow>
      f_free_cnt (fats s' p) = f_free_cnt (fats s p) - 1 \<Longrightarrow> Q c s'"
    and Z: "\<And>s'. prev = 0 \<Longrightarrow> junk8 s = 0 \<Longrightarrow> dirty_run media p s s' \<Longrightarrow>
      fat_tab media p s' = fat_tab media p s \<Longrightarrow> Q out s'"
    and F: "\<And>s'. dirty_run media p s s' \<Longrightarrow> fat_tab media p s' = fat_tab media p s \<Longrightarrow>
      (\<And>x. 2 \<le> x \<Longrightarrow> x < f_clust_cnt (fats s p) \<Longrightarrow> x \<noteq> l \<Longrightarrow> fat_tab media p s x \<noteq> 0) \<Longrightarrow>
      E FAT_ERR_FULL s'"
    and G: "\<And>f s'. (f :: u8) \<noteq> 0 \<Longrightarrow> dirty_run media p s s' \<Longrightarrow>
      fat_tab media p s' = fat_tab media p s \<Longrightarrow> E (uint f) s'"
    and E: "\<And>s'. tab_run media p s s' \<Longrightarrow> E FAT_ERR_IO s'"
  shows "wp (stretch_chain p prev out) Q E s"
proof -
  let ?n = "f_clust_cnt (fats s p)"
  let ?t = "s\<lparr>fats := (fats s)(p := (fats s p)\<lparr>f_flags := f_flags (fats s p) OR 2\<rparr>)\<rparr>"
  have t: "dirty_run media p s ?t" "fat_tab media p ?t = fat_tab media p s"
    using tab_run_flags [OF ok, where fl = "f_flags (fats s p) OR 2"]
    by (simp_all add: flag_simps dirty_run_def)
  let ?fin = "\<lambda>found. case found of None \<Rightarrow> ret out | Some clust \<Rightarrow> link_clust p prev clust"
  have link: "wp (?fin (Some c)) Q E u" if "cache_same media p ?t u" "2 \<le> c" "c < ?n" "prev = 0 \<longrightarrow> c \<noteq> l" "fat_tab media p s c = 0" for c u
    using that t prev ok cache_same_tab [OF that(1)]
    by (auto simp: tab_ok_def geom_def intro!: wp_link_clust [OF dirty_run_same [OF t(1) that(1)]] Q E
        intro: less_le_trans [of 0 2] simp: word_gt_0)
  have scan: "wp (loop (scan_step p) (l, fl0)) (\<lambda>found. wp (?fin found) Q E) E u"
    if u: "cache_same media p ?t u" and fl0: "fl0 = 0 \<Longrightarrow> prev = 0 \<and> junk8 s = 0" for u fl0
  proof -
    have ru: "dirty_run media p s u" by (rule dirty_run_same [OF t(1) u])
    then have rn: "f_clust_cnt (fats u p) = ?n" and uok: "tab_ok media p u" "f_last_used (fats u p) = l"
      using l by (auto simp: dirty_run_def dest: tab_runD)
    have tu: "fat_tab media p u = fat_tab media p s" using cache_same_tab [OF u] t by simp
    show ?thesis
    proof (rule wp_scan [OF uok(1) _ uok(2) l(2)])
      show "entries_ok media p u" using eok rn tu by (simp add: entries_ok_def)
      show "l < f_clust_cnt (fats u p)" using l rn by simp
    next
      fix c v assume v: "cache_same media p u v" "2 \<le> c" "c < f_clust_cnt (fats u p)" "c \<noteq> l" "fat_tab media p u c = 0"
      show "wp (?fin (Some c)) Q E v"
        using link [OF cache_same_trans [OF u v(1)]] v rn tu by simp
    next
      fix v assume "fl0 = 0" and v: "cache_same media p u v"
      then show "wp (?fin None) Q E v"
        using Z fl0 dirty_run_same [OF ru v] cache_same_tab [OF v] tu by (simp add: wp_ret)
    next
      fix v assume v: "cache_same media p u v" and full: "\<And>x. 2 \<le> x \<Longrightarrow> x < f_clust_cnt (fats u p) \<Longrightarrow> x \<noteq> l \<Longrightarrow> fat_tab media p u x \<noteq> 0"
      show "E FAT_ERR_FULL v"
        using dirty_run_same [OF ru v] cache_same_tab [OF v] tu full rn by (intro F) simp_all
    next
      fix f :: u8 and v assume v: "cache_same media p u v" and "f \<noteq> 0"
      then show "E (uint f) v"
        using dirty_run_same [OF ru v] cache_same_tab [OF v] tu by (intro G) simp_all
    qed
  qed
  have first: "wp (if prev \<noteq> 0 then seq (get_fat p (next_clust (fats ?t p) prev)) (\<lambda>(nxt, fl).
            ret (fl, if fl AND CLUST_FREE \<noteq> 0 then Some (next_clust (fats ?t p) prev) else None))
          else ret (junk8 s, None))
        (\<lambda>(flags, hit). wp (case hit of Some c \<Rightarrow> ret (Some c) | None \<Rightarrow> loop (scan_step p) (l, flags))
           (\<lambda>found. wp (?fin found) Q E) E) E ?t" (is "wp _ ?R E ?t")
  proof (cases "prev = 0")
    case True
    have "cache_same media p ?t ?t" using t(1) by (auto simp: dirty_run_def tab_ok_def dest: tab_runD)
    then show ?thesis using True scan [of ?t "junk8 s"] by (simp add: wp_ret)
  next
    case False
    let ?c = "next_clust (fats s p) prev"
    have c: "2 \<le> ?c" "?c < ?n" using next_clust_range [of prev "fats s p"] prev False by auto
    have tok: "tab_ok media p ?t" using t(1) by (auto simp: dirty_run_def dest: tab_runD)
    have "wp (get_fat p ?c) (\<lambda>(nxt, fl). ?R (fl, if fl AND CLUST_FREE \<noteq> 0 then Some ?c else None)) E ?t"
    proof (rule wp_get_fat [OF tok])
      fix u fl assume u: "cache_same media p ?t u"
        and fl: "clust_flags (f_clust_cnt (fats ?t p)) (fat_tab media p ?t ?c) = Some fl"
      show "(case (fat_tab media p ?t ?c, fl) of (nxt, fl) \<Rightarrow>
          ?R (fl, if fl AND CLUST_FREE \<noteq> 0 then Some ?c else None)) u"
        using clust_flags_free [OF fl] scan [OF u, of fl] link [OF u c] t(2) False by (auto simp: wp_ret)
    next
      fix u assume u: "cache_same media p ?t u"
      then show "E FAT_ERR_IO u"
        using dirty_run_same [OF t(1) u] by (intro E) (simp add: dirty_run_def)
    qed (use c eok t(2) in \<open>auto simp: entries_ok_def\<close>)
    then show ?thesis
      using False by (simp add: wp_simps case_prod_unfold cong del: option.case_cong_weak cong: if_cong)
  qed
  show ?thesis
    using first l
    by (simp add: stretch_chain_def fs_ops_defs wp_simps case_prod_unfold cong del: option.case_cong_weak cong: if_cong)
qed

subsection \<open>\<open>clust_clear\<close>\<close>

text \<open>
  Between the calls of \<open>sync_buf\<close> the buffer holds zeros, whatever sector it stands for.
  \<open>cleared media p s base i t\<close>: the device holds the flat disk of \<open>s\<close> with the first \<open>i\<close>
  sectors from \<open>base\<close> on zeroed.
\<close>

definition zeroed :: "(u32 \<Rightarrow> bytes) \<Rightarrow> u32 \<Rightarrow> nat \<Rightarrow> u32 \<Rightarrow> bytes" where
  "zeroed L base i = (\<lambda>n. if \<exists>k < i. n = base + of_nat k then replicate 512 0 else L n)"

definition cleared ::
  "('d \<Rightarrow> u32 \<Rightarrow> bytes) \<Rightarrow> nat \<Rightarrow> 'd fs \<Rightarrow> u32 \<Rightarrow> nat \<Rightarrow> 'd fs \<Rightarrow> bool" where
  "cleared media p s base i t \<longleftrightarrow> cache_frame p s t \<and> disk_ok (f_ops (fats t p)) media \<and>
     f_buf (fats t p) = replicate 512 0 \<and> \<not> bit (f_flags (fats t p)) 0 \<and>
     media (dev t) = zeroed (lsec media p s) base i \<and> (0 < i \<longrightarrow> cache_ok media p t)"

lemma zeroed_0 [simp]: "zeroed L base 0 = L"
  by (simp add: zeroed_def)

lemma zeroed_Suc: "zeroed L base (Suc i) = (zeroed L base i)(base + of_nat i := replicate 512 0)"
  by (auto simp: zeroed_def fun_eq_iff less_Suc_eq)

lemma cleared_step:
  assumes t: "cleared media p s base i t" and nz: "base + of_nat i \<noteq> 0"
    and i: "i < 2 ^ unat (f_clust_shift (fats s p))"
    and Q: "\<And>s'. cleared media p s base (Suc i) s' \<Longrightarrow> Q (Inl (i + 1, base + of_nat (Suc i))) s'"
    and E: "\<And>s'. cache_ok media p s' \<Longrightarrow> cache_frame p s s' \<Longrightarrow>
      lsec media p s' = zeroed (lsec media p s) base (Suc i) \<Longrightarrow> E FAT_ERR_IO s'"
  shows "wp (clust_clear_step p (i, base + of_nat i)) Q E t"
proof -
  let ?F = "fats t p"
  let ?u = "t\<lparr>fats := (fats t)(p := ?F\<lparr>f_flags := f_flags ?F OR 1, f_sect := base + of_nat i\<rparr>)\<rparr>"
  have fr: "cache_frame p s t" using t by (simp add: cleared_def)
  have "?F\<lparr>f_flags := f_flags ?F OR 1, f_sect := base + of_nat i\<rparr> =
      ?F\<lparr>f_buf := f_buf ?F, f_sect := base + of_nat i, f_flags := f_flags ?F OR 1\<rparr>"
    by (cases ?F) simp
  then have "cache_frame p t (t\<lparr>dev := dev t, fats := (fats t)(p :=
      ?F\<lparr>f_flags := f_flags ?F OR 1, f_sect := base + of_nat i\<rparr>)\<rparr>)"
    by (simp only:) (rule cache_frameI, simp add: flag_simps)
  then have "cache_frame p t ?u" by simp
  with fr have fu: "cache_frame p s ?u" by (rule cache_frame_trans)
  have uok: "cache_ok media p ?u"
    using t nz by (simp add: cleared_def cache_ok_def flag_simps)
  have lu: "lsec media p ?u = zeroed (lsec media p s) base (Suc i)"
    using t nz by (auto simp: cleared_def lsec_def zeroed_Suc fun_eq_iff)
  have "wp (sync_buf p) (\<lambda>_. Q (Inl (i + 1, base + of_nat i + 1))) E ?u"
  proof (rule wp_sync_buf [OF uok])
    fix v assume v: "cache_same media p ?u v" "\<not> bit (f_flags (fats v p)) 0"
      and buf: "f_buf (fats v p) = f_buf (fats ?u p)"
    then have vok: "cache_ok media p v" and fv: "cache_frame p s v"
      using fu by (auto simp: cache_same_def intro: cache_frame_trans)
    have "media (dev v) = zeroed (lsec media p s) base (Suc i)"
      using clean_media [OF vok v(2)] v(1) lu by (simp add: cache_same_def)
    then have "cleared media p s base (Suc i) v"
      using v vok fv buf t by (simp add: cleared_def cache_ok_def)
    from Q [OF this] show "Q (Inl (i + 1, base + of_nat i + 1)) v" by (simp add: add_ac)
  qed (use fu lu in \<open>auto simp: cache_same_def intro!: E intro: cache_frame_trans\<close>)
  then show ?thesis
    using i by (simp add: clust_clear_step_def fs_ops_defs wp_simps cache_frameD [OF fr])
qed

lemma wp_clust_clear:
  assumes ok: "cache_ok media p s"
    and base: "clust_to_sect (fats s p) c = base" and N: "2 ^ unat (f_clust_shift (fats s p)) = N"
    and nz: "\<And>k. k < N \<Longrightarrow> base + of_nat k \<noteq> 0"
    and Q: "\<And>s'. cache_ok media p s' \<Longrightarrow> cache_frame p s s' \<Longrightarrow> \<not> bit (f_flags (fats s' p)) 0 \<Longrightarrow>
      lsec media p s' = zeroed (lsec media p s) base N \<Longrightarrow> Q () s'"
    and E: "\<And>s' i. cache_ok media p s' \<Longrightarrow> cache_frame p s s' \<Longrightarrow> i \<le> N \<Longrightarrow>
      lsec media p s' = zeroed (lsec media p s) base i \<Longrightarrow> E FAT_ERR_IO s'"
  shows "wp (clust_clear p c) Q E s"
  unfolding clust_clear_def wp_seq [of "sync_buf p"]
proof (rule wp_sync_buf [OF ok])
  fix t assume t: "cache_same media p s t" and clean: "\<not> bit (f_flags (fats t p)) 0"
  then have tok: "cache_ok media p t" and fr: "cache_frame p s t" and lt: "lsec media p t = lsec media p s"
    by (auto simp: cache_same_def)
  let ?u = "t\<lparr>fats := (fats t)(p := (fats t p)\<lparr>f_buf := replicate 512 0\<rparr>)\<rparr>"
  have "cache_frame p t (t\<lparr>dev := dev t, fats := (fats t)(p := (fats t p)\<lparr>f_buf := replicate 512 0\<rparr>)\<rparr>)"
    by (rule cache_frame_dev)
  with fr have fu: "cache_frame p s ?u" by (auto intro: cache_frame_trans)
  have u: "cleared media p s base 0 ?u"
    using tok clean clean_media [OF tok clean] lt fu by (simp add: cleared_def cache_ok_def)
  have pos: "0 < N" using N by auto
  have "wp (loop (clust_clear_step p) (0, base)) Q E ?u"
  proof (rule wp_loop [where I = "\<lambda>(i, sect) v. i \<le> N \<and> sect = base + of_nat i \<and> cleared media p s base i v"
        and m = "\<lambda>(i, sect) v. N - i"])
    show "(case (0, base) of (i, sect) \<Rightarrow> \<lambda>v. i \<le> N \<and> sect = base + of_nat i \<and> cleared media p s base i v) ?u"
      using u by simp
  next
    fix x v
    assume I: "(case x of (i, sect) \<Rightarrow> \<lambda>v. i \<le> N \<and> sect = base + of_nat i \<and> cleared media p s base i v) v"
    obtain i sect where x: "x = (i, sect)" by (cases x)
    have v: "cleared media p s base i v" and i: "i \<le> N" and sect: "sect = base + of_nat i" using I x by auto
    show "wp (clust_clear_step p x) (\<lambda>y s'. case y of Inl x' \<Rightarrow>
        (case x' of (i, sect) \<Rightarrow> \<lambda>v. i \<le> N \<and> sect = base + of_nat i \<and> cleared media p s base i v) s' \<and>
          (case x' of (i, sect) \<Rightarrow> \<lambda>v. N - i) s' < (case x of (i, sect) \<Rightarrow> \<lambda>v. N - i) v
        | Inr v \<Rightarrow> Q v s') E v"
    proof (cases "i < N")
      case True
      show ?thesis unfolding x sect
        by (rule cleared_step [OF v nz [OF True]]) (use True N in \<open>auto intro: E [of _ "Suc i"]\<close>)
    next
      case False
      then have "i = N" using i by simp
      have "f_clust_shift (fats v p) = f_clust_shift (fats s p)"
        using v cache_frameD(12) [of p s v] by (simp add: cleared_def)
      then show ?thesis
        using False v pos \<open>i = N\<close> x N clean_media [of media p v]
        by (auto simp: clust_clear_step_def fs_ops_defs wp_simps cleared_def intro!: Q)
    qed
  qed
  then show "wp (seq (getF p) (\<lambda>F. seq (setF p (\<lambda>F. F\<lparr>f_buf := replicate 512 0\<rparr>)) (\<lambda>_.
     loop (clust_clear_step p) (0, clust_to_sect F c)))) Q E t"
    using base cache_frameD [OF fr] by (simp add: fs_ops_defs wp_simps clust_to_sect_def)
qed (use E [of _ 0] in \<open>auto simp: cache_same_def\<close>)

end
