(* ===== verification/Fat_Dir.thy ===== *)
theory Fat_Dir
  imports Fat_Table
begin

unbundle bit_operations_syntax

section \<open>FAT32: directories and paths\<close>

text \<open>
  The functions on a \<open>Dir*\<close> work on the object \<open>cdir\<close> of the state. A pointer that
  \<open>dir_ptr\<close> makes into the buffered sector is the 32-byte slice there (\<open>dir_ent\<close>); a store
  through it is \<open>put_ent\<close>.
\<close>

subsection \<open>Walking over entries\<close>

definition dir_at_clust :: "u32 \<Rightarrow> ('d fs, unit) cm" where
  "dir_at_clust clust =
     seq getD (\<lambda>d.
     seq (getF (d_fat d)) (\<lambda>F.
     setD (\<lambda>d. d\<lparr>d_clust := clust, d_sect := clust_to_sect F clust, d_idx := 0\<rparr>)))"

definition dir_enter :: "u32 \<Rightarrow> ('d fs, unit) cm" where
  "dir_enter clust =
     seq getD (\<lambda>d.
     seq (getF (d_fat d)) (\<lambda>F.
     let c = (if clust = 0 then f_root_clust F else clust) in
     seq (setD (\<lambda>d. d\<lparr>d_sclust := c\<rparr>)) (\<lambda>_.
     dir_at_clust c)))"

definition dir_next :: "('d fs, unit) cm" where
  "dir_next =
     seq (setD (\<lambda>d. d\<lparr>d_idx := d_idx d + 32\<rparr>)) (\<lambda>_.
     seq getD (\<lambda>d.
     if d_idx d < 512 then ret ()
     else
       seq (setD (\<lambda>d. d\<lparr>d_idx := 0, d_sect := d_sect d + 1\<rparr>)) (\<lambda>_.
       seq getD (\<lambda>d.
       seq (getF (d_fat d)) (\<lambda>F.
       if d_sect d AND f_clust_msk F \<noteq> 0 then ret ()
       else
         seq (get_fat (d_fat d) (d_clust d)) (\<lambda>(nxt, flags).
         if flags AND (CLUST_BAD OR CLUST_FREE) \<noteq> 0 then fail FAT_ERR_BROKEN
         else if flags AND CLUST_LAST \<noteq> 0 then fail FAT_ERR_EOF
         else dir_at_clust nxt))))))"

primrec dir_advance :: "nat \<Rightarrow> ('d fs, unit) cm" where
  "dir_advance 0 = ret ()"
| "dir_advance (Suc n) = seq dir_next (\<lambda>_. dir_advance n)"

definition dir_next_stretch :: "('d fs, unit) cm" where
  "dir_next_stretch =
     seq (catch dir_next) (\<lambda>r. case r of
       Inr _ \<Rightarrow> ret ()
     | Inl err \<Rightarrow>
         if err \<noteq> FAT_ERR_EOF then fail err
         else
           seq getD (\<lambda>d.
           seq (reads junk32) (\<lambda>next0.
           seq (stretch_chain (d_fat d) (d_clust d) next0) (\<lambda>nxt.
           seq (dir_at_clust nxt) (\<lambda>_.
           clust_clear (d_fat d) nxt)))))"

definition dir_ent :: "('d fs, bytes) cm" where
  "dir_ent =
     seq getD (\<lambda>d.
     seq (getF (d_fat d)) (\<lambda>F.
     if unat (d_idx d) + 32 \<le> 512 then ret (slice (f_buf F) (unat (d_idx d)) 32) else undef))"

definition put_ent :: "(bytes \<Rightarrow> bytes) \<Rightarrow> ('d fs, unit) cm" where
  "put_ent f =
     seq getD (\<lambda>d.
     if unat (d_idx d) + 32 \<le> 512 then
       store_buf (d_fat d) (\<lambda>b. splice b (unat (d_idx d)) (f (slice b (unat (d_idx d)) 32)))
     else undef)"

text \<open>\<open>update_buf(dir->fat, dir->sect)\<close> and then \<open>dir_ptr(dir)\<close>.\<close>

definition load_ent :: "('d fs, bytes) cm" where
  "load_ent =
     seq getD (\<lambda>d.
     seq (update_buf (d_fat d) (d_sect d)) (\<lambda>_.
     dir_ent))"

subsection \<open>Reading a long name\<close>

text \<open>
  One entry of a long name: its characters up to a zero or 0xff go to \<open>g_buf\<close>; 0xff is an
  error. Then the directory advances and the next entry is loaded. \<open>cnt\<close> entries are left.
\<close>

definition lfn_raw_chars :: "bytes \<Rightarrow> bytes" where
  "lfn_raw_chars lfn = map (\<lambda>i. lfn ! (g_lfn_indices ! i)) [0..<13]"

primrec parse_lfn_frags :: "nat \<Rightarrow> bytes \<Rightarrow> ('d fs, unit) cm" where
  "parse_lfn_frags 0 lfn = ret ()"
| "parse_lfn_frags (Suc cnt) lfn =
     seq (reads g_crc) (\<lambda>crc.
     if lfn_attr lfn \<noteq> FAT_ATTR_LFN \<or> lfn_crc lfn \<noteq> crc then fail FAT_ERR_BROKEN
     else
       let cs = lfn_raw_chars lfn; pre = takeWhile (\<lambda>c. c \<noteq> 0xff \<and> c \<noteq> 0) cs in
       seq (modify (\<lambda>s. s\<lparr>g_buf := splice (g_buf s) (13 * cnt) pre,
              g_len := g_len s + of_nat (length pre)\<rparr>)) (\<lambda>_.
       if length pre < 13 \<and> cs ! length pre = 0xff then fail FAT_ERR_BROKEN
       else
         seq dir_next (\<lambda>_.
         seq load_ent (\<lambda>lfn'.
         parse_lfn_frags cnt lfn'))))"

definition parse_lfn_name :: "('d fs, unit) cm" where
  "parse_lfn_name =
     seq load_ent (\<lambda>lfn.
     seq (modify (\<lambda>s. s\<lparr>g_crc := lfn_crc lfn, g_len := 0\<rparr>)) (\<lambda>_.
     if lfn_seq lfn AND LFN_HEAD_MSK = 0 then fail FAT_ERR_BROKEN
     else
       let cnt = unat (lfn_seq lfn AND LFN_SEQ_MSK) in
       if 20 < cnt then fail FAT_ERR_BROKEN
       else
         seq (parse_lfn_frags cnt lfn) (\<lambda>_.
         seq (reads g_len) (\<lambda>l.
         if l \<le> 255 then ret () else fail FAT_ERR_BROKEN))))"

subsection \<open>Searching a directory\<close>

text \<open>Whether the entry at the directory's position has the name. \<open>e\<close> is that entry; for a
  long name the position moves to the short entry behind it.\<close>

definition dir_match :: "bytes \<Rightarrow> nat \<Rightarrow> bytes \<Rightarrow> ('d fs, bool) cm" where
  "dir_match name len e =
     (if sfn_is_lfn e then
        seq parse_lfn_name (\<lambda>_.
        seq dir_ent (\<lambda>sfn.
        seq (reads g_crc) (\<lambda>crc.
        if sfn_is_free sfn \<or> sfn_is_lfn sfn \<or> crc \<noteq> get_crc (sfn_name sfn) then fail FAT_ERR_BROKEN
        else reads (\<lambda>s. unat (g_len s) = len \<and> take len (g_buf s) = take len name))))
      else ret (put_sfn_name name len = sfn_name e))"

definition dir_search_step ::
  "bytes \<Rightarrow> nat \<Rightarrow> Loc option \<Rightarrow> ('d fs, Loc option + Loc option) cm" where
  "dir_search_step name len loc =
     seq load_ent (\<lambda>e.
     if sfn_is_last e then fail FAT_ERR_EOF
     else if sfn_is_free e then seq dir_next (\<lambda>_. ret (Inl loc))
     else
       seq getD (\<lambda>d.
       let loc' = map_option (\<lambda>_. \<lparr>l_sect = d_sect d, l_idx = d_idx d\<rparr>) loc in
       seq (dir_match name len e) (\<lambda>hit.
       if hit then ret (Inr loc') else seq dir_next (\<lambda>_. ret (Inl loc')))))"

text \<open>\<open>loc\<close> is \<open>None\<close> for a null pointer, else what \<open>*loc\<close> holds.\<close>

definition dir_search :: "bytes \<Rightarrow> nat \<Rightarrow> Loc option \<Rightarrow> ('d fs, Loc option) cm" where
  "dir_search name len loc =
     seq getD (\<lambda>d.
     seq (dir_at_clust (d_sclust d)) (\<lambda>_.
     loop (dir_search_step name len) loc))"

definition dir_at_root :: "('d fs, bool) cm" where
  "dir_at_root =
     seq getD (\<lambda>d.
     seq (getF (d_fat d)) (\<lambda>F.
     ret (d_clust d = f_root_clust F \<and> d_sect d = clust_to_sect F (f_root_clust F) \<and> d_idx d = 0)))"

subsection \<open>Following a path\<close>

definition find_fat_volume_step :: "bytes \<Rightarrow> nat \<Rightarrow> nat \<Rightarrow> ('d fs, nat + nat) cm" where
  "find_fat_volume_step name len it =
     (if it = 0 then ret (Inr 0)
      else
        seq (getF it) (\<lambda>F.
        if len = unat (f_name_len F) \<and> take len name = take len (f_name F) then ret (Inr it)
        else ret (Inl (f_next F))))"

definition find_fat_volume :: "bytes \<Rightarrow> nat \<Rightarrow> ('d fs, nat) cm" where
  "find_fat_volume name len =
     seq (reads g_fat_list) (\<lambda>it. loop (find_fat_volume_step name len) it)"

text \<open>
  The result is the returned code with \<open>*path\<close> and \<open>*loc\<close>, which the callers use after an
  error too. The loop's variables are \<open>str\<close>, \<open>dir_clust\<close>, \<open>dir_enterable\<close> and \<open>*loc\<close>.
\<close>

definition follow_path_step ::
  "bytes \<times> u32 \<times> bool \<times> Loc option \<Rightarrow>
   ('d fs, (bytes \<times> u32 \<times> bool \<times> Loc option) + (err \<times> bytes \<times> Loc option)) cm" where
  "follow_path_step = (\<lambda>(str0, dir_clust, dir_enterable, loc).
     let str = skip_slashes str0; len = subpath_len str in
     if len = 0 then ret (Inr (FAT_ERR_NONE, str, loc))
     else if \<not> dir_enterable then ret (Inr (FAT_ERR_PATH, str, loc))
     else
       seq (dir_enter dir_clust) (\<lambda>_.
       seq (catch (dir_search str len loc)) (\<lambda>r. case r of
         Inl err \<Rightarrow> ret (Inr (err, str, loc))
       | Inr loc' \<Rightarrow>
           seq dir_ent (\<lambda>sfn.
           ret (Inl (drop len str, sfn_cluster sfn, sfn_attr sfn AND FAT_ATTR_DIR \<noteq> 0, loc'))))))"

definition follow_path :: "bytes \<Rightarrow> Loc option \<Rightarrow> ('d fs, err \<times> bytes \<times> Loc option) cm" where
  "follow_path path loc =
     (let str = drop 1 path; len = subpath_len str in
      if deref path \<noteq> SLASH then ret (FAT_ERR_PATH, path, loc)
      else if len = 0 then ret (FAT_ERR_PATH, path, loc)
      else
        seq (find_fat_volume str len) (\<lambda>p.
        seq (setD (\<lambda>d. d\<lparr>d_fat := p\<rparr>)) (\<lambda>_.
        if p = 0 then ret (FAT_ERR_PATH, path, loc)
        else
          seq (getF p) (\<lambda>F.
          seq (dir_enter (f_root_clust F)) (\<lambda>_.
          seq getD (\<lambda>d.
          loop follow_path_step (drop len str, d_clust d, True, loc)))))))"

subsection \<open>Removing and adding entries\<close>

definition remove_entries_step :: "u32 \<Rightarrow> u16 \<Rightarrow> unit \<Rightarrow> ('d fs, unit + unit) cm" where
  "remove_entries_step sect idx u =
     seq load_ent (\<lambda>_.
     seq (put_ent (\<lambda>e. e[0 := SFN_FREE])) (\<lambda>_.
     seq getD (\<lambda>d.
     if d_sect d = sect \<and> d_idx d = idx then ret (Inr ())
     else seq dir_next (\<lambda>_. ret (Inl ())))))"

definition remove_entries :: "Loc \<Rightarrow> ('d fs, unit) cm" where
  "remove_entries loc =
     seq getD (\<lambda>d0.
     seq (getF (d_fat d0)) (\<lambda>F.
     seq (setD (\<lambda>d. d\<lparr>d_clust := sect_to_clust F (l_sect loc), d_sect := l_sect loc,
            d_idx := l_idx loc\<rparr>)) (\<lambda>_.
     loop (remove_entries_step (d_sect d0) (d_idx d0)) ())))"

text \<open>The search of \<open>dir_add\<close> for \<open>lfns + 1\<close> free entries: \<open>(cnt, eod, sect, idx)\<close>.\<close>

definition find_free_step ::
  "nat \<Rightarrow> nat \<times> bool \<times> u32 \<times> u16 \<Rightarrow> ('d fs, (nat \<times> bool \<times> u32 \<times> u16) + (bool \<times> u32 \<times> u16)) cm" where
  "find_free_step lfns = (\<lambda>(cnt, eod, sect, idx).
     if cnt < lfns + 1 then
       seq load_ent (\<lambda>e.
       seq getD (\<lambda>d.
       let first = (eod \<or> sfn_is_free e) \<and> cnt = 0;
           cnt' = (if eod \<or> sfn_is_free e then cnt + 1 else 0);
           sect' = (if first then d_sect d else sect);
           idx' = (if first then d_idx d else idx);
           eod' = (eod \<or> sfn_is_last e) in
       seq dir_next_stretch (\<lambda>_.
       ret (Inl (cnt', eod', sect', idx')))))
     else ret (Inr (eod, sect, idx)))"

primrec put_lfns :: "nat \<Rightarrow> u8 \<Rightarrow> bytes \<Rightarrow> nat \<Rightarrow> u8 \<Rightarrow> ('d fs, unit) cm" where
  "put_lfns 0 msk name len crc = ret ()"
| "put_lfns (Suc i) msk name len crc =
     seq load_ent (\<lambda>_.
     seq (put_ent (\<lambda>e. lfn_entry e name len (Suc i) msk crc)) (\<lambda>_.
     seq dir_next (\<lambda>_.
     put_lfns i 0 name len crc)))"

definition sfn_entry :: "bytes \<Rightarrow> u8 \<Rightarrow> u32 \<Rightarrow> u16 \<Rightarrow> u16 \<Rightarrow> bytes \<Rightarrow> bytes" where
  "sfn_entry name attr clust date time e =
     (let e1 = (splice e 0 name)[11 := attr, 12 := 0, 13 := 0];
          e2 = put16 (put16 (put16 e1 14 time) 16 date) 18 date;
          e3 = put16 (put16 e2 20 (ucast (drop_bit 16 clust))) 22 time;
          e4 = put16 (put16 e3 24 date) 26 (ucast (clust AND 0xffff))
      in put32 e4 28 0)"

definition dir_add :: "bytes \<Rightarrow> nat \<Rightarrow> u8 \<Rightarrow> u32 \<Rightarrow> ('d fs, unit) cm" where
  "dir_add name len attr clust =
     (if len = 0 \<or> 255 < len then fail FAT_ERR_PARAM
      else
        let lfns = (len + 12) div 13 in
        seq getD (\<lambda>d.
        seq (dir_enter (d_sclust d)) (\<lambda>_.
        seq (loop (find_free_step lfns) (0, False, 0, 0)) (\<lambda>(eod, sect, idx).
        seq (if eod then seq load_ent (\<lambda>_. put_ent (\<lambda>e. e[0 := 0])) else ret ()) (\<lambda>_.
        seq (getF (d_fat d)) (\<lambda>F.
        seq (setD (\<lambda>d. d\<lparr>d_clust := sect_to_clust F sect, d_sect := sect, d_idx := idx\<rparr>)) (\<lambda>_.
        let sfn = put_sfn_name name len; (date, time) = encode_timestamp in
        seq (put_lfns lfns LFN_HEAD_MSK name len (get_crc sfn)) (\<lambda>_.
        seq load_ent (\<lambda>_.
        put_ent (sfn_entry sfn attr clust date time))))))))))"

end
