(* ===== verification/Fat_File.thy ===== *)
theory Fat_File
  imports Fat_Dir
begin

unbundle bit_operations_syntax

section \<open>FAT32: files\<close>

text \<open>
  The functions on a \<open>File*\<close> work on the object \<open>cfile\<close> of the state. A file has a sector
  buffer of its own and reads and writes data sectors past the cache of its \<open>Fat\<close>.
\<close>

subsection \<open>\<open>fat_file_seek\<close>\<close>

definition seek_base :: "File \<Rightarrow> fat_seek \<Rightarrow> int" where
  "seek_base f how = (case how of FAT_SEEK_START \<Rightarrow> 0
     | FAT_SEEK_CURR \<Rightarrow> uint (fl_offset f) | FAT_SEEK_END \<Rightarrow> uint (fl_size f))"

text \<open>One round of the loop that follows the chain, and stretches it at its end; \<open>n\<close> are left.\<close>

definition seek_step :: "nat \<Rightarrow> ('d fs, nat + unit) cm" where
  "seek_step n =
     (if n = 0 then ret (Inr ())
      else
        seq getFl (\<lambda>f.
        seq (get_fat (fl_fat f) (fl_clust f)) (\<lambda>(nxt, flags).
        if flags AND (CLUST_BAD OR CLUST_FREE) \<noteq> 0 then fail FAT_ERR_BROKEN
        else
          seq (if flags AND CLUST_LAST \<noteq> 0 then stretch_chain (fl_fat f) (fl_clust f) nxt else ret nxt)
            (\<lambda>nxt.
          seq (setFl (\<lambda>f. f\<lparr>fl_clust := nxt\<rparr>)) (\<lambda>_.
          ret (Inl (n - 1)))))))"

text \<open>The end of a seek: when the sector moves, the old one is written back and the new one read.\<close>

definition file_switch :: "u32 \<Rightarrow> ('d fs, unit) cm" where
  "file_switch ssect =
     seq getFl (\<lambda>f.
     if fl_sect f \<noteq> ssect then
       seq (if fl_flags f AND FAT_FILE_DIRTY \<noteq> 0 then
              seq (disk_write (fl_fat f) (fl_buf f) ssect) (\<lambda>ok.
              if \<not> ok then fail FAT_ERR_IO
              else setFl (\<lambda>f. f\<lparr>fl_flags := fl_flags f AND NOT FAT_FILE_DIRTY\<rparr>))
            else ret ()) (\<lambda>_.
       seq (disk_read (fl_fat f) (fl_buf f) (fl_sect f)) (\<lambda>(ok, b).
       seq (setFl (\<lambda>f. f\<lparr>fl_buf := b\<rparr>)) (\<lambda>_.
       if \<not> ok then fail FAT_ERR_IO else ret ())))
     else ret ())"

definition fat_file_seek :: "int \<Rightarrow> fat_seek \<Rightarrow> ('d fs, unit) cm" where
  "fat_file_seek offset how =
     seq getFl (\<lambda>f0.
     let ssect = fl_sect f0 in
     if fl_fat f0 = 0 then fail FAT_ERR_PARAM
     else
       let off64 = seek_base f0 how + offset in
       if off64 < 0 \<or> 0xffffffff < off64 then fail FAT_ERR_EOF
       else
         let off = (of_int off64 :: u32) in
         if fl_sclust f0 = 0 \<or> fl_size f0 = 0 then
           setFl (\<lambda>f. f\<lparr>fl_offset := 0, fl_sect := 0xffffffff\<rparr>)
         else
           seq (getF (fl_fat f0)) (\<lambda>F.
           let clust_size = push_bit (unat (f_clust_shift F)) (512 :: u32) in
           if clust_size = 0 then undef
           else
             let dst_clust = off div clust_size; src_clust = fl_offset f0 div clust_size in
             seq (if dst_clust < src_clust then
                    setFl (\<lambda>f. f\<lparr>fl_clust := fl_sclust f, fl_sect := clust_to_sect F (fl_sclust f),
                      fl_offset := 0\<rparr>)
                  else ret ()) (\<lambda>_.
             let src = (if dst_clust < src_clust then 0 else src_clust) in
             seq (loop seek_step (unat (dst_clust - src))) (\<lambda>_.
             seq (setFl (\<lambda>f. f\<lparr>fl_sect := clust_to_sect F (fl_clust f) + ((off div 512) AND f_clust_msk F),
                    fl_offset := off\<rparr>)) (\<lambda>_.
             file_switch ssect)))))"

subsection \<open>Reading and writing\<close>

text \<open>
  The result is the returned code with the bytes copied to the caller's buffer; \<open>*bytes\<close> is
  their number. A negative \<open>cnt\<close> would be a \<open>memcpy\<close> of almost 4 GiB.
\<close>

definition file_read_step :: "int \<times> bytes \<Rightarrow> ('d fs, (int \<times> bytes) + (err \<times> bytes)) cm" where
  "file_read_step = (\<lambda>(len, acc).
     seq getFl (\<lambda>f.
     if 0 < len \<and> fl_offset f < fl_size f then
       let idx = uint (fl_offset f mod 512);
           cnt = min len (min (512 - idx) (sint (fl_size f - fl_offset f)))
       in
       if cnt < 0 then undef
       else
         let acc' = acc @ slice (fl_buf f) (nat idx) (nat cnt) in
         seq (catch (fat_file_seek cnt FAT_SEEK_CURR)) (\<lambda>r. case r of
           Inl err \<Rightarrow> ret (Inr (err, acc'))
         | Inr _ \<Rightarrow> ret (Inl (len - cnt, acc')))
     else ret (Inr (FAT_ERR_NONE, acc))))"

definition fat_file_read :: "int \<Rightarrow> ('d fs, err \<times> bytes) cm" where
  "fat_file_read len =
     seq getFl (\<lambda>f.
     if fl_fat f = 0 then ret (FAT_ERR_PARAM, [])
     else if fl_flags f AND FAT_READ = 0 then ret (FAT_ERR_DENIED, [])
     else
       seq (setFl (\<lambda>f. f\<lparr>fl_flags := fl_flags f OR FAT_ACCESSED\<rparr>)) (\<lambda>_.
       loop file_read_step (len, [])))"

text \<open>
  The result is the returned code with \<open>*bytes\<close>. The loop declares an \<open>err\<close> of its own, so
  the code that is returned after it is always \<open>FAT_ERR_NONE\<close>.
\<close>

definition file_write_step :: "bytes \<times> nat \<Rightarrow> ('d fs, (bytes \<times> nat) + nat) cm" where
  "file_write_step = (\<lambda>(src, done).
     if src = [] then ret (Inr done)
     else
       seq getFl (\<lambda>f.
       let idx = unat (fl_offset f mod 512); cnt = min (length src) (512 - idx) in
       seq (setFl (\<lambda>f. f\<lparr>fl_buf := splice (fl_buf f) idx (take cnt src),
              fl_flags := fl_flags f OR FAT_FILE_DIRTY\<rparr>)) (\<lambda>_.
       seq (catch (fat_file_seek (int cnt) FAT_SEEK_CURR)) (\<lambda>r. case r of
         Inl err \<Rightarrow> ret (Inr (done + cnt))
       | Inr _ \<Rightarrow> ret (Inl (drop cnt src, done + cnt))))))"

definition fat_file_write :: "bytes \<Rightarrow> ('d fs, err \<times> nat) cm" where
  "fat_file_write src =
     seq getFl (\<lambda>f.
     if fl_fat f = 0 then ret (FAT_ERR_PARAM, 0)
     else if fl_flags f AND FAT_WRITE = 0 then ret (FAT_ERR_DENIED, 0)
     else
       seq (setFl (\<lambda>f. f\<lparr>fl_flags := fl_flags f OR (FAT_MODIFIED OR FAT_ACCESSED)\<rparr>)) (\<lambda>_.
       seq (loop file_write_step (src, 0)) (\<lambda>n.
       seq (setFl (\<lambda>f. if fl_size f < fl_offset f then f\<lparr>fl_size := fl_offset f\<rparr> else f)) (\<lambda>_.
       ret (FAT_ERR_NONE, n)))))"

subsection \<open>Writing back: \<open>fat_file_sync\<close>, \<open>fat_file_close\<close>\<close>

definition sync_entry :: "File \<Rightarrow> bytes \<Rightarrow> bytes" where
  "sync_entry f e =
     (let (date, time) = encode_timestamp;
          e1 = (if fl_flags f AND FAT_ACCESSED \<noteq> 0 then put16 e 18 date else e)
      in if fl_flags f AND FAT_MODIFIED \<noteq> 0 then
           put16 (put16 (put32 (e1[11 := e1 ! 11 OR FAT_ATTR_ARCHIVE]) 28 (fl_size f)) 24 date) 22 time
         else e1)"

definition fat_file_sync :: "('d fs, unit) cm" where
  "fat_file_sync =
     seq getFl (\<lambda>f.
     if fl_fat f = 0 then fail FAT_ERR_PARAM
     else
       seq (if fl_sect f \<noteq> 0xffffffff then
              seq (disk_write (fl_fat f) (fl_buf f) (fl_sect f)) (\<lambda>ok.
              if \<not> ok then fail FAT_ERR_IO else ret ())
            else ret ()) (\<lambda>_.
       seq (if fl_flags f AND (FAT_ACCESSED OR FAT_MODIFIED) \<noteq> 0 then
              seq (update_buf (fl_fat f) (fl_dir_sect f)) (\<lambda>_.
              let i = unat (fl_dir_idx f) in
              if i + 32 \<le> 512 then
                store_buf (fl_fat f) (\<lambda>b. splice b i (sync_entry f (slice b i 32)))
              else undef)
            else ret ()) (\<lambda>_.
       seq (sync_fs (fl_fat f)) (\<lambda>_.
       setFl (\<lambda>f. f\<lparr>fl_flags := fl_flags f AND NOT (FAT_ACCESSED OR FAT_MODIFIED)\<rparr>)))))"

definition fat_file_close :: "('d fs, unit) cm" where
  "fat_file_close =
     seq getFl (\<lambda>f. if fl_fat f = 0 then fail FAT_ERR_PARAM else fat_file_sync)"

subsection \<open>\<open>fat_file_open\<close>\<close>

text \<open>The part after the path: a missing last component is created when asked for.\<close>

definition file_create :: "bytes \<Rightarrow> u8 \<Rightarrow> ('d fs, unit) cm" where
  "file_create path flags =
     (if flags AND FAT_CREATE = 0 then fail FAT_ERR_DENIED
      else
        let len = last_subpath_len path in
        if len = 0 then fail FAT_ERR_PATH
        else
          seq getD (\<lambda>d.
          seq (reads junk32) (\<lambda>clust0.
          seq (create_chain (d_fat d) clust0) (\<lambda>clust.
          dir_add path len FAT_ATTR_ARCHIVE clust))))"

definition fat_file_open :: "bytes \<Rightarrow> u8 \<Rightarrow> ('d fs, unit) cm" where
  "fat_file_open path0 flags = with_local_dir (
     seq (setD (\<lambda>d. d\<lparr>d_fat := 0\<rparr>)) (\<lambda>_.
     seq (follow_path path0 None) (\<lambda>(err, path, _).
     if err \<noteq> 0 \<and> err \<noteq> FAT_ERR_EOF then fail err
     else
       seq (if err = FAT_ERR_EOF then file_create path flags else ret ()) (\<lambda>_.
       seq dir_ent (\<lambda>sfn.
       seq getD (\<lambda>d.
       let trunc = (sfn_size sfn \<noteq> 0 \<and> flags AND FAT_TRUNC \<noteq> 0) in
       seq (setFl (\<lambda>f. f\<lparr>fl_fat := d_fat d, fl_dir_sect := d_sect d, fl_dir_idx := d_idx d,
              fl_sclust := sfn_cluster sfn, fl_clust := sfn_cluster sfn, fl_sect := 0xffffffff,
              fl_offset := 0, fl_attr := sfn_attr sfn,
              fl_size := (if trunc then 0 else sfn_size sfn),
              fl_flags := (if trunc then flags OR FAT_MODIFIED else flags)\<rparr>)) (\<lambda>_.
       fat_file_seek 0 (if flags AND FAT_APPEND \<noteq> 0 then FAT_SEEK_END else FAT_SEEK_START))))))))"

end
