(* ===== verification/Fat_Api.thy ===== *)
theory Fat_Api
  imports Fat_File
begin

unbundle bit_operations_syntax

section \<open>FAT32: probing, mounting, and the calls on directories\<close>

text \<open>
  The entry points of \<open>fat.c\<close> besides those on open files: the boot sector's checks, the list
  of mounted volumes, and the calls that take a path. The global buffer \<open>g_buf\<close> is part of the
  driver's state.
\<close>

subsection \<open>Probing a disk (\<open>Mbr\<close> and \<open>Bpb\<close> overlays)\<close>

definition get_part_lba :: "bytes \<Rightarrow> int \<Rightarrow> u32 option option" where
  "get_part_lba b part =
     (if get16 b 510 \<noteq> 0xaa55 then Some None
      else if \<not> (0 \<le> part \<and> part < 4) then None
      else
        let p = 446 + 16 * nat part in
        if b ! (p + 4) \<noteq> 0x0c then Some None else Some (Some (get32 b (p + 8))))"

definition bpb_sect_per_clust :: "bytes \<Rightarrow> u8" where "bpb_sect_per_clust b = b ! 13"
definition bpb_res_sect_cnt :: "bytes \<Rightarrow> u16" where "bpb_res_sect_cnt b = get16 b 14"
definition bpb_fat_cnt :: "bytes \<Rightarrow> u8" where "bpb_fat_cnt b = b ! 16"
definition bpb_sect_cnt_32 :: "bytes \<Rightarrow> u32" where "bpb_sect_cnt_32 b = get32 b 32"
definition bpb_sect_per_fat_32 :: "bytes \<Rightarrow> u32" where "bpb_sect_per_fat_32 b = get32 b 36"
definition bpb_ext_flags :: "bytes \<Rightarrow> u16" where "bpb_ext_flags b = get16 b 40"
definition bpb_root_cluster :: "bytes \<Rightarrow> u32" where "bpb_root_cluster b = get32 b 44"
definition bpb_info_sect :: "bytes \<Rightarrow> u16" where "bpb_info_sect b = get16 b 48"

text \<open>The string \<open>"FAT32   "\<close>; the division by \<open>sect_per_clust\<close> traps where it is 0.\<close>

definition fat32_tag :: bytes where
  "fat32_tag = [0x46, 0x41, 0x54, 0x33, 0x32, 0x20, 0x20, 0x20]"

definition check_fat :: "bytes \<Rightarrow> bool option" where
  "check_fat b =
     (if b ! 0 \<noteq> 0xeb \<and> b ! 0 \<noteq> 0xe9 then Some False
      else if bpb_fat_cnt b \<noteq> 2 then Some False
      else if get16 b 17 \<noteq> 0 \<or> get16 b 19 \<noteq> 0 \<or> get16 b 22 \<noteq> 0 then Some False
      else if bpb_info_sect b \<noteq> 1 then Some False
      else if slice b 82 8 \<noteq> fat32_tag then Some False
      else if get16 b 11 \<noteq> 512 then Some False
      else if bpb_ext_flags b AND 0x80 = 0 \<and> 1 < bpb_ext_flags b AND 0xf then Some False
      else if bpb_sect_per_clust b = 0 then None
      else
        let sect_cnt = bpb_sect_cnt_32 b -
          (ucast (bpb_res_sect_cnt b) + ucast (bpb_fat_cnt b) * bpb_sect_per_fat_32 b)
        in Some (65525 \<le> sect_cnt div ucast (bpb_sect_per_clust b)))"

text \<open>\<open>ops->read(g_buf, n)\<close>, and the conversion of a trap to \<open>undef\<close>.\<close>

definition read_g :: "'d DiskOps \<Rightarrow> u32 \<Rightarrow> ('d fs, bool) cm" where
  "read_g ops n = (\<lambda>s. case ops_read ops (g_buf s) n (dev s) of None \<Rightarrow> None
     | Some (ok, b, d) \<Rightarrow> Some (Inr ok, s\<lparr>dev := d, g_buf := b\<rparr>))"

definition of_opt :: "'a option \<Rightarrow> ('d fs, 'a) cm" where
  "of_opt x = (case x of None \<Rightarrow> undef | Some v \<Rightarrow> ret v)"

definition probe :: "'d DiskOps \<Rightarrow> int \<Rightarrow> ('d fs, u32) cm" where
  "probe ops part =
     seq (read_g ops 0) (\<lambda>ok.
     if \<not> ok then fail FAT_ERR_IO
     else
       seq (reads g_buf) (\<lambda>b.
       seq (of_opt (check_fat b)) (\<lambda>fat.
       if fat then (if part = 0 then ret 0 else fail FAT_ERR_NOFAT)
       else
         seq (of_opt (get_part_lba b part)) (\<lambda>l. case l of
           None \<Rightarrow> fail FAT_ERR_NOFAT
         | Some lba \<Rightarrow>
             seq (read_g ops lba) (\<lambda>ok.
             if \<not> ok then fail FAT_ERR_IO
             else
               seq (reads g_buf) (\<lambda>b.
               seq (of_opt (check_fat b)) (\<lambda>fat.
               if fat then ret lba else fail FAT_ERR_NOFAT)))))))"

definition fat_probe :: "'d DiskOps \<Rightarrow> int \<Rightarrow> ('d fs, unit) cm" where
  "fat_probe ops part = seq (probe ops part) (\<lambda>_. ret ())"

subsection \<open>Mounting\<close>

definition ctz :: "u8 \<Rightarrow> u8" where
  "ctz n = of_nat (length (takeWhile (\<lambda>i. \<not> bit n i) [0..<8]))"

text \<open>The fields of \<open>Fat\<close> that \<open>fat_mount\<close> computes from the boot sector.\<close>

definition mount_geometry :: "bytes \<Rightarrow> u32 \<Rightarrow> 'd Fat \<Rightarrow> 'd Fat" where
  "mount_geometry b lba F =
     (let mirror = (bpb_ext_flags b AND 0x80 \<noteq> 0);
          use_first = (bpb_ext_flags b AND 0x01 = 0);
          res = ucast (bpb_res_sect_cnt b);
          fat_0 = lba + res;
          fat_1 = lba + res + bpb_sect_per_fat_32 b
      in F\<lparr>f_clust_shift := ctz (bpb_sect_per_clust b),
           f_clust_msk := ucast (bpb_sect_per_clust b) - 1,
           f_clust_cnt := bpb_sect_per_fat_32 b * 128,
           f_root_clust := bpb_root_cluster b,
           f_fat_sect0 := (if use_first then fat_0 else fat_1),
           f_fat_sect1 := (if mirror then (if use_first then fat_1 else fat_0) else 0),
           f_info_sect := lba + ucast (bpb_info_sect b),
           f_data_sect := lba + res + ucast (bpb_fat_cnt b) * bpb_sect_per_fat_32 b\<rparr>)"

definition info_valid :: "bytes \<Rightarrow> bool" where
  "info_valid b \<longleftrightarrow> get32 b 508 = 0xaa550000 \<and> get32 b 0 = 0x41615252 \<and> get32 b 484 = 0x61417272 \<and>
     get32 b 492 \<noteq> 0xffffffff \<and> get32 b 488 \<noteq> 0xffffffff"

definition fat_mount :: "'d DiskOps \<Rightarrow> int \<Rightarrow> nat \<Rightarrow> bytes \<Rightarrow> ('d fs, unit) cm" where
  "fat_mount ops part p name =
     seq (probe ops part) (\<lambda>lba.
     seq (reads g_buf) (\<lambda>b.
     seq (setF p (mount_geometry b lba)) (\<lambda>_.
     seq (read_g ops (lba + ucast (bpb_info_sect b))) (\<lambda>ok.
     if \<not> ok then fail FAT_ERR_IO
     else
       seq (reads g_buf) (\<lambda>info.
       if \<not> info_valid info then fail FAT_ERR_NOFAT
       else
         seq (setF p (\<lambda>F. F\<lparr>f_last_used := get32 info 492, f_free_cnt := get32 info 488\<rparr>)) (\<lambda>_.
         if 32 < length name then fail FAT_ERR_PARAM
         else
           seq (reads g_fat_list) (\<lambda>head.
           seq (setF p (\<lambda>F. F\<lparr>f_name := splice (f_name F) 0 name, f_name_len := of_nat (length name),
                  f_ops := ops, f_sect := 0, f_next := head\<rparr>)) (\<lambda>_.
           modify (\<lambda>s. s\<lparr>g_fat_list := p\<rparr>)))))))))"

text \<open>The walk of \<open>fat_umount\<close>: \<open>prv\<close> is the node whose \<open>next\<close> field \<open>it\<close> points at, 0 for
  the head of the list; the result is where the pointer to \<open>fat\<close> is, if anywhere.\<close>

definition umount_step :: "nat \<Rightarrow> nat \<times> nat \<Rightarrow> ('d fs, (nat \<times> nat) + nat option) cm" where
  "umount_step p = (\<lambda>(prv, it).
     if it = 0 then ret (Inr None)
     else if it = p then ret (Inr (Some prv))
     else seq (getF it) (\<lambda>F. ret (Inl (it, f_next F))))"

definition fat_umount :: "nat \<Rightarrow> ('d fs, unit) cm" where
  "fat_umount p =
     seq (reads g_fat_list) (\<lambda>head.
     seq (loop (umount_step p) (0, head)) (\<lambda>r. case r of
       None \<Rightarrow> fail FAT_ERR_PARAM
     | Some prv \<Rightarrow>
         seq (getF p) (\<lambda>F.
         seq (if prv = 0 then modify (\<lambda>s. s\<lparr>g_fat_list := f_next F\<rparr>)
              else setF prv (\<lambda>G. G\<lparr>f_next := f_next F\<rparr>)) (\<lambda>_.
         sync_fs p))))"

definition fat_sync :: "nat \<Rightarrow> ('d fs, unit) cm" where
  "fat_sync p = sync_fs p"

subsection \<open>Calls on directories\<close>

text \<open>\<open>info\<close> is what \<open>*info\<close> held; only the first \<open>g_len\<close> bytes of its name are overwritten.\<close>

definition info_of :: "bytes \<Rightarrow> bytes \<Rightarrow> u16 \<Rightarrow> DirInfo \<Rightarrow> DirInfo" where
  "info_of sfn buf len info = info\<lparr>
     di_name := splice (di_name info) 0 (take (unat len) buf), di_name_len := ucast len,
     di_created := decode_timestamp (sfn_cre_date sfn) (sfn_cre_time sfn),
     di_modified := decode_timestamp (sfn_mod_date sfn) (sfn_mod_time sfn),
     di_size := sfn_size sfn, di_attr := sfn_attr sfn\<rparr>"

definition dir_read_step :: "DirInfo \<Rightarrow> unit \<Rightarrow> ('d fs, unit + DirInfo) cm" where
  "dir_read_step info u =
     seq load_ent (\<lambda>e.
     if sfn_is_last e then fail FAT_ERR_EOF
     else if sfn_is_free e then seq dir_next (\<lambda>_. ret (Inl ()))
     else
       seq (if sfn_is_lfn e then
              seq parse_lfn_name (\<lambda>_.
              seq load_ent (\<lambda>sfn.
              seq (reads g_crc) (\<lambda>crc.
              if sfn_is_free sfn \<or> crc \<noteq> get_crc (sfn_name sfn) then fail FAT_ERR_BROKEN
              else ret sfn)))
            else seq (parse_sfn_name (sfn_name e)) (\<lambda>_. ret e)) (\<lambda>sfn.
       reads (\<lambda>s. Inr (info_of sfn (g_buf s) (g_len s) info))))"

definition fat_dir_read :: "DirInfo \<Rightarrow> ('d fs, DirInfo) cm" where
  "fat_dir_read info =
     seq getD (\<lambda>d. if d_fat d = 0 then fail FAT_ERR_PARAM else loop (dir_read_step info) ())"

definition fat_dir_next :: "('d fs, unit) cm" where
  "fat_dir_next = seq getD (\<lambda>d. if d_fat d = 0 then fail FAT_ERR_PARAM else dir_next)"

definition fat_dir_rewind :: "('d fs, unit) cm" where
  "fat_dir_rewind =
     seq getD (\<lambda>d. if d_fat d = 0 then fail FAT_ERR_PARAM else dir_at_clust (d_sclust d))"

definition fat_dir_open :: "bytes \<Rightarrow> ('d fs, unit) cm" where
  "fat_dir_open path =
     seq (follow_path path None) (\<lambda>(err, _, _).
     if err \<noteq> 0 then fail err
     else
       seq dir_at_root (\<lambda>root.
       if root then ret ()
       else
         seq load_ent (\<lambda>sfn.
         if sfn_attr sfn AND FAT_ATTR_DIR = 0 then fail FAT_ERR_PATH
         else dir_enter (sfn_cluster sfn))))"

definition fat_stat :: "bytes \<Rightarrow> DirInfo \<Rightarrow> ('d fs, DirInfo) cm" where
  "fat_stat path0 info = with_local_dir (
     seq (reads junk32) (\<lambda>j.
     seq (follow_path path0 (Some \<lparr>l_sect = j, l_idx = ucast j\<rparr>)) (\<lambda>(err, path, loc).
     if err \<noteq> 0 then fail err
     else if subpath_len path \<noteq> 0 then fail FAT_ERR_PATH
     else
       seq getD (\<lambda>d.
       seq (getF (d_fat d)) (\<lambda>F.
       seq (setD (\<lambda>d. d\<lparr>d_clust := sect_to_clust F (l_sect (the loc)), d_sect := l_sect (the loc),
              d_idx := l_idx (the loc)\<rparr>)) (\<lambda>_.
       fat_dir_read info))))))"

text \<open>The check of \<open>fat_unlink\<close> that a directory is empty, on the copy \<open>tmp\<close> of \<open>dir\<close>.\<close>

definition dir_empty_step :: "unit \<Rightarrow> ('d fs, unit + unit) cm" where
  "dir_empty_step u =
     seq load_ent (\<lambda>e.
     if sfn_is_last e then ret (Inr ())
     else if \<not> sfn_is_free e then fail FAT_ERR_DENIED
     else seq dir_next (\<lambda>_. ret (Inl ())))"

definition check_empty :: "u32 \<Rightarrow> ('d fs, unit) cm" where
  "check_empty clust = with_local_dir (
     seq (dir_enter clust) (\<lambda>_.
     seq (dir_advance 2) (\<lambda>_.
     loop dir_empty_step ())))"

definition fat_unlink :: "bytes \<Rightarrow> ('d fs, unit) cm" where
  "fat_unlink path0 = with_local_dir (
     seq (reads junk32) (\<lambda>j.
     seq (follow_path path0 (Some \<lparr>l_sect = j, l_idx = ucast j\<rparr>)) (\<lambda>(err, path, loc).
     if err \<noteq> 0 then fail err
     else
       seq dir_at_root (\<lambda>root.
       if root then fail FAT_ERR_DENIED
       else
         seq dir_ent (\<lambda>sfn.
         if sfn_attr sfn AND (FAT_ATTR_RO OR FAT_ATTR_SYS OR FAT_ATTR_LABEL) \<noteq> 0
         then fail FAT_ERR_DENIED
         else
           seq (if sfn_attr sfn AND FAT_ATTR_DIR \<noteq> 0 then check_empty (sfn_cluster sfn) else ret ()) (\<lambda>_.
           seq getD (\<lambda>d.
           seq (remove_chain (d_fat d) (sfn_cluster sfn)) (\<lambda>_.
           seq (remove_entries (the loc)) (\<lambda>_.
           sync_fs (d_fat d)))))))))) "

definition dot_entry :: "u32 \<Rightarrow> u16 \<Rightarrow> u16 \<Rightarrow> bytes \<Rightarrow> bytes" where
  "dot_entry clust date time e =
     (let e1 = (splice e 0 (DOT # replicate 10 SFN_PAD))[11 := FAT_ATTR_DIR];
          e2 = put16 (put16 e1 20 (ucast (drop_bit 16 clust))) 26 (ucast (clust AND 0xffff));
          e3 = put16 (put16 e2 16 date) 14 time
      in put16 (put16 (put16 e3 24 date) 22 time) 18 date)"

definition dot_entries :: "u32 \<Rightarrow> u32 \<Rightarrow> u16 \<Rightarrow> u16 \<Rightarrow> bytes \<Rightarrow> bytes" where
  "dot_entries clust parent date time b =
     (let dot = dot_entry clust date time (slice b 0 32);
          dotdot = put16 (put16 (dot[1 := DOT]) 20 (ucast (drop_bit 16 parent)))
            26 (ucast (parent AND 0xffff))
      in splice (splice b 0 dot) 32 dotdot)"

definition fat_dir_create :: "bytes \<Rightarrow> ('d fs, unit) cm" where
  "fat_dir_create path0 =
     seq (follow_path path0 None) (\<lambda>(err, path, _).
     if err = 0 then ret ()
     else if err \<noteq> FAT_ERR_EOF then fail err
     else
       let len = last_subpath_len path in
       if len = 0 then fail FAT_ERR_PATH
       else
         seq getD (\<lambda>d.
         seq (reads junk32) (\<lambda>clust0.
         seq (create_chain (d_fat d) clust0) (\<lambda>clust.
         seq (clust_clear (d_fat d) clust) (\<lambda>_.
         seq (getF (d_fat d)) (\<lambda>F.
         seq (update_buf (d_fat d) (clust_to_sect F clust)) (\<lambda>_.
         let (date, time) = encode_timestamp;
             parent = (if d_sclust d = f_root_clust F then 0 else d_sclust d) in
         seq (store_buf (d_fat d) (dot_entries clust parent date time)) (\<lambda>_.
         seq (dir_add path len FAT_ATTR_DIR clust) (\<lambda>_.
         seq (dir_enter clust) (\<lambda>_.
         sync_fs (d_fat d)))))))))))"

subsection \<open>Names of the error codes\<close>

definition err_strs :: "string list" where
  "err_strs = [''FAT_ERR_NONE'', ''FAT_ERR_NOFAT'', ''FAT_ERR_BROKEN'', ''FAT_ERR_IO'',
     ''FAT_ERR_PARAM'', ''FAT_ERR_PATH'', ''FAT_ERR_EOF'', ''FAT_ERR_DENIED'', ''FAT_ERR_FULL'']"

definition fat_get_error :: "err \<Rightarrow> string" where
  "fat_get_error err0 =
     (let err = - err0 in
      if err < 0 \<or> int (length err_strs) \<le> err then ''NULL'' else err_strs ! nat err)"

end
