(* ===== verification/Fat_Sample.thy ===== *)
theory Fat_Sample
  imports Fat_Api
begin

unbundle bit_operations_syntax

section \<open>FAT32: a small volume in memory\<close>

text \<open>
  A RAM disk, which satisfies the contract \<open>disk_ok\<close> of the callbacks, and a volume on it:
  FsInfo in sector 1, the table in sector 32 with its mirror in sector 33, clusters of two
  sectors from sector 34 on. Cluster 2 is the root directory, clusters 3 and 4 are a file,
  clusters 5 to 7 are free. The statements about the driver are applied to this volume.
\<close>

type_synonym ram = "u32 \<Rightarrow> bytes"

definition ram_media :: "ram \<Rightarrow> u32 \<Rightarrow> bytes" where
  "ram_media d n = take 512 (d n @ replicate 512 0)"

definition ram_ops :: "ram DiskOps" where
  "ram_ops = \<lparr>ops_read = (\<lambda>b n d. Some (True, ram_media d n, d)),
     ops_write = (\<lambda>b n d. Some (True, d(n := b)))\<rparr>"

lemma disk_ok_ram: "disk_ok ram_ops ram_media"
  by (auto simp: disk_ok_def ram_ops_def ram_media_def)

definition sample_table :: bytes where
  "sample_table =
     put32 (put32 (put32 (put32 (put32 (replicate 512 0) 0 0x0ffffff8) 4 0x0fffffff)
       8 0x0fffffff) 12 4) 16 0x0fffffff"

definition sample_disk :: ram where
  "sample_disk = (\<lambda>n. if n = 32 \<or> n = 33 then sample_table else replicate 512 0)"

definition sample_fat :: "ram Fat" where
  "sample_fat = \<lparr>f_next = 0, f_ops = ram_ops, f_clust_msk = 1, f_clust_cnt = 8, f_info_sect = 1,
     f_fat_sect0 = 32, f_fat_sect1 = 33, f_data_sect = 34, f_root_clust = 2, f_last_used = 4,
     f_free_cnt = 3, f_sect = 0, f_buf = replicate 512 0, f_flags = 0, f_clust_shift = 1,
     f_name_len = 4, f_name = [0x72, 0x6f, 0x6f, 0x74]\<rparr>"

definition sample_dir :: Dir where
  "sample_dir = \<lparr>d_fat = 1, d_sclust = 2, d_clust = 2, d_sect = 34, d_idx = 0\<rparr>"

definition sample_file :: File where
  "sample_file = \<lparr>fl_fat = 1, fl_dir_sect = 34, fl_sclust = 0, fl_clust = 0, fl_sect = 0xffffffff,
     fl_size = 0, fl_offset = 0, fl_dir_idx = 0, fl_attr = 0x20, fl_flags = 0x11,
     fl_buf = replicate 512 0\<rparr>"

definition sample :: "ram fs" where
  "sample = \<lparr>dev = sample_disk, fats = (\<lambda>_. sample_fat), g_fat_list = 1, g_buf = replicate 512 0,
     g_len = 0, g_crc = 0, cdir = sample_dir, cfile = sample_file, junk8 = 7, junk32 = 9\<rparr>"

lemmas sample_defs = sample_def sample_fat_def sample_dir_def sample_file_def

lemma sample_fields [simp]:
  "fats sample p = sample_fat" "dev sample = sample_disk" "junk8 sample = 7"
  "f_ops sample_fat = ram_ops" "f_clust_cnt sample_fat = 8" "f_fat_sect0 sample_fat = 32"
  "f_fat_sect1 sample_fat = 33" "f_info_sect sample_fat = 1" "f_sect sample_fat = 0"
  "f_buf sample_fat = replicate 512 0" "f_flags sample_fat = 0" "f_last_used sample_fat = 4"
  "f_free_cnt sample_fat = 3" "f_data_sect sample_fat = 34" "f_clust_shift sample_fat = 1"
  "f_clust_msk sample_fat = 1" "f_root_clust sample_fat = 2"
  by (simp_all add: sample_def sample_fat_def)

lemma length_sample_table [simp]: "length sample_table = 512"
  by (simp add: sample_table_def)

lemma cache_ok_sample: "cache_ok ram_media p sample"
  by (simp add: cache_ok_def disk_ok_ram)

lemma lsec_sample: "lsec ram_media p sample n = (if n = 32 \<or> n = 33 then sample_table else replicate 512 0)"
  by (auto simp: lsec_def ram_media_def sample_disk_def)

lemma small_div: "c < 8 \<Longrightarrow> c div 128 = (0 :: u32)"
  by (simp add: word_less_nat_alt word_arith_nat_div)

lemma geom_sample: "geom sample_fat"
  by (auto simp: geom_def small_div)

lemma tab_ok_sample: "tab_ok ram_media p sample"
  by (simp add: tab_ok_def cache_ok_sample geom_sample)

lemma less_8_cases: "c < (8 :: u32) \<Longrightarrow> c = 0 \<or> c = 1 \<or> c = 2 \<or> c = 3 \<or> c = 4 \<or> c = 5 \<or> c = 6 \<or> c = 7"
proof -
  assume "c < 8"
  then have "unat c < 8" by (simp add: word_less_nat_alt)
  then have "unat c \<in> {0, 1, 2, 3, 4, 5, 6, 7}" by auto
  then show ?thesis by (auto simp: word_unat_eq_iff)
qed

lemma get32_zero: "i + 3 < n \<Longrightarrow> get32 (replicate n 0) i = 0"
  by (simp add: get32_def)

lemma fat_tab_sample:
  "fat_tab ram_media p sample = (\<lambda>c. if c = 0 then 0x0ffffff8 else if c = 1 then 0x0fffffff
     else if c = 2 then 0x0fffffff else if c = 3 then 4 else if c = 4 then 0x0fffffff else 0)"
proof (rule ext)
  fix c :: u32
  show "fat_tab ram_media p sample c = (if c = 0 then 0x0ffffff8 else if c = 1 then 0x0fffffff
     else if c = 2 then 0x0fffffff else if c = 3 then 4 else if c = 4 then 0x0fffffff else 0)"
  proof (cases "c < 8")
    case True
    from less_8_cases [OF True] show ?thesis
      by (elim disjE) (simp_all add: fat_tab_def tab_at_def entry_of_def lsec_sample sample_table_def
          byte_simps get32_zero)
  next
    case False
    then have "c \<noteq> 0 \<and> c \<noteq> 1 \<and> c \<noteq> 2 \<and> c \<noteq> 3 \<and> c \<noteq> 4" by auto
    with False show ?thesis by (simp add: fat_tab_def tab_at_def)
  qed
qed

lemma mirrored_sample: "mirrored ram_media p sample"
  by (auto simp: mirrored_def fat_tab_def tab_at_def entry_of_def lsec_sample small_div fun_eq_iff)

lemma entries_ok_sample: "entries_ok ram_media p sample"
  by (auto simp: entries_ok_def fat_tab_sample clust_flags_def dest!: less_8_cases)

end
