(* ===== verification/Fat_Correct.thy ===== *)
theory Fat_Correct
  imports Fat_Sample
begin

unbundle bit_operations_syntax

section \<open>FAT32: what the cache and the table functions guarantee\<close>

text \<open>
  The statements about \<open>update_buf\<close>, \<open>sync_fs\<close>, \<open>put_fat\<close>, \<open>remove_chain\<close>,
  \<open>stretch_chain\<close> and \<open>clust_clear\<close>. They speak of the flat disk \<open>lsec\<close>, the table
  \<open>fat_tab\<close> on it and the cluster chains of that table, for every device that keeps the
  contract \<open>disk_ok\<close> of the callbacks, and include the runs in which the device fails.
\<close>

subsection \<open>Chains after linking a cluster\<close>

lemma chain_entry_nonzero: "chain T n cs \<Longrightarrow> x \<in> set cs \<Longrightarrow> T x \<noteq> 0"
proof -
  assume "chain T n cs" "x \<in> set cs"
  then obtain xs ys where "chain T n (xs @ (x # ys))" by (metis split_list)
  then have "chain T n (x # ys)" by (rule chain_suffix) simp
  then show ?thesis by (cases ys) (auto simp: word_le_nat_alt)
qed

lemma chain_append:
  assumes "chain T n cs" and "T c = 0" and "2 \<le> c" "c < n" "n \<le> 0x0ffffff7" and "last cs \<noteq> c"
  shows "chain ((T(c := 0x0fffffff))(last cs := c)) n (cs @ [c])"
  using assms(1,6)
proof (induction cs)
  case (Cons x xs)
  show ?case
  proof (cases xs)
    case Nil
    with Cons.prems assms(3-5) show ?thesis by auto
  next
    case (Cons y ys)
    have x: "x \<noteq> c" using Cons.prems assms(2) chain_entry_nonzero [of T n "x # xs" x] by auto
    have "distinct (x # xs)" using Cons.prems chain_distinct by blast
    then have "x \<noteq> last xs" using Cons by auto
    then show ?thesis using Cons Cons.prems Cons.IH x by simp
  qed
qed simp

lemma chain_linked:
  assumes "chain T n cs" and "T c = 0" and "2 \<le> c" "c < n" "n \<le> 0x0ffffff7" and "last cs \<noteq> 0"
  shows "chain (linked T (last cs) c) n (cs @ [c])"
proof -
  have "last cs \<noteq> c"
    using assms(1,2) chain_entry_nonzero [of T n cs "last cs"] chain_nonempty by auto
  then show ?thesis using assms chain_append by (simp add: linked_def)
qed

lemma chain_linked_other:
  assumes "chain T n ds" and "T c = 0" and "prev \<notin> set ds \<or> prev = 0"
  shows "chain (linked T prev c) n ds"
proof -
  have "c \<notin> set ds" using assms(1,2) chain_entry_nonzero by blast
  then have "chain (linked T prev c) n ds = chain T n ds"
    using assms(3) by (intro chain_cong) (auto simp: linked_def)
  then show ?thesis using assms(1) by simp
qed

lemma chain_new: "2 \<le> c \<Longrightarrow> c < n \<Longrightarrow> chain (linked T 0 c) n [c]"
  by (simp add: linked_def)

subsection \<open>The table\<close>

lemma nibble_keep [simp]:
  "((x AND 0xf0000000) OR (v AND 0x0fffffff)) AND 0xf0000000 = (x AND 0xf0000000 :: u32)"
proof -
  have "(0x0fffffff :: u32) = mask 28" and "(0xf0000000 :: u32) = NOT (mask 28)"
    by (simp_all add: mask_eq_exp_minus_1)
  then show ?thesis
    by (simp only:) (rule bit_word_eqI, auto simp: bit_simps)
qed

lemma uint_not_neg [simp]: "uint (f :: u8) \<noteq> - numeral n"
proof -
  have "0 \<le> uint f" by simp
  then show ?thesis by (metis neg_numeral_less_zero not_less)
qed

text \<open>
  C1: \<open>remove_chain\<close> on the first cluster of a chain terminates. On success exactly the
  clusters of that chain have become free and no other entry has changed, the mirror still
  agrees with the table, the count of free clusters has grown by the chain's length, all
  of it is on the device together with the FsInfo sector, and no sector outside the table
  and FsInfo has changed; the only error is an I/O error of the device.
\<close>

theorem remove_chain_frees:
  assumes "tab_ok media p s"
    and "chain (fat_tab media p s) (f_clust_cnt (fats s p)) (c # rst)"
    and "mirrored media p s"
  shows "wp (remove_chain p c)
    (\<lambda>_ s'. synced media p s' \<and> tab_run media p s s' \<and> mirrored media p s' \<and>
       fat_tab media p s' = (\<lambda>x. if x \<in> set (c # rst) then 0 else fat_tab media p s x) \<and>
       f_free_cnt (fats s' p) = f_free_cnt (fats s p) + of_nat (length (c # rst)) \<and>
       get32 (media (dev s') (f_info_sect (fats s p))) 488 = f_free_cnt (fats s' p))
    (\<lambda>e s'. e = FAT_ERR_IO \<and> tab_run media p s s') s"
  by (rule wp_remove_chain [OF assms(1,2)]) (use assms(3) in simp_all)

lemma remove_chain_frees_witness:
  "wp (remove_chain 1 3)
    (\<lambda>_ s'. synced ram_media 1 s' \<and> tab_run ram_media 1 sample s' \<and> mirrored ram_media 1 s' \<and>
       fat_tab ram_media 1 s' = (\<lambda>x. if x \<in> set [3, 4] then 0 else fat_tab ram_media 1 sample x) \<and>
       f_free_cnt (fats s' 1) = 5 \<and> get32 (ram_media (dev s') 1) 488 = f_free_cnt (fats s' 1))
    (\<lambda>e s'. e = FAT_ERR_IO \<and> tab_run ram_media 1 sample s') sample"
  using remove_chain_frees [of ram_media 1 sample 3 "[4]"]
  by (simp add: tab_ok_sample mirrored_sample fat_tab_sample)

text \<open>
  C2: \<open>stretch_chain\<close> behind the last cluster of a chain \<open>cs\<close> terminates. On success it
  has appended one cluster \<open>c\<close> that was free: \<open>cs @ [c]\<close> is a chain, every other chain of
  the table is still one, every other entry is unchanged, the mirror agrees, one cluster
  fewer is counted free, and all of it is on the device. When it reports an error, the table
  is as it was or the device failed; and \<open>FULL\<close> is reported only when no cluster, except
  perhaps \<open>last_used\<close> itself, is free.
\<close>

theorem stretch_chain_appends:
  assumes "tab_ok media p s" and "entries_ok media p s" and "mirrored media p s"
    and "2 \<le> f_last_used (fats s p)" and "f_last_used (fats s p) < f_clust_cnt (fats s p)"
    and "chain (fat_tab media p s) (f_clust_cnt (fats s p)) cs" and "2 \<le> last cs"
  shows "wp (stretch_chain p (last cs) out)
    (\<lambda>c s'. synced media p s' \<and> tab_run media p s s' \<and> mirrored media p s' \<and>
       fat_tab media p s c = 0 \<and> chain (fat_tab media p s') (f_clust_cnt (fats s p)) (cs @ [c]) \<and>
       (\<forall>ds. chain (fat_tab media p s) (f_clust_cnt (fats s p)) ds \<and> last cs \<notin> set ds \<longrightarrow>
          chain (fat_tab media p s') (f_clust_cnt (fats s p)) ds) \<and>
       (\<forall>x. x \<noteq> c \<and> x \<noteq> last cs \<longrightarrow> fat_tab media p s' x = fat_tab media p s x) \<and>
       f_last_used (fats s' p) = c \<and> f_free_cnt (fats s' p) = f_free_cnt (fats s p) - 1)
    (\<lambda>e s'. tab_run media p s s' \<and> (e = FAT_ERR_IO \<or> fat_tab media p s' = fat_tab media p s) \<and>
       (e = FAT_ERR_FULL \<longrightarrow> (\<forall>x. 2 \<le> x \<and> x < f_clust_cnt (fats s p) \<and>
          x \<noteq> f_last_used (fats s p) \<longrightarrow> fat_tab media p s x \<noteq> 0))) s"
proof (rule wp_stretch_chain [OF assms(1,2) refl assms(4,5)])
  have last: "last cs < f_clust_cnt (fats s p)"
    using assms(6) chain_less chain_nonempty by (metis last_in_set)
  then show "last cs = 0 \<or> 2 \<le> last cs \<and> last cs < f_clust_cnt (fats s p)"
    using assms(7) by simp
  have nz: "last cs \<noteq> 0" using assms(7) by auto
  have max: "f_clust_cnt (fats s p) \<le> 0x0ffffff7"
    using assms(1) by (simp add: tab_ok_def geom_def)
  fix c s'
  assume "synced media p s'" "tab_run media p s s'" and c: "2 \<le> c" "c < f_clust_cnt (fats s p)"
    and free: "fat_tab media p s c = 0"
    and tab: "fat_tab media p s' = linked (fat_tab media p s) (last cs) c"
    and m: "mirrored media p s \<Longrightarrow> mirrored media p s'"
    and "f_last_used (fats s' p) = c" "f_free_cnt (fats s' p) = f_free_cnt (fats s p) - 1"
  moreover have "chain (fat_tab media p s') (f_clust_cnt (fats s p)) (cs @ [c])"
    unfolding tab using assms(6) free c max nz by (rule chain_linked)
  moreover have "chain (fat_tab media p s') (f_clust_cnt (fats s p)) ds"
    if "chain (fat_tab media p s) (f_clust_cnt (fats s p)) ds" "last cs \<notin> set ds" for ds
    unfolding tab using that free chain_linked_other by blast
  ultimately show "synced media p s' \<and> tab_run media p s s' \<and> mirrored media p s' \<and>
       fat_tab media p s c = 0 \<and> chain (fat_tab media p s') (f_clust_cnt (fats s p)) (cs @ [c]) \<and>
       (\<forall>ds. chain (fat_tab media p s) (f_clust_cnt (fats s p)) ds \<and> last cs \<notin> set ds \<longrightarrow>
          chain (fat_tab media p s') (f_clust_cnt (fats s p)) ds) \<and>
       (\<forall>x. x \<noteq> c \<and> x \<noteq> last cs \<longrightarrow> fat_tab media p s' x = fat_tab media p s x) \<and>
       f_last_used (fats s' p) = c \<and> f_free_cnt (fats s' p) = f_free_cnt (fats s p) - 1"
    using assms(3) nz by (simp add: linked_def)
qed (use assms(7) in \<open>auto simp: dirty_run_def err_defs\<close>)

lemma stretch_chain_appends_witness:
  "wp (stretch_chain 1 4 0)
    (\<lambda>c s'. synced ram_media 1 s' \<and> chain (fat_tab ram_media 1 s') 8 [3, 4, c])
    (\<lambda>e s'. tab_run ram_media 1 sample s') sample"
proof -
  have "chain (fat_tab ram_media 1 sample) (f_clust_cnt (fats sample 1)) [3, 4]"
    by (simp add: fat_tab_sample)
  from stretch_chain_appends [OF tab_ok_sample entries_ok_sample mirrored_sample _ _ this, where out = 0]
  show ?thesis by (simp add: wp_conseq)
qed


definition tight_table :: bytes where
  "tight_table = put32 (put32 sample_table 12 0x0fffffff) 16 0"

definition tight :: "ram fs" where
  "tight = sample\<lparr>dev := (\<lambda>n. if n = 32 \<or> n = 33 then tight_table else replicate 512 0),
     fats := (\<lambda>_. sample_fat\<lparr>f_clust_cnt := 5\<rparr>)\<rparr>"

lemma tight_fields [simp]: "f_clust_cnt (fats tight p) = 5" "f_last_used (fats tight p) = 4" "junk8 tight = 7"
  by (simp_all add: tight_def)




text \<open>
  C4: after \<open>put_fat\<close> the entry reads back, through \<open>get_fat\<close>, as the value's low 28 bits
  with the flags of that value; no other entry has changed.
\<close>

theorem get_fat_after_put_fat:
  assumes "tab_ok media p s" and "c < f_clust_cnt (fats s p)"
  shows "wp (seq (put_fat p c v) (\<lambda>_. get_fat p c))
    (\<lambda>(r, fl) s'. r = v AND 0x0fffffff \<and> clust_flags (f_clust_cnt (fats s p)) r = Some fl \<and>
       fat_tab media p s' = (fat_tab media p s)(c := r) \<and> tab_run media p s s')
    (\<lambda>e s'. tab_run media p s s' \<and> (e = FAT_ERR_IO \<or> e = FAT_ERR_BROKEN \<and>
       clust_flags (f_clust_cnt (fats s p)) (v AND 0x0fffffff) = None)) s"
  unfolding wp_seq
proof (rule wp_put_fat_run [OF assms])
  fix t assume t: "tab_run media p s t"
    and tab: "fat_tab media p t = (fat_tab media p s)(c := v AND 0x0fffffff)"
  have tc: "tab_ok media p t" "c < f_clust_cnt (fats t p)" and n: "f_clust_cnt (fats t p) = f_clust_cnt (fats s p)"
    using tab_runD [OF t] assms(2) by simp_all
  show "wp (get_fat p c)
    (\<lambda>(r, fl) s'. r = v AND 0x0fffffff \<and> clust_flags (f_clust_cnt (fats s p)) r = Some fl \<and>
       fat_tab media p s' = (fat_tab media p s)(c := r) \<and> tab_run media p s s')
    (\<lambda>e s'. tab_run media p s s' \<and> (e = FAT_ERR_IO \<or> e = FAT_ERR_BROKEN \<and>
       clust_flags (f_clust_cnt (fats s p)) (v AND 0x0fffffff) = None)) t"
    by (rule wp_get_fat [OF tc])
      (use tab n t in \<open>auto simp: cache_same_tab intro: tab_run_trans cache_same_run tab_runD\<close>)
qed simp

lemma get_fat_after_put_fat_witness:
  "wp (seq (put_fat 1 5 6) (\<lambda>_. get_fat 1 5))
    (\<lambda>(r, fl) s'. r = 6 \<and> fl = CLUST_USED) (\<lambda>e s'. e = FAT_ERR_IO) sample"
  by (rule wp_conseq [OF get_fat_after_put_fat [OF tab_ok_sample]]) (auto simp: clust_flags_def)

text \<open>
  C5: one call of \<open>put_fat2\<close> changes a single sector of the flat disk, in it a single entry,
  and of that entry the low 28 bits only: the four reserved bits keep their value.
\<close>

theorem put_fat2_keeps_reserved_bits:
  assumes "cache_ok media p s" and "base + c div 128 \<noteq> 0"
  shows "wp (put_fat2 p base c v)
    (\<lambda>_ s'. cache_ok media p s' \<and>
       (\<forall>n. n \<noteq> base + c div 128 \<longrightarrow> lsec media p s' n = lsec media p s n) \<and>
       (let b = lsec media p s (base + c div 128); b' = lsec media p s' (base + c div 128);
            i = 4 * unat (c mod 128)
        in (\<forall>k. k < i \<or> i + 3 < k \<longrightarrow> b' ! k = b ! k) \<and>
           get32 b' i AND 0x0fffffff = v AND 0x0fffffff \<and>
           get32 b' i AND 0xf0000000 = get32 b i AND 0xf0000000))
    (\<lambda>e s'. e = FAT_ERR_IO \<and> lsec media p s' = lsec media p s) s"
  by (rule wp_put_fat2 [OF assms])
    (use cache_ok_lsec_length [OF assms(1)] idx_bound [of c] in
      \<open>auto simp: Let_def put_entry_def byte_simps nth_put32_other nibble_keep cache_same_def\<close>)

lemma put_fat2_keeps_reserved_bits_witness:
  "wp (put_fat2 1 32 5 6) (\<lambda>_ s'. get32 (lsec ram_media 1 s' 32) 20 AND 0xf0000000 = 0)
    (\<lambda>e s'. e = FAT_ERR_IO) sample"
proof -
  have "wp (put_fat2 1 32 5 6) (\<lambda>_ s'. cache_ok ram_media 1 s' \<and>
       (\<forall>n. n \<noteq> 32 + 5 div 128 \<longrightarrow> lsec ram_media 1 s' n = lsec ram_media 1 sample n) \<and>
       (let b = lsec ram_media 1 sample (32 + 5 div 128); b' = lsec ram_media 1 s' (32 + 5 div 128);
            i = 4 * unat ((5 :: u32) mod 128)
        in (\<forall>k. k < i \<or> i + 3 < k \<longrightarrow> b' ! k = b ! k) \<and>
           get32 b' i AND 0x0fffffff = 6 AND 0x0fffffff \<and>
           get32 b' i AND 0xf0000000 = get32 b i AND 0xf0000000))
    (\<lambda>e s'. e = FAT_ERR_IO \<and> lsec ram_media 1 s' = lsec ram_media 1 sample) sample"
    by (rule put_fat2_keeps_reserved_bits [OF cache_ok_sample]) simp
  then show ?thesis
    by (rule wp_conseq) (simp_all add: Let_def lsec_sample sample_table_def byte_simps get32_zero)
qed

subsection \<open>The cache\<close>

text \<open>
  C6: the cache refines a flat disk: \<open>update_buf\<close>, whether it succeeds or fails, writes back
  what has to be written back and leaves the flat disk as it was; when it succeeds the
  buffer holds the wanted sector of the flat disk.
\<close>

theorem update_buf_refines:
  assumes "cache_ok media p s" and "n \<noteq> 0"
  shows "wp (update_buf p n)
    (\<lambda>_ s'. cache_same media p s s' \<and> f_sect (fats s' p) = n \<and> f_buf (fats s' p) = lsec media p s n)
    (\<lambda>e s'. e = FAT_ERR_IO \<and> cache_same media p s s') s"
  by (rule wp_update_buf [OF assms]) simp_all

lemma update_buf_refines_witness:
  "wp (update_buf 1 32)
    (\<lambda>_ s'. cache_same ram_media 1 sample s' \<and> f_sect (fats s' 1) = 32 \<and>
       f_buf (fats s' 1) = sample_table)
    (\<lambda>e s'. e = FAT_ERR_IO \<and> cache_same ram_media 1 sample s') sample"
  using update_buf_refines [OF cache_ok_sample, where n = 32 and p = 1] by (simp add: lsec_sample)

text \<open>
  C7: after a successful \<open>sync_fs\<close> nothing is dirty, the device holds the flat disk, and,
  where the counters had changed, the FsInfo sector holds them; no other sector of the flat
  disk has changed, in any outcome.
\<close>

theorem sync_fs_writes_back:
  assumes "cache_ok media p s" and "f_info_sect (fats s p) \<noteq> 0"
  shows "wp (sync_fs p)
    (\<lambda>_ s'. synced media p s' \<and> tab_frame p s s' \<and>
       (\<forall>n. n \<noteq> f_info_sect (fats s p) \<longrightarrow> media (dev s') n = lsec media p s n) \<and>
       (bit (f_flags (fats s p)) 1 \<longrightarrow>
          get32 (media (dev s') (f_info_sect (fats s p))) 488 = f_free_cnt (fats s p) \<and>
          get32 (media (dev s') (f_info_sect (fats s p))) 492 = f_last_used (fats s p)))
    (\<lambda>e s'. e = FAT_ERR_IO \<and> cache_ok media p s' \<and>
       (\<forall>n. n \<noteq> f_info_sect (fats s p) \<longrightarrow> lsec media p s' n = lsec media p s n)) s"
  by (rule wp_sync_fs [OF assms(1) refl assms(2)])
    (use cache_ok_lsec_length [OF assms(1)] in
      \<open>auto simp: synced_def info_put_def byte_simps\<close>)

lemma sync_fs_writes_back_witness:
  "wp (sync_fs 1) (\<lambda>_ s'. synced ram_media 1 s' \<and> ram_media (dev s') 32 = sample_table)
    (\<lambda>e s'. e = FAT_ERR_IO) sample"
  by (rule wp_conseq [OF sync_fs_writes_back [OF cache_ok_sample]]) (auto simp: lsec_sample)

text \<open>
  C8: \<open>clust_clear\<close> zeroes the sectors of its cluster on the device, every one of them and no
  other; when the device fails, a first part of them is zeroed and no other sector touched.
\<close>

theorem clust_clear_zeroes:
  assumes "cache_ok media p s"
    and "\<And>k. k < 2 ^ unat (f_clust_shift (fats s p)) \<Longrightarrow> clust_to_sect (fats s p) c + of_nat k \<noteq> 0"
  shows "wp (clust_clear p c)
    (\<lambda>_ s'. cache_ok media p s' \<and> cache_frame p s s' \<and>
       media (dev s') = zeroed (lsec media p s) (clust_to_sect (fats s p) c)
         (2 ^ unat (f_clust_shift (fats s p))))
    (\<lambda>e s'. e = FAT_ERR_IO \<and> cache_ok media p s' \<and>
       (\<exists>i \<le> 2 ^ unat (f_clust_shift (fats s p)).
          lsec media p s' = zeroed (lsec media p s) (clust_to_sect (fats s p) c) i)) s"
  by (rule wp_clust_clear [OF assms(1) refl refl assms(2)])
    (auto dest: clean_media)

lemma clust_clear_zeroes_witness:
  "wp (clust_clear 1 5) (\<lambda>_ s'. cache_ok ram_media 1 s' \<and> cache_frame 1 sample s' \<and>
       ram_media (dev s') = zeroed (lsec ram_media 1 sample) 40 2)
    (\<lambda>e s'. e = FAT_ERR_IO \<and> cache_ok ram_media 1 s' \<and>
       (\<exists>i \<le> 2. lsec ram_media 1 s' = zeroed (lsec ram_media 1 sample) 40 i)) sample"
proof -
  have "clust_to_sect (fats sample 1) 5 = 40" by (simp add: clust_to_sect_def)
  moreover have "(40 :: u32) + of_nat k \<noteq> 0" if "k < 2" for k :: nat
  proof -
    have "k = 0 \<or> k = 1" using that by auto
    then show ?thesis by (elim disjE) simp_all
  qed
  ultimately show ?thesis
    using clust_clear_zeroes [OF cache_ok_sample, where p = 1 and c = 5] by simp
qed

end
