(* ===== verification/Fat_File_Correct.thy ===== *)
theory Fat_File_Correct
  imports Fat_Sample
begin

unbundle bit_operations_syntax

section \<open>FAT32: what reading and writing an open file do\<close>

text \<open>
  The file's one-sector buffer while the position stays inside a sector, and a file that is
  empty, whose writes are lost.
\<close>

text \<open>An open file at a position of its data: the buffer holds the sector at the position.\<close>

definition file_at :: "'d fs \<Rightarrow> bool" where
  "file_at s \<longleftrightarrow> (let f = cfile s; F = fats s (fl_fat f) in
     fl_fat f \<noteq> 0 \<and> fl_sclust f \<noteq> 0 \<and> fl_size f \<noteq> 0 \<and> length (fl_buf f) = 512 \<and> f_clust_shift F \<le> 7 \<and>
     fl_sect f = clust_to_sect F (fl_clust f) + ((fl_offset f div 512) AND f_clust_msk F))"

definition file_move :: "u32 \<Rightarrow> 'd fs \<Rightarrow> 'd fs" where
  "file_move off s = s\<lparr>cfile := (cfile s)\<lparr>fl_offset := off\<rparr>\<rparr>"

lemma same_cluster:
  fixes x y :: u32
  assumes "unat x div 512 = unat y div 512" and "k \<le> 7"
  shows "x div push_bit k 512 = y div push_bit k 512" "push_bit k (512 :: u32) \<noteq> 0" "x div 512 = y div 512"
proof -
  have "k = 0 \<or> k = 1 \<or> k = 2 \<or> k = 3 \<or> k = 4 \<or> k = 5 \<or> k = 6 \<or> k = 7" using assms(2) by arith
  then have c: "unat (push_bit k (512 :: u32)) = 512 * 2 ^ k" by (elim disjE) simp_all
  have "unat (x div push_bit k 512) = unat x div 512 div 2 ^ k" by (simp add: unat_div c div_mult2_eq)
  moreover have "unat (y div push_bit k 512) = unat y div 512 div 2 ^ k" by (simp add: unat_div c div_mult2_eq)
  ultimately show "x div push_bit k 512 = y div push_bit k 512" using assms(1) by (simp add: word_unat_eq_iff)
  show "push_bit k (512 :: u32) \<noteq> 0" using c by (metis mult_is_0 power_not_zero unat_0 zero_neq_numeral)
  show "x div 512 = y div 512" using assms(1) by (simp add: word_unat_eq_iff unat_div)
qed

lemma wp_seek_within:
  assumes s: "file_at s" and off: "int (unat off) = uint (fl_offset (cfile s)) + d"
    and sect: "unat off div 512 = unat (fl_offset (cfile s)) div 512"
    and Q: "file_at (file_move off s) \<Longrightarrow> Q () (file_move off s)"
  shows "wp (fat_file_seek d FAT_SEEK_CURR) Q E s"
proof -
  let ?f = "cfile s" and ?F = "fats s (fl_fat (cfile s))"
  have k: "unat (f_clust_shift ?F) \<le> 7" using s by (simp add: file_at_def Let_def word_le_nat_alt)
  note c = same_cluster [OF sect k]
  have o: "of_int (uint (fl_offset ?f) + d) = off" unfolding off [symmetric] by simp
  have range: "\<not> (uint (fl_offset ?f) + d < 0 \<or> 0xffffffff < uint (fl_offset ?f) + d)"
    unfolding off [symmetric] using unsigned_less [of off, where 'a = int] by simp
  have "file_at (file_move off s)" using s c(3) by (simp add: file_at_def file_move_def Let_def)
  then have "Q () (s\<lparr>cfile := ?f\<lparr>fl_offset := off\<rparr>\<rparr>)" using Q by (simp add: file_move_def)
  moreover have sect: "clust_to_sect ?F (fl_clust ?f) + ((off div 512) AND f_clust_msk ?F) = fl_sect ?f"
    using s c(3) by (simp add: file_at_def Let_def)
  moreover have "loop seek_step 0 = (ret () :: ('a fs, unit) cm)"
    by (subst loop_unfold) (simp add: seek_step_def seq_def ret_def)
  moreover have "fl_fat ?f \<noteq> 0" "fl_sclust ?f \<noteq> 0" "fl_size ?f \<noteq> 0" using s by (simp_all add: file_at_def Let_def)
  ultimately show ?thesis
    using c(1,2) o range
    by (simp add: sect fat_file_seek_def file_switch_def getFl_def setFl_def getF_def wp_simps Let_def seek_base_def)
qed


text \<open>A write that ends inside the sector.\<close>

lemma file_write_flags:
  "file_at (s\<lparr>cfile := (cfile s)\<lparr>fl_flags := x\<rparr>\<rparr>) = file_at s"
  "length b = 512 \<Longrightarrow> file_at s \<Longrightarrow> file_at (s\<lparr>cfile := (cfile s)\<lparr>fl_buf := b, fl_flags := x\<rparr>\<rparr>)"
  "fl_size (cfile s) \<le> z \<Longrightarrow> file_at s \<Longrightarrow> file_at (s\<lparr>cfile := (cfile s)\<lparr>fl_size := z\<rparr>\<rparr>)"
  by (auto simp: file_at_def Let_def word_le_nat_alt unat_eq_0)

text \<open>The state after a write of \<open>data\<close> inside the sector.\<close>

definition file_put :: "bytes \<Rightarrow> 'd fs \<Rightarrow> 'd fs" where
  "file_put data s = (let f = cfile s; off = fl_offset f + of_nat (length data) in
     s\<lparr>cfile := f\<lparr>fl_buf := splice (fl_buf f) (unat (fl_offset f mod 512)) data,
       fl_flags := fl_flags f OR (FAT_MODIFIED OR FAT_ACCESSED) OR FAT_FILE_DIRTY, fl_offset := off,
       fl_size := (if fl_size f < off then off else fl_size f)\<rparr>\<rparr>)"

lemma offset_add:
  fixes x :: u32
  assumes "unat x mod 512 + n < 512"
  shows "unat (x + of_nat n) = unat x + n" "unat (x + of_nat n) div 512 = unat x div 512"
    "unat (x + of_nat n) mod 512 = unat x mod 512 + n"
proof -
  define q r where "q = unat x div 512" and "r = unat x mod 512"
  have x: "unat x = 512 * q + r" by (simp add: q_def r_def)
  have "q < 8388608" using u32_less [of x] by (simp add: q_def less_mult_imp_div_less)
  then have "unat x + n < 4294967296" using assms x r_def by linarith
  then show u: "unat (x + of_nat n) = unat x + n" by (simp add: unat_word_ariths unat_of_nat)
  have "(512 * q + (r + n)) div 512 = q" "(512 * q + (r + n)) mod 512 = r + n" using assms by (simp_all add: r_def)
  then show "unat (x + of_nat n) div 512 = unat x div 512" "unat (x + of_nat n) mod 512 = unat x mod 512 + n"
    unfolding u q_def [symmetric] r_def [symmetric] by (simp_all add: x add.assoc)
qed

lemma wp_file_write_step:
  assumes "src \<noteq> []" and "unat (fl_offset (cfile s) mod 512) + length src < 512"
  shows "wp (file_write_step (src, 0)) R E s = wp (catch (fat_file_seek (int (length src)) FAT_SEEK_CURR))
    (\<lambda>r. wp (case r of Inl e \<Rightarrow> ret (Inr (length src)) | Inr _ \<Rightarrow> ret (Inl ([], length src))) R E) E
    (s\<lparr>cfile := (cfile s)\<lparr>fl_buf := splice (fl_buf (cfile s)) (unat (fl_offset (cfile s) mod 512)) src,
       fl_flags := fl_flags (cfile s) OR FAT_FILE_DIRTY\<rparr>\<rparr>)"
proof -
  have "min (length src) (512 - unat (fl_offset (cfile s) mod 512)) = length src" using assms(2) by simp
  then show ?thesis
    using assms(1)
    by (simp add: file_write_step_def getFl_def setFl_def wp_seq_fun wp_reads wp_modify Let_def cong del: sum.case_cong_weak)
qed

lemma wp_file_write_within:
  assumes s: "file_at s" and fl: "fl_flags (cfile s) AND FAT_WRITE \<noteq> 0" and len: "data \<noteq> []"
    "unat (fl_offset (cfile s)) mod 512 + length data < 512"
    and Q: "file_at (file_put data s) \<Longrightarrow> Q (FAT_ERR_NONE, length data) (file_put data s)"
  shows "wp (fat_file_write data) Q E s"
proof -
  let ?f = "cfile s" and ?n = "length data"
  let ?off = "fl_offset ?f + of_nat ?n" and ?i = "unat (fl_offset ?f mod 512)"
  note o = offset_add [OF len(2)]
  have i: "?i + ?n < 512" using len(2) by (simp add: unat_mod)
  let ?s1 = "s\<lparr>cfile := ?f\<lparr>fl_flags := fl_flags ?f OR (FAT_MODIFIED OR FAT_ACCESSED)\<rparr>\<rparr>"
  let ?s2 = "s\<lparr>cfile := ?f\<lparr>fl_buf := splice (fl_buf ?f) ?i data, fl_flags := fl_flags ?f OR (FAT_MODIFIED OR FAT_ACCESSED) OR FAT_FILE_DIRTY\<rparr>\<rparr>"
  have "length (fl_buf ?f) = 512" using s by (simp add: file_at_def Let_def)
  then have s2: "file_at ?s2" using s i by (intro file_write_flags(2)) simp_all
  have put: "file_put data s = (file_move ?off ?s2)\<lparr>cfile := (cfile (file_move ?off ?s2))
      \<lparr>fl_size := (if fl_size ?f < ?off then ?off else fl_size ?f)\<rparr>\<rparr>"
    by (simp add: file_put_def file_move_def Let_def)
  have "wp (fat_file_seek (int ?n) FAT_SEEK_CURR) (\<lambda>_. wp (loop file_write_step ([], ?n))
      (\<lambda>n. wp (setFl (\<lambda>f. if fl_size f < fl_offset f then f\<lparr>fl_size := fl_offset f\<rparr> else f)) (\<lambda>_. Q (FAT_ERR_NONE, n)) E) E)
      (\<lambda>_ _. False) ?s2" (is "wp _ (\<lambda>_. wp _ ?W E) _ _")
  proof (rule wp_seek_within [OF s2])
    assume "file_at (file_move ?off ?s2)"
    then have "file_at (file_put data s)" unfolding put by (intro file_write_flags(3)) (auto simp: file_move_def)
    then have "Q (FAT_ERR_NONE, ?n) (file_put data s)" by (rule Q)
    then show "wp (loop file_write_step ([], ?n)) (\<lambda>n. wp (setFl (\<lambda>f. if fl_size f < fl_offset f
        then f\<lparr>fl_size := fl_offset f\<rparr> else f)) (\<lambda>_. Q (FAT_ERR_NONE, n)) E) E (file_move ?off ?s2)"
      by (subst loop_unfold) (auto simp: file_write_step_def setFl_def wp_simps file_move_def file_put_def Let_def)
  qed (use o in simp_all)
  then have "wp (catch (fat_file_seek (int ?n) FAT_SEEK_CURR))
      (\<lambda>r. wp (case r of Inl e \<Rightarrow> ret (Inr ?n) | Inr _ \<Rightarrow> ret (Inl ([], ?n)))
        (\<lambda>y. case y of Inl x \<Rightarrow> wp (loop file_write_step x) ?W E | Inr n \<Rightarrow> ?W n) E) E ?s2"
    unfolding wp_catch by (rule wp_conseq) (simp_all add: wp_ret)
  then have "wp (loop file_write_step (data, 0)) ?W E ?s1"
    using len(1) i by (subst wp_round, subst wp_file_write_step) (simp_all add: or.assoc)
  moreover have "fl_fat ?f \<noteq> 0" using s by (simp add: file_at_def Let_def)
  ultimately show ?thesis using fl by (simp add: fat_file_write_def getFl_def setFl_def wp_seq_fun wp_reads wp_modify wp_ret)
qed


text \<open>A read that ends inside the sector.\<close>

definition file_got :: "nat \<Rightarrow> 'd fs \<Rightarrow> 'd fs" where
  "file_got n s = (let f = cfile s in
     s\<lparr>cfile := f\<lparr>fl_flags := fl_flags f OR FAT_ACCESSED, fl_offset := fl_offset f + of_nat n\<rparr>\<rparr>)"

lemma wp_file_read_within:
  assumes s: "file_at s" and fl: "fl_flags (cfile s) AND FAT_READ \<noteq> 0" and n: "n \<noteq> 0"
    "unat (fl_offset (cfile s)) mod 512 + n < 512" and size: "unat (fl_offset (cfile s)) + n \<le> unat (fl_size (cfile s))"
    "unat (fl_size (cfile s)) < 2 ^ 31"
    and Q: "Q (FAT_ERR_NONE, slice (fl_buf (cfile s)) (unat (fl_offset (cfile s) mod 512)) n) (file_got n s)"
  shows "wp (fat_file_read (int n)) Q E s"
proof -
  let ?f = "cfile s" and ?i = "unat (fl_offset (cfile s) mod 512)"
  let ?s1 = "s\<lparr>cfile := ?f\<lparr>fl_flags := fl_flags ?f OR FAT_ACCESSED\<rparr>\<rparr>"
  let ?out = "slice (fl_buf ?f) ?i n"
  note o = offset_add [OF n(2)]
  have s1: "file_at ?s1" using s by (simp add: file_write_flags(1))
  define m where "m = unat (fl_size ?f) - unat (fl_offset ?f)"
  have "fl_size ?f - fl_offset ?f = word_of_int (int m)"
    using size(1) by (simp add: m_def of_nat_diff)
  moreover have "sint (word_of_int (int m) :: u32) = int m" unfolding int_word_sint using size(2) by (simp add: m_def)
  ultimately have "sint (fl_size ?f - fl_offset ?f) = int (unat (fl_size ?f) - unat (fl_offset ?f))" by (simp add: m_def)
  then have "int n \<le> sint (fl_size ?f - fl_offset ?f)" using size(1) by linarith
  moreover have "uint (fl_offset ?f mod 512) = int (unat (fl_offset ?f) mod 512)" by (simp add: uint_mod zmod_int)
  then have "int n \<le> 512 - uint (fl_offset ?f mod 512)" using n(2) by linarith
  ultimately have cnt: "min (int n) (min (512 - uint (fl_offset ?f mod 512)) (sint (fl_size ?f - fl_offset ?f))) = int n"
    by linarith
  have less: "fl_offset ?f < fl_size ?f" using size(1) n(1) by (simp add: word_less_nat_alt)
  have "wp (fat_file_seek (int n) FAT_SEEK_CURR) (\<lambda>_. wp (loop file_read_step (0, ?out)) Q E) (\<lambda>_ _. False) ?s1"
  proof (rule wp_seek_within [OF s1])
    show "wp (loop file_read_step (0, ?out)) Q E (file_move (fl_offset ?f + of_nat n) ?s1)"
      using Q by (subst wp_round) (simp add: file_read_step_def getFl_def wp_simps file_move_def file_got_def Let_def)
  qed (use o in simp_all)
  then have "wp (catch (fat_file_seek (int n) FAT_SEEK_CURR))
      (\<lambda>r. wp (case r of Inl e \<Rightarrow> ret (Inr (e, ?out)) | Inr _ \<Rightarrow> ret (Inl (0, ?out)))
        (\<lambda>y. case y of Inl x \<Rightarrow> wp (loop file_read_step x) Q E | Inr v \<Rightarrow> Q v) E) E ?s1"
    unfolding wp_catch by (rule wp_conseq) (simp_all add: wp_ret)
  moreover have "wp (file_read_step (int n, [])) R E ?s1 = wp (catch (fat_file_seek (int n) FAT_SEEK_CURR))
      (\<lambda>r. wp (case r of Inl e \<Rightarrow> ret (Inr (e, ?out)) | Inr _ \<Rightarrow> ret (Inl (0, ?out))) R E) E ?s1" for R
    using n(1) cnt less by (simp add: file_read_step_def getFl_def wp_seq_fun wp_reads Let_def)
  ultimately have "wp (loop file_read_step (int n, [])) Q E ?s1" by (subst wp_round) simp
  moreover have "fl_fat ?f \<noteq> 0" using s by (simp add: file_at_def Let_def)
  ultimately show ?thesis using fl by (simp add: fat_file_read_def getFl_def setFl_def wp_seq_fun wp_reads wp_modify)
qed


subsection \<open>Properties\<close>

lemma or_and_nonzero: "x AND m \<noteq> 0 \<Longrightarrow> (x OR y) AND m \<noteq> (0 :: 'a::len word)"
  by (metis bit.conj_disj_distrib2 or_eq_0_iff)

text \<open>C9: a write of some bytes that ends inside the sector of the position, a seek back by their number, and a
  read of as many return no error and the bytes written; the position and the size of the file are
  advanced as they should be, the rest of the sector's buffer is as it was, and neither the disk nor the
  volume's buffer is touched. The file is not empty (see below), open for reading and writing, its
  position and size stay below 2 GiB, and the bytes written end before the end of the sector.\<close>

theorem file_write_read_back:
  assumes "file_at s" and "fl_flags (cfile s) AND FAT_WRITE \<noteq> 0" and "fl_flags (cfile s) AND FAT_READ \<noteq> 0"
    and "data \<noteq> []" and "unat (fl_offset (cfile s)) mod 512 + length data < 512"
    and "unat (fl_offset (cfile s)) + length data < 2 ^ 31" and "unat (fl_size (cfile s)) < 2 ^ 31"
  shows "wp (seq (fat_file_write data) (\<lambda>w. seq (fat_file_seek (- int (length data)) FAT_SEEK_CURR) (\<lambda>_.
      seq (fat_file_read (int (length data))) (\<lambda>r. ret (w, r))))) (\<lambda>(w, r) s'.
      w = (FAT_ERR_NONE, length data) \<and> r = (FAT_ERR_NONE, data) \<and>
      unat (fl_offset (cfile s')) = unat (fl_offset (cfile s)) + length data \<and>
      unat (fl_size (cfile s')) = max (unat (fl_size (cfile s))) (unat (fl_offset (cfile s)) + length data) \<and>
      fl_buf (cfile s') = splice (fl_buf (cfile s)) (unat (fl_offset (cfile s) mod 512)) data \<and>
      dev s' = dev s \<and> fats s' = fats s) (\<lambda>_ _. False) s"
  (is "wp _ ?P ?E s")
  unfolding wp_seq_fun
proof (rule wp_file_write_within [OF assms(1,2,4,5)])
  let ?off = "fl_offset (cfile s)" and ?n = "length data"
  let ?s1 = "file_put data s" and ?s2 = "file_move ?off (file_put data s)"
  note o = offset_add [OF assms(5)]
  have buf: "length (fl_buf (cfile s)) = 512" using assms(1) by (simp add: file_at_def Let_def)
  have i: "unat (?off mod 512) + ?n < 512" using assms(5) by (simp add: unat_mod)
  have size: "unat (fl_size (cfile ?s1)) = max (unat (fl_size (cfile s))) (unat ?off + ?n)"
    using o(1) by (auto simp: file_put_def Let_def word_less_nat_alt max_def)
  assume s1: "file_at ?s1"
  show "wp (fat_file_seek (- int ?n) FAT_SEEK_CURR) (\<lambda>_. wp (fat_file_read (int ?n)) (\<lambda>r. wp (ret ((FAT_ERR_NONE, ?n), r)) ?P ?E) ?E) ?E ?s1"
  proof (rule wp_seek_within [OF s1])
    have off1: "fl_offset (cfile ?s1) = ?off + of_nat ?n" by (simp add: file_put_def Let_def)
    show "int (unat ?off) = uint (fl_offset (cfile ?s1)) + - int ?n"
      unfolding off1 using arg_cong [OF o(1), of int] by simp
    show "unat ?off div 512 = unat (fl_offset (cfile ?s1)) div 512" unfolding off1 using o(2) by simp
    assume s2: "file_at ?s2"
    show "wp (fat_file_read (int ?n)) (\<lambda>r. wp (ret ((FAT_ERR_NONE, ?n), r)) ?P ?E) ?E ?s2"
    proof (rule wp_file_read_within [OF s2])
      show "fl_flags (cfile ?s2) AND FAT_READ \<noteq> 0"
        using or_and_nonzero [OF assms(3)] by (simp add: file_move_def file_put_def Let_def or.assoc)
      show "unat (fl_offset (cfile ?s2)) + ?n \<le> unat (fl_size (cfile ?s2))"
        using size by (simp add: file_move_def)
      show "unat (fl_size (cfile ?s2)) < 2 ^ 31" using size assms(6,7) by (simp add: file_move_def)
    qed (use assms(4,5) o i buf size in \<open>simp_all add: wp_ret file_move_def file_got_def file_put_def Let_def slice_splice_same\<close>)
  qed
qed


text \<open>C10: to a file of size 0, such as one that has just been created or truncated, nothing is ever written:
  \<open>fat_file_write\<close> reports success and every byte as written, and leaves the size 0, the position at the
  start, and the disk as it was. (\<open>fat_file_seek\<close> takes the empty file for one without clusters.)
  This is not what the comment on \<open>fat_file_write\<close> promises: that it allocates the clusters it
  needs and returns the number of bytes written.\<close>

theorem file_write_empty_lost:
  fixes s :: "'d fs"
  assumes "fl_fat (cfile s) \<noteq> 0" and "fl_flags (cfile s) AND FAT_WRITE \<noteq> 0"
    and "fl_size (cfile s) = 0" and "fl_offset (cfile s) = 0"
  shows "wp (fat_file_write data) (\<lambda>r s'. r = (FAT_ERR_NONE, length data) \<and>
      fl_size (cfile s') = 0 \<and> fl_offset (cfile s') = 0 \<and> dev s' = dev s \<and> fats s' = fats s) (\<lambda>_ _. False) s"
proof -
  let ?s1 = "s\<lparr>cfile := (cfile s)\<lparr>fl_flags := fl_flags (cfile s) OR (FAT_MODIFIED OR FAT_ACCESSED)\<rparr>\<rparr>"
  let ?I = "\<lambda>t :: 'd fs. fl_fat (cfile t) \<noteq> 0 \<and> fl_size (cfile t) = 0 \<and> fl_offset (cfile t) = 0 \<and> dev t = dev s \<and> fats t = fats s"
  have "wp (loop file_write_step (data, 0)) (\<lambda>n t. n = length data \<and> ?I t) (\<lambda>_ _. False) ?s1"
  proof (rule wp_loop [where I = "\<lambda>(src, n) t. n + length src = length data \<and> ?I t" and m = "\<lambda>(src, n) _. length src"])
    fix x :: "bytes \<times> nat" and t :: "'d fs" assume I: "(\<lambda>(src, n) t. n + length src = length data \<and> ?I t) x t"
    obtain src n where x: "x = (src, n)" by (cases x)
    let ?c = "min (length src) 512"
    let ?t = "\<lambda>b. t\<lparr>cfile := (cfile t)\<lparr>fl_buf := b, fl_flags := fl_flags (cfile t) OR FAT_FILE_DIRTY\<rparr>\<rparr>"
    have seek: "wp (fat_file_seek (int ?c) FAT_SEEK_CURR) (\<lambda>_ u. ?I u) (\<lambda>_ _. False) (?t b)" for b
      using I by (simp add: x fat_file_seek_def getFl_def setFl_def wp_simps seek_base_def Let_def)
    show "wp (file_write_step x) (\<lambda>y s'. case y of Inl x' \<Rightarrow> (\<lambda>(src, n) t. n + length src = length data \<and> ?I t) x' s' \<and>
        (\<lambda>(src, n) _. length src) x' s' < (\<lambda>(src, n) _. length src) x t | Inr v \<Rightarrow> v = length data \<and> ?I s') (\<lambda>_ _. False) t"
    proof (cases "src = []")
      case True
      then show ?thesis using I by (simp add: x file_write_step_def wp_ret)
    next
      case False
      have "wp (catch (fat_file_seek (int ?c) FAT_SEEK_CURR)) (\<lambda>r. wp (case r of Inl err \<Rightarrow> ret (Inr (n + ?c))
          | Inr _ \<Rightarrow> ret (Inl (drop ?c src, n + ?c))) (\<lambda>y s'. case y of Inl x' \<Rightarrow> (\<lambda>(src, n) t. n + length src = length data \<and> ?I t) x' s' \<and>
        (\<lambda>(src, n) _. length src) x' s' < (\<lambda>(src, n) _. length src) x t | Inr v \<Rightarrow> v = length data \<and> ?I s') (\<lambda>_ _. False)) (\<lambda>_ _. False) (?t b)" for b
        unfolding wp_catch by (rule wp_conseq [OF seek]) (use I False in \<open>auto simp: x wp_ret\<close>)
      then show ?thesis using False I
        by (simp add: x file_write_step_def getFl_def setFl_def wp_seq_fun wp_reads wp_modify Let_def cong del: sum.case_cong_weak)
    qed
  qed (use assms in simp)
  then have "wp (loop file_write_step (data, 0)) (\<lambda>n. wp (setFl (\<lambda>f. if fl_size f < fl_offset f then f\<lparr>fl_size := fl_offset f\<rparr> else f))
      (\<lambda>_ s'. n = length data \<and> fl_size (cfile s') = 0 \<and> fl_offset (cfile s') = 0 \<and> dev s' = dev s \<and> fats s' = fats s) (\<lambda>_ _. False))
      (\<lambda>_ _. False) ?s1"
    by (rule wp_conseq) (simp_all add: setFl_def wp_modify)
  then show ?thesis
    using assms(1,2) by (simp add: fat_file_write_def getFl_def setFl_def wp_seq_fun wp_reads wp_modify wp_ret)
qed


definition file_sample :: "ram fs" where
  "file_sample = sample\<lparr>cfile := sample_file\<lparr>fl_sclust := 3, fl_clust := 3, fl_sect := 36, fl_size := 100, fl_offset := 10,
     fl_flags := FAT_WRITE OR FAT_READ, fl_buf := replicate 512 0\<rparr>\<rparr>"

lemma file_sample_at: "file_at file_sample" "fl_flags (cfile file_sample) = 0x03" "fl_offset (cfile file_sample) = 10"
  "fl_size (cfile file_sample) = 100" "fl_buf (cfile file_sample) = replicate 512 0"
  by (simp_all add: file_at_def file_sample_def sample_defs clust_to_sect_def Let_def)


lemma file_write_read_back_witness:
  "wp (seq (fat_file_write [0x68, 0x69]) (\<lambda>w. seq (fat_file_seek (- 2) FAT_SEEK_CURR) (\<lambda>_.
      seq (fat_file_read 2) (\<lambda>r. ret (w, r))))) (\<lambda>(w, r) s'.
      w = (FAT_ERR_NONE, 2) \<and> r = (FAT_ERR_NONE, [0x68, 0x69]) \<and> unat (fl_offset (cfile s')) = 12 \<and>
      unat (fl_size (cfile s')) = 100 \<and> dev s' = sample_disk) (\<lambda>_ _. False) file_sample"
proof -
  have d: "dev file_sample = sample_disk" by (simp add: file_sample_def)
  have "fl_flags (cfile file_sample) AND FAT_WRITE \<noteq> 0" "fl_flags (cfile file_sample) AND FAT_READ \<noteq> 0"
    "[0x68, 0x69] \<noteq> ([] :: bytes)" "unat (fl_offset (cfile file_sample)) mod 512 + length [0x68, 0x69 :: u8] < 512"
    "unat (fl_offset (cfile file_sample)) + length [0x68, 0x69 :: u8] < 2 ^ 31" "unat (fl_size (cfile file_sample)) < 2 ^ 31"
    by (simp_all add: file_sample_at)
  from file_write_read_back [OF file_sample_at(1) this] show ?thesis
    by (simp add: file_sample_at d) (erule wp_conseq, auto)
qed

lemma file_write_empty_lost_witness:
  "wp (fat_file_write (replicate 600 0x61)) (\<lambda>r s'. r = (FAT_ERR_NONE, 600) \<and> fl_size (cfile s') = 0 \<and>
      dev s' = sample_disk) (\<lambda>_ _. False) sample"
proof -
  have "fl_fat (cfile sample) \<noteq> 0" "fl_flags (cfile sample) AND FAT_WRITE \<noteq> 0" "fl_size (cfile sample) = 0"
    "fl_offset (cfile sample) = 0" by (simp_all add: sample_defs)
  from file_write_empty_lost [OF this, of "replicate 600 0x61"] show ?thesis by (rule wp_conseq) auto
qed

end
