(* ===== verification/Interfaces.thy ===== *)
theory Interfaces
  imports Prelude "HOL-Library.Sublist"
begin

section \<open>The interfaces the kernel's components offer each other\<close>

text \<open>
  Three contracts, each a locale with the operations a client calls and the laws their
  provider keeps; the clients' facts are proved here once. A bounded FIFO is offered by the
  keyboard buffer, a store of cells by the frame bitmap and the VGA memory, an allocator by the
  frame allocator and the kernel heap.
\<close>

subsection \<open>A bounded FIFO that drops what does not fit\<close>

datatype 'a queue_op = Enq 'a | Deq

primrec enqueued :: "'a queue_op list \<Rightarrow> 'a list" where
  "enqueued [] = []"
| "enqueued (c # cs) = (case c of Enq x \<Rightarrow> x # enqueued cs | Deq \<Rightarrow> enqueued cs)"

locale bounded_fifo =
  fixes inv :: "'q \<Rightarrow> bool"
    and contents :: "'q \<Rightarrow> 'a list"
    and enq :: "'a \<Rightarrow> 'q \<Rightarrow> 'q"
    and deq :: "'q \<Rightarrow> ('a \<times> 'q) option"
    and capacity :: nat
  assumes inv_enq: "inv q \<Longrightarrow> inv (enq x q)"
    and contents_enq: "inv q \<Longrightarrow> contents (enq x q) =
      (if length (contents q) < capacity then contents q @ [x] else contents q)"
    and deq_empty: "inv q \<Longrightarrow> contents q = [] \<Longrightarrow> deq q = None"
    and deq_some: "inv q \<Longrightarrow> contents q = x # xs \<Longrightarrow>
      \<exists>q'. deq q = Some (x, q') \<and> inv q' \<and> contents q' = xs"
    and fits: "inv q \<Longrightarrow> length (contents q) \<le> capacity"
begin

primrec run :: "'a queue_op list \<Rightarrow> 'q \<Rightarrow> 'a list \<times> 'q" where
  "run [] q = ([], q)"
| "run (c # cs) q = (case c of
     Enq x \<Rightarrow> run cs (enq x q)
   | Deq \<Rightarrow> (case deq q of None \<Rightarrow> run cs q
       | Some (x, q') \<Rightarrow> (case run cs q' of (ys, q'') \<Rightarrow> (x # ys, q''))))"

lemma deq_cases:
  assumes "inv q"
  obtains "deq q = None" "contents q = []"
  | x xs q' where "deq q = Some (x, q')" "inv q'" "contents q = x # xs" "contents q' = xs"
  using assms deq_empty deq_some by (metis list.exhaust)

lemma run_inv: "inv q \<Longrightarrow> inv (snd (run cs q))"
proof (induction cs arbitrary: q)
  case (Cons c cs)
  show ?case
  proof (cases c)
    case (Enq x)
    then show ?thesis using Cons by (simp add: inv_enq)
  next
    case Deq
    from Cons.prems show ?thesis
      by (rule deq_cases) (use Deq Cons.IH Cons.prems in \<open>auto split: prod.split\<close>,
        metis snd_conv)
  qed
qed simp

text \<open>What comes out, and what is still inside, is what was put in, in order, less what was
  dropped; nothing is dropped while there is room.\<close>

lemma run_order: "inv q \<Longrightarrow> subseq (fst (run cs q) @ contents (snd (run cs q))) (contents q @ enqueued cs)"
proof (induction cs arbitrary: q)
  case (Cons c cs)
  show ?case
  proof (cases c)
    case (Enq x)
    have "subseq (fst (run cs (enq x q)) @ contents (snd (run cs (enq x q)))) (contents (enq x q) @ enqueued cs)"
      using Cons by (simp add: inv_enq)
    moreover have "subseq (contents (enq x q) @ enqueued cs) (contents q @ x # enqueued cs)"
      using Cons.prems by (simp add: contents_enq list_emb_append_mono subseq_Cons')
    ultimately show ?thesis using Enq subseq_order.trans by auto
  next
    case Deq
    from Cons.prems show ?thesis
    proof (rule deq_cases)
      fix x xs q' assume "deq q = Some (x, q')" "inv q'" "contents q = x # xs" "contents q' = xs"
      then show ?thesis using Deq Cons.IH [of q'] by (auto split: prod.split)
    qed (use Deq Cons.IH [OF Cons.prems] in simp)
  qed
qed simp

lemma run_lossless:
  "inv q \<Longrightarrow> length (contents q) + length (enqueued cs) \<le> capacity \<Longrightarrow>
   fst (run cs q) @ contents (snd (run cs q)) = contents q @ enqueued cs"
proof (induction cs arbitrary: q)
  case (Cons c cs)
  show ?case
  proof (cases c)
    case (Enq x)
    then show ?thesis using Cons by (simp add: inv_enq contents_enq)
  next
    case Deq
    from Cons.prems(1) show ?thesis
    proof (rule deq_cases)
      fix x xs q' assume "deq q = Some (x, q')" "inv q'" "contents q = x # xs" "contents q' = xs"
      then show ?thesis using Deq Cons.IH [of q'] Cons.prems(2) by (auto split: prod.split)
    qed (use Deq Cons in simp)
  qed
qed simp

end

subsection \<open>A store of cells\<close>

locale cell_store =
  fixes inv :: "'s \<Rightarrow> bool"
    and valid :: "'k \<Rightarrow> bool"
    and get :: "'s \<Rightarrow> 'k \<Rightarrow> 'v"
    and put :: "'k \<Rightarrow> 'v \<Rightarrow> 's \<Rightarrow> 's"
  assumes inv_put: "inv s \<Longrightarrow> valid k \<Longrightarrow> inv (put k v s)"
    and get_put_same: "inv s \<Longrightarrow> valid k \<Longrightarrow> get (put k v s) k = v"
    and get_put_other: "inv s \<Longrightarrow> valid k \<Longrightarrow> valid j \<Longrightarrow> j \<noteq> k \<Longrightarrow> get (put k v s) j = get s j"
begin

lemma get_put: "inv s \<Longrightarrow> valid k \<Longrightarrow> valid j \<Longrightarrow> get (put k v s) j = (if j = k then v else get s j)"
  by (simp add: get_put_same get_put_other)

text \<open>A run of stores leaves each cell with the last value stored to it.\<close>

definition puts :: "('k \<times> 'v) list \<Rightarrow> 's \<Rightarrow> 's" where
  "puts kvs s = fold (\<lambda>(k, v). put k v) kvs s"

lemma puts_simps [simp]:
  "puts [] s = s" "puts ((k, v) # kvs) s = puts kvs (put k v s)"
  by (simp_all add: puts_def)

lemma inv_puts: "inv s \<Longrightarrow> (\<And>k. k \<in> fst ` set kvs \<Longrightarrow> valid k) \<Longrightarrow> inv (puts kvs s)"
  by (induction kvs arbitrary: s) (auto simp: inv_put)

lemma get_puts:
  "inv s \<Longrightarrow> (\<And>k. k \<in> fst ` set kvs \<Longrightarrow> valid k) \<Longrightarrow> valid j \<Longrightarrow>
   get (puts kvs s) j = (case map_of (rev kvs) j of None \<Rightarrow> get s j | Some v \<Rightarrow> v)"
proof (induction kvs arbitrary: s)
  case (Cons kv kvs)
  obtain k v where kv: "kv = (k, v)" by (cases kv)
  with Cons.prems have "valid k" by auto
  then show ?case
    using Cons kv by (auto simp: inv_put get_put map_add_def split: option.splits)
qed simp

lemma get_puts_const:
  assumes "inv s" and "\<And>k. k \<in> set ks \<Longrightarrow> valid k" and "valid j"
  shows "get (puts (map (\<lambda>k. (k, v)) ks) s) j = (if j \<in> set ks then v else get s j)"
  using assms(1,2)
proof (induction ks arbitrary: s)
  case (Cons k ks)
  then show ?case using assms(3) by (auto simp: inv_put get_put)
qed simp

end

subsection \<open>An allocator\<close>

text \<open>
  \<open>alloc r\<close> answers a request of size \<open>r\<close>; \<open>used\<close> are the blocks handed out. A client that
  frees only blocks it holds never holds a block twice, and never one that others hold.
\<close>

datatype ('r, 'b) alloc_op = Alloc 'r | Free 'b

locale allocator =
  fixes inv :: "'s \<Rightarrow> bool"
    and used :: "'s \<Rightarrow> 'b set"
    and alloc :: "'r \<Rightarrow> 's \<Rightarrow> ('b \<times> 's) option"
    and free :: "'b \<Rightarrow> 's \<Rightarrow> 's"
  assumes alloc_some: "inv s \<Longrightarrow> alloc r s = Some (b, s') \<Longrightarrow>
      inv s' \<and> b \<notin> used s \<and> used s' = insert b (used s)"
    and free_used: "inv s \<Longrightarrow> b \<in> used s \<Longrightarrow> inv (free b s) \<and> used (free b s) = used s - {b}"
begin

text \<open>A run of a client that holds \<open>hs\<close>: a failed request and the release of a block that is
  not held are no steps.\<close>

fun serve :: "('r, 'b) alloc_op \<Rightarrow> 'b list \<times> 's \<Rightarrow> 'b list \<times> 's" where
  "serve (Alloc r) (hs, s) = (case alloc r s of None \<Rightarrow> (hs, s) | Some (b, s') \<Rightarrow> (b # hs, s'))"
| "serve (Free b) (hs, s) = (if b \<in> set hs then (remove1 b hs, free b s) else (hs, s))"

definition safe :: "'b set \<Rightarrow> 'b list \<times> 's \<Rightarrow> bool" where
  "safe others x \<longleftrightarrow> inv (snd x) \<and> distinct (fst x) \<and> set (fst x) \<inter> others = {} \<and>
     used (snd x) = set (fst x) \<union> others"

lemma safe_serve: "safe others x \<Longrightarrow> safe others (serve c x)"
proof (induction c x rule: serve.induct)
  case (1 r hs s)
  then show ?case
    using alloc_some [of s r] by (fastforce simp: safe_def split: option.splits)
next
  case (2 b hs s)
  then show ?case
    using free_used [of s b] by (auto simp: safe_def)
qed

lemma safe_run: "safe others x \<Longrightarrow> safe others (fold serve cs x)"
  by (induction cs arbitrary: x) (simp_all add: safe_serve)

end

end
