(* ===== verification/Pmm.thy ===== *)
theory Pmm
  imports CMonad Interfaces
begin

unbundle bit_operations_syntax

section \<open>The physical frame allocator (mm/pmm.c)\<close>

text \<open>
  One bit per 4 KiB frame of the first GiB, set when the frame is taken. The models have the
  effects of the C code on the four static variables; an access past the end of the bitmap
  is \<open>undef\<close>. A frame address is the pointer the code hands out, 0 the null pointer.
\<close>

subsection \<open>The code\<close>

record Pmm =
  frame_bitmap :: bytes
  total_frames :: u32
  free_frames :: u32
  first_frame :: u32

definition BITMAP_SIZE :: nat where "BITMAP_SIZE = 32768"

text \<open>The bit of a frame in the bitmap: test, set, clear.\<close>

definition bm_get :: "bytes \<Rightarrow> nat \<Rightarrow> bool" where
  "bm_get b f = (b ! (f div 8) AND push_bit (f mod 8) 1 \<noteq> 0)"

definition bm_put :: "nat \<Rightarrow> bool \<Rightarrow> bytes \<Rightarrow> bytes" where
  "bm_put f v b = (if v then b[f div 8 := b ! (f div 8) OR push_bit (f mod 8) 1]
     else b[f div 8 := b ! (f div 8) AND NOT (push_bit (f mod 8) 1)])"

definition set_frame :: "u32 \<Rightarrow> (Pmm, unit) cm" where
  "set_frame frame_addr = (let frame = unat (frame_addr div 4096) in
     if frame div 8 < BITMAP_SIZE then
       modify (\<lambda>s. s\<lparr>frame_bitmap := bm_put frame True (frame_bitmap s)\<rparr>)
     else undef)"

definition clear_frame :: "u32 \<Rightarrow> (Pmm, unit) cm" where
  "clear_frame frame_addr = (let frame = unat (frame_addr div 4096) in
     if frame div 8 < BITMAP_SIZE then
       modify (\<lambda>s. s\<lparr>frame_bitmap := bm_put frame False (frame_bitmap s)\<rparr>)
     else undef)"

definition test_frame :: "u32 \<Rightarrow> (Pmm, bool) cm" where
  "test_frame frame_addr = (let frame = unat (frame_addr div 4096) in
     if frame div 8 < BITMAP_SIZE then reads (\<lambda>s. bm_get (frame_bitmap s) frame) else undef)"

definition find_free_frame_step :: "u32 \<Rightarrow> (Pmm, u32 + u32) cm" where
  "find_free_frame_step i =
     seq (reads total_frames) (\<lambda>total.
     seq (reads first_frame) (\<lambda>first.
     if i < total then
       let frame_addr = (first + i) * 4096 in
       seq (test_frame frame_addr) (\<lambda>taken.
       if \<not> taken then ret (Inr frame_addr) else ret (Inl (i + 1)))
     else ret (Inr 0)))"

definition find_free_frame :: "(Pmm, u32) cm" where
  "find_free_frame = loop find_free_frame_step 0"

definition pmm_init_step :: "u32 \<Rightarrow> u32 \<Rightarrow> (Pmm, u32 + unit) cm" where
  "pmm_init_step mem_low i =
     (if i < mem_low then seq (set_frame i) (\<lambda>_. ret (Inl (i + 4096))) else ret (Inr ()))"

definition pmm_init :: "u32 \<Rightarrow> u32 \<Rightarrow> (Pmm, unit) cm" where
  "pmm_init mem_low mem_high =
     seq (modify (\<lambda>s. s\<lparr>frame_bitmap := replicate BITMAP_SIZE 0\<rparr>)) (\<lambda>_.
     let first = (mem_low + 4096 - 1) div 4096;
         total0 = mem_high div 4096 - first;
         total = (if 262144 < total0 then 262144 else total0) in
     seq (modify (\<lambda>s. s\<lparr>first_frame := first, total_frames := total, free_frames := total\<rparr>)) (\<lambda>_.
     loop (pmm_init_step mem_low) 0))"

definition pmm_alloc_frame :: "(Pmm, u32) cm" where
  "pmm_alloc_frame =
     seq (reads free_frames) (\<lambda>free.
     if free = 0 then ret 0
     else
       seq find_free_frame (\<lambda>frame_addr.
       if frame_addr = 0 then ret 0
       else
         seq (set_frame frame_addr) (\<lambda>_.
         seq (modify (\<lambda>s. s\<lparr>free_frames := free_frames s - 1\<rparr>)) (\<lambda>_.
         ret frame_addr))))"

definition pmm_free_frame :: "u32 \<Rightarrow> (Pmm, unit) cm" where
  "pmm_free_frame frame_addr =
     seq (test_frame frame_addr) (\<lambda>taken.
     if \<not> taken then ret ()
     else
       seq (clear_frame frame_addr) (\<lambda>_.
       modify (\<lambda>s. s\<lparr>free_frames := free_frames s + 1\<rparr>)))"

definition pmm_get_total_frames :: "(Pmm, u32) cm" where
  "pmm_get_total_frames = reads total_frames"

definition pmm_get_free_frames :: "(Pmm, u32) cm" where
  "pmm_get_free_frames = reads free_frames"

subsection \<open>The bitmap is a store of bits\<close>

lemma bm_get_bit: "bm_get b f = bit (b ! (f div 8)) (f mod 8)"
proof -
  have "push_bit (f mod 8) 1 = (2 ^ (f mod 8) :: u8)" by (simp add: push_bit_eq_mult)
  then show ?thesis by (simp add: bm_get_def and_exp_eq_0_iff_not_bit)
qed

lemma length_bm_put [simp]: "length (bm_put f v b) = length b"
  by (simp add: bm_put_def)

lemma bm_get_put:
  assumes "f div 8 < length b"
  shows "bm_get (bm_put f v b) g = (if g = f then v else bm_get b g)"
proof (cases "g div 8 = f div 8")
  case True
  moreover have "g mod 8 = f mod 8 \<longleftrightarrow> g = f" using True by (metis div_mult_mod_eq)
  moreover have "g mod 8 < 8" by simp
  ultimately show ?thesis
    using assms by (auto simp: bm_get_bit bm_put_def bit_simps)
next
  case False
  then show ?thesis by (auto simp: bm_get_bit bm_put_def)
qed

interpretation bm: cell_store "\<lambda>b. length b = BITMAP_SIZE" "\<lambda>f. f div 8 < BITMAP_SIZE" bm_get bm_put
  by unfold_locales (simp_all add: bm_get_put)

lemma bm_get_zeros: "f div 8 < n \<Longrightarrow> \<not> bm_get (replicate n 0) f"
  by (simp add: bm_get_bit)

subsection \<open>Frames, the invariant and the operations\<close>

text \<open>
  The frames the allocator manages are numbered \<open>first_frame\<close> to \<open>first_frame + total_frames\<close>.
  \<open>pmm_used\<close> are the addresses of the managed frames that are taken, \<open>pmm_free\<close> of the others.
\<close>

definition frame_adr :: "nat \<Rightarrow> u32" where
  "frame_adr f = of_nat f * 4096"

definition managed :: "Pmm \<Rightarrow> nat set" where
  "managed s = {unat (first_frame s) ..< unat (first_frame s) + unat (total_frames s)}"

definition pmm_used :: "Pmm \<Rightarrow> u32 set" where
  "pmm_used s = frame_adr ` {f \<in> managed s. bm_get (frame_bitmap s) f}"

definition pmm_inv :: "Pmm \<Rightarrow> bool" where
  "pmm_inv s \<longleftrightarrow> length (frame_bitmap s) = BITMAP_SIZE \<and> first_frame s \<noteq> 0 \<and>
     unat (first_frame s) + unat (total_frames s) \<le> 8 * BITMAP_SIZE \<and>
     unat (free_frames s) = card {f \<in> managed s. \<not> bm_get (frame_bitmap s) f}"

lemma unat_frame_adr: "f < 1048576 \<Longrightarrow> unat (frame_adr f) = f * 4096"
  by (simp add: frame_adr_def unat_word_ariths unat_of_nat)

lemma frame_adr_div: "f < 1048576 \<Longrightarrow> unat (frame_adr f div 4096) = f"
  by (simp add: unat_div unat_frame_adr)

lemma frame_adr_inj: "f < 1048576 \<Longrightarrow> g < 1048576 \<Longrightarrow> (frame_adr f = frame_adr g) = (f = g)"
  by (metis frame_adr_div)

lemma managed_less: "pmm_inv s \<Longrightarrow> f \<in> managed s \<Longrightarrow> 0 < f \<and> f < 262144 \<and> f div 8 < BITMAP_SIZE"
proof -
  assume inv: "pmm_inv s" and f: "f \<in> managed s"
  then have "f < 262144" by (simp add: pmm_inv_def managed_def BITMAP_SIZE_def)
  moreover have "0 < f" using inv f by (auto simp: pmm_inv_def managed_def word_unat_eq_iff)
  ultimately show ?thesis by (auto simp: BITMAP_SIZE_def)
qed

lemma managed_adr_inj:
  "pmm_inv s \<Longrightarrow> f \<in> managed s \<Longrightarrow> g \<in> managed s \<Longrightarrow> (frame_adr f = frame_adr g) = (f = g)"
  using managed_less [of s f] managed_less [of s g] by (intro frame_adr_inj) auto

lemma pmm_used_iff: "pmm_inv s \<Longrightarrow> f \<in> managed s \<Longrightarrow> frame_adr f \<in> pmm_used s \<longleftrightarrow> bm_get (frame_bitmap s) f"
  by (auto simp: pmm_used_def managed_adr_inj)

text \<open>Taking or releasing one managed frame.\<close>

lemma pmm_flip:
  assumes inv: "pmm_inv s" and f: "f \<in> managed s" and old: "bm_get (frame_bitmap s) f \<noteq> v"
    and fc: "fc = (if v then free_frames s - 1 else free_frames s + 1)"
  shows "pmm_inv (s\<lparr>frame_bitmap := bm_put f v (frame_bitmap s), free_frames := fc\<rparr>)"
    and "pmm_used (s\<lparr>frame_bitmap := bm_put f v (frame_bitmap s), free_frames := fc\<rparr>) =
      (if v then insert (frame_adr f) (pmm_used s) else pmm_used s - {frame_adr f})"
proof -
  let ?b = "frame_bitmap s" and ?s = "s\<lparr>frame_bitmap := bm_put f v (frame_bitmap s), free_frames := fc\<rparr>"
  let ?free = "\<lambda>b. {g \<in> managed s. \<not> bm_get b g}"
  note less = managed_less [OF inv f]
  have m: "managed (s\<lparr>frame_bitmap := b, free_frames := x\<rparr>) = managed s" for b x
    by (simp add: managed_def)
  have get: "bm_get (bm_put f w ?b) g = (if g = f then w else bm_get ?b g)" for g w
    using inv less by (simp add: bm_get_put pmm_inv_def)
  have fin: "finite (managed s)" by (simp add: managed_def)
  have cnt: "unat (free_frames s) = card (?free ?b)" using inv by (simp add: pmm_inv_def)
  have sub: "card (?free ?b) < 2 ^ 32"
  proof -
    have "card (?free ?b) \<le> card (managed s)" using fin by (simp add: card_mono)
    also have "\<dots> < 2 ^ 32" using inv by (simp add: managed_def pmm_inv_def BITMAP_SIZE_def)
    finally show ?thesis .
  qed
  have "unat fc = card (?free (bm_put f v ?b))"
  proof (cases v)
    case True
    then have "?free (bm_put f v ?b) = ?free ?b - {f}" by (auto simp: get)
    moreover have "f \<in> ?free ?b" using old True f by simp
    ultimately have "card (?free (bm_put f v ?b)) = card (?free ?b) - 1" "0 < card (?free ?b)"
      using fin by (auto simp: card_gt_0_iff)
    then show ?thesis using True fc cnt by (simp add: unat_sub word_le_nat_alt)
  next
    case False
    then have "?free (bm_put f v ?b) = insert f (?free ?b)" using f by (auto simp: get)
    moreover have "f \<notin> ?free ?b" using old False by simp
    ultimately have c: "card (?free (bm_put f v ?b)) = Suc (card (?free ?b))" using fin by simp
    have "card (?free (bm_put f v ?b)) \<le> card (managed s)" using fin by (simp add: card_mono)
    also have "\<dots> < 2 ^ 32" using inv by (simp add: managed_def pmm_inv_def BITMAP_SIZE_def)
    finally show ?thesis using False fc cnt c by (simp add: unat_word_ariths)
  qed
  then show "pmm_inv ?s" using inv m by (simp add: pmm_inv_def)
  show "pmm_used ?s = (if v then insert (frame_adr f) (pmm_used s) else pmm_used s - {frame_adr f})"
  proof (cases v)
    case True
    then show ?thesis using f by (auto simp: pmm_used_def m get)
  next
    case False
    have "frame_adr g \<noteq> frame_adr f" if "g \<in> managed s" "g \<noteq> f" for g
      using that f by (simp add: managed_adr_inj [OF inv])
    then show ?thesis using False by (auto simp: pmm_used_def m get)
  qed
qed

lemma wp_test_frame:
  "pmm_inv s \<Longrightarrow> f \<in> managed s \<Longrightarrow>
   wp (test_frame (frame_adr f)) Q E s = Q (bm_get (frame_bitmap s) f) s"
  using managed_less [of s f] by (simp add: test_frame_def frame_adr_div wp_simps)

lemma wp_set_frame:
  "f div 8 < BITMAP_SIZE \<Longrightarrow>
   wp (set_frame (frame_adr f)) Q E s = Q () (s\<lparr>frame_bitmap := bm_put f True (frame_bitmap s)\<rparr>)"
  by (simp add: set_frame_def frame_adr_div BITMAP_SIZE_def wp_simps)

lemma wp_clear_frame:
  "f div 8 < BITMAP_SIZE \<Longrightarrow>
   wp (clear_frame (frame_adr f)) Q E s = Q () (s\<lparr>frame_bitmap := bm_put f False (frame_bitmap s)\<rparr>)"
  by (simp add: clear_frame_def frame_adr_div BITMAP_SIZE_def wp_simps)

lemma frame_adr_add: "(first + i) * 4096 = frame_adr (unat first + unat i)"
    "first * 4096 + i * 4096 = frame_adr (unat first + unat i)"
  by (simp_all add: frame_adr_def algebra_simps)

lemma frame_adr_nonzero: "pmm_inv s \<Longrightarrow> f \<in> managed s \<Longrightarrow> frame_adr f \<noteq> 0"
  using managed_less [of s f] unat_frame_adr [of f] by (auto simp: word_unat_eq_iff)

lemma wp_find_free_frame:
  assumes inv: "pmm_inv s"
    and found: "\<And>f. f \<in> managed s \<Longrightarrow> \<not> bm_get (frame_bitmap s) f \<Longrightarrow>
      (\<And>g. g \<in> managed s \<Longrightarrow> g < f \<Longrightarrow> bm_get (frame_bitmap s) g) \<Longrightarrow> Q (frame_adr f) s"
    and none: "(\<And>g. g \<in> managed s \<Longrightarrow> bm_get (frame_bitmap s) g) \<Longrightarrow> Q 0 s"
  shows "wp find_free_frame Q E s"
  unfolding find_free_frame_def
proof (rule wp_loop [where m = "\<lambda>i _. unat (total_frames s) - unat i" and
    I = "\<lambda>(i :: u32) t. t = s \<and> (\<forall>g \<in> managed s. g < unat (first_frame s) + unat i \<longrightarrow> bm_get (frame_bitmap s) g)"])
  fix i :: u32 and t
  assume I: "t = s \<and> (\<forall>g \<in> managed s. g < unat (first_frame s) + unat i \<longrightarrow> bm_get (frame_bitmap s) g)"
  let ?f = "unat (first_frame s) + unat i"
  show "wp (find_free_frame_step i) (\<lambda>y s'. case y of
      Inl i' \<Rightarrow> (s' = s \<and> (\<forall>g \<in> managed s. g < unat (first_frame s) + unat i' \<longrightarrow> bm_get (frame_bitmap s) g)) \<and>
        unat (total_frames s) - unat i' < unat (total_frames s) - unat i
    | Inr v \<Rightarrow> Q v s') E t"
  proof (cases "i < total_frames s")
    case True
    moreover have "unat (total_frames s) < 2 ^ 32" using unsigned_less [of "total_frames s"] by simp
    ultimately have f: "?f \<in> managed s" and i: "unat (i + 1) = unat i + 1"
      by (auto simp: managed_def word_less_nat_alt unat_word_ariths)
    have "bm_get (frame_bitmap s) g" if "bm_get (frame_bitmap s) ?f" "g \<in> managed s" "g < Suc ?f" for g
      using that I by (cases "g = ?f") auto
    then show ?thesis
      using True I i f found [of ?f]
      by (auto simp: find_free_frame_step_def Let_def wp_simps frame_adr_add wp_test_frame [OF inv f] word_less_nat_alt)
  next
    case False
    then have "bm_get (frame_bitmap s) g" if "g \<in> managed s" for g
      using that I by (auto simp: managed_def word_less_nat_alt)
    then show ?thesis
      using False I none by (simp add: find_free_frame_step_def wp_simps)
  qed
qed (simp add: managed_def)

lemma wp_pmm_alloc_frame:
  assumes inv: "pmm_inv s"
    and some: "\<And>f s'. f \<in> managed s \<Longrightarrow> frame_adr f \<notin> pmm_used s \<Longrightarrow> pmm_inv s' \<Longrightarrow>
      pmm_used s' = insert (frame_adr f) (pmm_used s) \<Longrightarrow> managed s' = managed s \<Longrightarrow>
      (\<And>g. g \<in> managed s \<Longrightarrow> g < f \<Longrightarrow> frame_adr g \<in> pmm_used s) \<Longrightarrow>
      free_frames s' = free_frames s - 1 \<Longrightarrow> Q (frame_adr f) s'"
    and none: "(\<And>g. g \<in> managed s \<Longrightarrow> frame_adr g \<in> pmm_used s) \<Longrightarrow> Q 0 s"
  shows "wp pmm_alloc_frame Q E s"
proof (cases "free_frames s = 0")
  case True
  then have "card {f \<in> managed s. \<not> bm_get (frame_bitmap s) f} = 0" using inv by (simp add: pmm_inv_def)
  then have "frame_adr g \<in> pmm_used s" if "g \<in> managed s" for g
    using that by (auto simp: pmm_used_def managed_def)
  then show ?thesis using True none by (simp add: pmm_alloc_frame_def wp_simps)
next
  case False
  have "wp find_free_frame (\<lambda>a. wp (if a = 0 then ret 0 else
         seq (set_frame a) (\<lambda>_. seq (modify (\<lambda>s. s\<lparr>free_frames := free_frames s - 1\<rparr>)) (\<lambda>_. ret a))) Q E) E s"
  proof (rule wp_find_free_frame [OF inv])
    fix f assume f: "f \<in> managed s" "\<not> bm_get (frame_bitmap s) f"
      and low: "\<And>g. g \<in> managed s \<Longrightarrow> g < f \<Longrightarrow> bm_get (frame_bitmap s) g"
    let ?s = "s\<lparr>frame_bitmap := bm_put f True (frame_bitmap s), free_frames := free_frames s - 1\<rparr>"
    have "Q (frame_adr f) ?s"
    proof (rule some)
      show "pmm_inv ?s" "pmm_used ?s = insert (frame_adr f) (pmm_used s)"
        using pmm_flip [OF inv f(1), of True] f(2) by simp_all
      show "frame_adr f \<notin> pmm_used s" using f inv by (simp add: pmm_used_iff)
    qed (use f low inv in \<open>auto simp: managed_def pmm_used_def\<close>)
    then show "wp (if frame_adr f = 0 then ret 0 else seq (set_frame (frame_adr f)) (\<lambda>_.
        seq (modify (\<lambda>s. s\<lparr>free_frames := free_frames s - 1\<rparr>)) (\<lambda>_. ret (frame_adr f)))) Q E s"
      using frame_adr_nonzero [OF inv f(1)] managed_less [OF inv f(1)] by (simp add: wp_simps wp_set_frame)
  qed (use none inv in \<open>simp add: pmm_used_iff wp_simps\<close>)
  then show ?thesis using False by (simp add: pmm_alloc_frame_def wp_simps)
qed

lemma wp_pmm_free_frame:
  assumes inv: "pmm_inv s" and a: "a \<in> pmm_used s"
    and Q: "\<And>s'. pmm_inv s' \<Longrightarrow> pmm_used s' = pmm_used s - {a} \<Longrightarrow> managed s' = managed s \<Longrightarrow>
      free_frames s' = free_frames s + 1 \<Longrightarrow> Q () s'"
  shows "wp (pmm_free_frame a) Q E s"
proof -
  obtain f where f: "f \<in> managed s" "bm_get (frame_bitmap s) f" "a = frame_adr f"
    using a by (auto simp: pmm_used_def)
  have "Q () (s\<lparr>frame_bitmap := bm_put f False (frame_bitmap s), free_frames := free_frames s + 1\<rparr>)"
    using pmm_flip [OF inv f(1), of False] f by (intro Q) (simp_all add: managed_def)
  then show ?thesis
    using f managed_less [OF inv f(1)]
    by (simp add: pmm_free_frame_def wp_simps wp_test_frame [OF inv] wp_clear_frame)
qed

subsection \<open>The allocator interface\<close>

definition pmm_alloc :: "unit \<Rightarrow> Pmm \<Rightarrow> (u32 \<times> Pmm) option" where
  "pmm_alloc r s = (case pmm_alloc_frame s of
     Some (Inr a, s') \<Rightarrow> if a = 0 then None else Some (a, s') | _ \<Rightarrow> None)"

definition pmm_release :: "u32 \<Rightarrow> Pmm \<Rightarrow> Pmm" where
  "pmm_release a s = (case pmm_free_frame a s of Some (_, s') \<Rightarrow> s' | None \<Rightarrow> s)"

lemma pmm_alloc_some:
  assumes "pmm_inv s" and "pmm_alloc r s = Some (a, s')"
  shows "pmm_inv s' \<and> a \<notin> pmm_used s \<and> pmm_used s' = insert a (pmm_used s)"
proof -
  have "wp pmm_alloc_frame (\<lambda>a s'. a = 0 \<or>
      pmm_inv s' \<and> a \<notin> pmm_used s \<and> pmm_used s' = insert a (pmm_used s)) (\<lambda>_ _. False) s"
    by (rule wp_pmm_alloc_frame [OF assms(1)]) auto
  then show ?thesis
    using assms(2) by (auto simp: wp_def pmm_alloc_def split: option.splits sum.splits if_splits)
qed

lemma pmm_release_used:
  assumes "pmm_inv s" and "a \<in> pmm_used s"
  shows "pmm_inv (pmm_release a s) \<and> pmm_used (pmm_release a s) = pmm_used s - {a}"
proof -
  have "wp (pmm_free_frame a) (\<lambda>_ s'. pmm_inv s' \<and> pmm_used s' = pmm_used s - {a}) (\<lambda>_ _. False) s"
    by (rule wp_pmm_free_frame [OF assms]) auto
  then show ?thesis
    by (rule wpD) (auto simp: pmm_release_def)
qed

interpretation pmm: allocator pmm_inv pmm_used pmm_alloc pmm_release
  by unfold_locales (simp_all add: pmm_alloc_some pmm_release_used)

subsection \<open>\<open>pmm_init\<close>\<close>

lemma unat_div4096: "unat ((x :: u32) div 4096) = unat x div 4096"
  by (simp add: unat_div)

text \<open>The loop marks the frames below \<open>mem_low\<close>; \<open>k\<close> of them are done.\<close>

lemma wp_pmm_init_loop:
  assumes len: "length (frame_bitmap s) = BITMAP_SIZE" and low: "unat mem_low \<le> 2 ^ 30"
    and Q: "\<And>b. length b = BITMAP_SIZE \<Longrightarrow> (\<And>g. g div 8 < BITMAP_SIZE \<Longrightarrow>
        bm_get b g = (bm_get (frame_bitmap s) g \<or> g * 4096 < unat mem_low)) \<Longrightarrow>
      Q () (s\<lparr>frame_bitmap := b\<rparr>)"
  shows "wp (loop (pmm_init_step mem_low) 0) Q E s"
proof (rule wp_loop [where m = "\<lambda>i _. unat mem_low - unat i" and
    I = "\<lambda>(i :: u32) t. \<exists>k b. i = frame_adr k \<and> k \<le> 262144 \<and> t = s\<lparr>frame_bitmap := b\<rparr> \<and>
      length b = BITMAP_SIZE \<and> (\<forall>g. g div 8 < BITMAP_SIZE \<longrightarrow>
        bm_get b g = (bm_get (frame_bitmap s) g \<or> g < k \<and> g * 4096 < unat mem_low))"])
  show "\<exists>k b. 0 = frame_adr k \<and> k \<le> 262144 \<and> s = s\<lparr>frame_bitmap := b\<rparr> \<and> length b = BITMAP_SIZE \<and>
      (\<forall>g. g div 8 < BITMAP_SIZE \<longrightarrow>
        bm_get b g = (bm_get (frame_bitmap s) g \<or> g < k \<and> g * 4096 < unat mem_low))"
    by (intro exI [of _ 0] exI [of _ "frame_bitmap s"]) (use len in \<open>simp add: frame_adr_def\<close>)
next
  fix i :: u32 and t
  assume "\<exists>k b. i = frame_adr k \<and> k \<le> 262144 \<and> t = s\<lparr>frame_bitmap := b\<rparr> \<and> length b = BITMAP_SIZE \<and>
      (\<forall>g. g div 8 < BITMAP_SIZE \<longrightarrow>
        bm_get b g = (bm_get (frame_bitmap s) g \<or> g < k \<and> g * 4096 < unat mem_low))"
  then obtain k b where i: "i = frame_adr k" and k: "k \<le> 262144" and t: "t = s\<lparr>frame_bitmap := b\<rparr>"
    and b: "length b = BITMAP_SIZE" and get: "\<And>g. g div 8 < BITMAP_SIZE \<Longrightarrow>
        bm_get b g = (bm_get (frame_bitmap s) g \<or> g < k \<and> g * 4096 < unat mem_low)"
    by auto
  have ui: "unat i = k * 4096" using i k by (simp add: unat_frame_adr)
  show "wp (pmm_init_step mem_low i) (\<lambda>y s'. case y of
      Inl i' \<Rightarrow> (\<exists>k b. i' = frame_adr k \<and> k \<le> 262144 \<and> s' = s\<lparr>frame_bitmap := b\<rparr> \<and> length b = BITMAP_SIZE \<and>
        (\<forall>g. g div 8 < BITMAP_SIZE \<longrightarrow>
          bm_get b g = (bm_get (frame_bitmap s) g \<or> g < k \<and> g * 4096 < unat mem_low))) \<and>
        unat mem_low - unat i' < unat mem_low - unat i
    | Inr v \<Rightarrow> Q v s') E t"
  proof (cases "i < mem_low")
    case True
    then have less: "k * 4096 < unat mem_low" using ui by (simp add: word_less_nat_alt)
    then have k': "k < 262144" using low by simp
    then have kd: "k div 8 < BITMAP_SIZE" by (simp add: BITMAP_SIZE_def)
    have next_i: "i + 4096 = frame_adr (Suc k)" by (simp add: i frame_adr_def algebra_simps)
    have "unat (i + 4096) = Suc k * 4096" using next_i k' by (simp add: unat_frame_adr)
    moreover have "bm_get (bm_put k True b) g = (bm_get (frame_bitmap s) g \<or> g < Suc k \<and> g * 4096 < unat mem_low)"
      if "g div 8 < BITMAP_SIZE" for g
      using that get [OF that] less b kd by (auto simp: bm_get_put less_Suc_eq)
    ultimately show ?thesis
      using True t b k' ui less next_i
      by (auto simp: pmm_init_step_def wp_simps i wp_set_frame [OF kd] intro!: exI [of _ "Suc k"]
          exI [of _ "bm_put k True b"])
  next
    case False
    then have "unat mem_low \<le> k * 4096" using ui by (simp add: word_less_nat_alt)
    then have "bm_get b g = (bm_get (frame_bitmap s) g \<or> g * 4096 < unat mem_low)" if "g div 8 < BITMAP_SIZE" for g
      using get [OF that] by auto
    then show ?thesis using False Q [OF b] by (simp add: pmm_init_step_def wp_simps t)
  qed
qed

lemma wp_pmm_init:
  assumes low: "mem_low \<noteq> 0" and top: "(unat mem_low + 4095) div 4096 \<le> unat mem_high div 4096"
    and high: "unat mem_high \<le> 2 ^ 30"
    and Q: "\<And>s'. pmm_inv s' \<Longrightarrow> pmm_used s' = {} \<Longrightarrow> managed s' =
      {(unat mem_low + 4095) div 4096 ..< unat mem_high div 4096} \<Longrightarrow> free_frames s' = total_frames s' \<Longrightarrow>
      (\<forall>g < 262144. bm_get (frame_bitmap s') g = (g * 4096 < unat mem_low)) \<Longrightarrow> Q () s'"
  shows "wp (pmm_init mem_low mem_high) Q E s"
proof -
  define first where "first = (mem_low + 4096 - 1) div 4096"
  define total0 where "total0 = mem_high div 4096 - first"
  let ?lo = "(unat mem_low + 4095) div 4096"
  have bound: "unat mem_low \<le> 2 ^ 30" using top high by linarith
  then have ufirst: "unat first = ?lo" by (simp add: first_def unat_div4096 unat_word_ariths)
  then have utotal: "unat total0 = unat mem_high div 4096 - ?lo"
    using top by (simp add: total0_def unat_sub unat_div4096 word_le_nat_alt)
  then have cap: "\<not> 262144 < total0" using high by (simp add: word_less_nat_alt)
  define t where "t = s\<lparr>frame_bitmap := replicate BITMAP_SIZE 0, first_frame := first,
      total_frames := total0, free_frames := total0\<rparr>"
  have pos: "0 < ?lo" using low by (simp add: word_unat_eq_iff div_greater_zero_iff)
  have "wp (loop (pmm_init_step mem_low) 0) Q E t"
  proof (rule wp_pmm_init_loop [OF _ bound])
    show "length (frame_bitmap t) = BITMAP_SIZE" by (simp add: t_def)
    fix b assume len: "length b = BITMAP_SIZE" and get: "\<And>g. g div 8 < BITMAP_SIZE \<Longrightarrow>
        bm_get b g = (bm_get (frame_bitmap t) g \<or> g * 4096 < unat mem_low)"
    have m: "managed (t\<lparr>frame_bitmap := b\<rparr>) = {?lo ..< unat mem_high div 4096}"
      using top by (simp add: managed_def t_def ufirst utotal)
    have free: "\<not> bm_get b f" if "f \<in> {?lo ..< unat mem_high div 4096}" for f
    proof -
      have "f < 262144" "unat mem_low \<le> f * 4096" using that high by auto
      moreover then have "f div 8 < BITMAP_SIZE" by (auto simp: BITMAP_SIZE_def)
      ultimately show ?thesis using get [of f] bm_get_zeros [of f BITMAP_SIZE] by (simp add: t_def)
    qed
    have "pmm_inv (t\<lparr>frame_bitmap := b\<rparr>)"
    proof -
      have "{f \<in> {?lo ..< unat mem_high div 4096}. \<not> bm_get b f} = {?lo ..< unat mem_high div 4096}"
        using free by auto
      moreover have "first \<noteq> 0" using ufirst pos by auto
      moreover have "?lo + (unat mem_high div 4096 - ?lo) \<le> 8 * BITMAP_SIZE"
        using high top by (simp add: BITMAP_SIZE_def)
      ultimately show ?thesis using m len by (simp add: pmm_inv_def) (simp add: t_def ufirst utotal)
    qed
    moreover have "pmm_used (t\<lparr>frame_bitmap := b\<rparr>) = {}" using free by (auto simp: pmm_used_def m)
    moreover have "\<forall>g < 262144. bm_get b g = (g * 4096 < unat mem_low)"
    proof (intro allI impI)
      fix g :: nat assume "g < 262144"
      then have "g div 8 < BITMAP_SIZE" by (auto simp: BITMAP_SIZE_def)
      then show "bm_get b g = (g * 4096 < unat mem_low)"
        using get [of g] bm_get_zeros [of g BITMAP_SIZE] by (simp add: t_def)
    qed
    ultimately show "Q () (t\<lparr>frame_bitmap := b\<rparr>)" using m by (intro Q) (simp_all add: t_def)
  qed
  then show ?thesis using cap by (simp add: pmm_init_def wp_simps Let_def t_def first_def total0_def)
qed

subsection \<open>The properties\<close>

definition pmm_sample :: Pmm where
  "pmm_sample = \<lparr>frame_bitmap = bm_put 0 True (replicate BITMAP_SIZE 0), total_frames = 8,
     free_frames = 8, first_frame = 1\<rparr>"

lemma bm_get_sample: "f div 8 < BITMAP_SIZE \<Longrightarrow> bm_get (frame_bitmap pmm_sample) f = (f = 0)"
  by (simp add: pmm_sample_def bm_get_put bm_get_zeros BITMAP_SIZE_def)

lemma managed_sample: "managed pmm_sample = {1..<9}"
  by (simp add: managed_def pmm_sample_def)

lemma pmm_sample_taken: "f \<in> {1..<9} \<Longrightarrow> \<not> bm_get (frame_bitmap pmm_sample) f"
proof -
  assume f: "f \<in> {1..<9}"
  then have "f div 8 < BITMAP_SIZE"
    by (intro le_less_trans [OF div_le_dividend]) (simp add: BITMAP_SIZE_def)
  then show ?thesis using f by (simp add: bm_get_sample)
qed

lemma pmm_sample_inv: "pmm_inv pmm_sample"
proof -
  have "{f \<in> {1..<9}. \<not> bm_get (frame_bitmap pmm_sample) f} = {1..<9}"
    using pmm_sample_taken by blast
  then show ?thesis
    unfolding pmm_inv_def managed_sample by (simp add: pmm_sample_def BITMAP_SIZE_def)
qed

lemma pmm_sample_used: "pmm_used pmm_sample = {}"
  using pmm_sample_taken by (auto simp: pmm_used_def managed_sample)

text \<open>
  C19: \<open>pmm_init\<close> terminates, stays inside the bitmap and establishes the allocator's
  invariant, with the frames from \<open>mem_low\<close> (rounded up) to \<open>mem_high\<close> managed, all of them
  free and counted; of the bitmap's 262144 bits exactly those of the frames that begin below
  \<open>mem_low\<close> are set, so no other frame can be handed out. Stated for a \<open>mem_low\<close> other than 0,
  not above \<open>mem_high\<close> when rounded up, and a \<open>mem_high\<close> of at most 1 GiB, all the bitmap covers.
\<close>

theorem pmm_init_establishes:
  assumes "mem_low \<noteq> 0" and "(unat mem_low + 4095) div 4096 \<le> unat mem_high div 4096"
    and "unat mem_high \<le> 2 ^ 30"
  shows "wp (pmm_init mem_low mem_high) (\<lambda>_ s'. pmm_inv s' \<and> pmm_used s' = {} \<and>
      managed s' = {(unat mem_low + 4095) div 4096 ..< unat mem_high div 4096} \<and>
      free_frames s' = total_frames s' \<and>
      (\<forall>g < 262144. bm_get (frame_bitmap s') g = (g * 4096 < unat mem_low))) (\<lambda>_ _. False) s"
  by (rule wp_pmm_init [OF assms]) simp

lemma pmm_init_establishes_witness:
  "wp (pmm_init 0x00400000 0x02000000) (\<lambda>_ s'. pmm_inv s' \<and> pmm_used s' = {} \<and>
      managed s' = {1024 ..< 8192} \<and> free_frames s' = total_frames s' \<and>
      (\<forall>g < 262144. bm_get (frame_bitmap s') g = (g < 1024))) (\<lambda>_ _. False) pmm_sample"
proof -
  have "(g * 4096 < 0x00400000) = (g < 1024)" for g :: nat by linarith
  then show ?thesis
    using pmm_init_establishes [of "0x00400000" "0x02000000" pmm_sample] by simp
qed

text \<open>
  C20: \<open>pmm_alloc_frame\<close> hands out the lowest managed frame that is free, marks it taken and
  counts it; it returns the null pointer exactly when every managed frame is taken, and then
  changes nothing.
\<close>

theorem pmm_alloc_first_fit:
  assumes "pmm_inv s"
  shows "wp pmm_alloc_frame (\<lambda>a s'.
      (a = 0 \<longleftrightarrow> frame_adr ` managed s \<subseteq> pmm_used s) \<and> (a = 0 \<longrightarrow> s' = s) \<and>
      (a \<noteq> 0 \<longrightarrow> pmm_inv s' \<and> pmm_used s' = insert a (pmm_used s) \<and> a \<notin> pmm_used s \<and>
         (\<exists>f \<in> managed s. a = frame_adr f \<and> (\<forall>g \<in> managed s. g < f \<longrightarrow> frame_adr g \<in> pmm_used s)) \<and>
         managed s' = managed s \<and> free_frames s' = free_frames s - 1)) (\<lambda>_ _. False) s"
  by (rule wp_pmm_alloc_frame [OF assms])
    (use frame_adr_nonzero [OF assms] in \<open>auto simp: image_subset_iff\<close>)

lemma pmm_alloc_first_fit_witness:
  "wp pmm_alloc_frame (\<lambda>a s'. a \<noteq> 0 \<and> pmm_inv s' \<and> pmm_used s' = {a}) (\<lambda>_ _. False) pmm_sample"
proof (rule wp_conseq [OF pmm_alloc_first_fit [OF pmm_sample_inv]])
  have "1 \<in> managed pmm_sample" by (simp add: managed_sample)
  then have "\<not> frame_adr ` managed pmm_sample \<subseteq> pmm_used pmm_sample" by (auto simp: pmm_sample_used)
  then show "a \<noteq> 0 \<and> pmm_inv s' \<and> pmm_used s' = {a}"
    if "(a = 0 \<longleftrightarrow> frame_adr ` managed pmm_sample \<subseteq> pmm_used pmm_sample) \<and> (a = 0 \<longrightarrow> s' = pmm_sample) \<and>
      (a \<noteq> 0 \<longrightarrow> pmm_inv s' \<and> pmm_used s' = insert a (pmm_used pmm_sample) \<and> a \<notin> pmm_used pmm_sample \<and>
         (\<exists>f \<in> managed pmm_sample. a = frame_adr f \<and>
            (\<forall>g \<in> managed pmm_sample. g < f \<longrightarrow> frame_adr g \<in> pmm_used pmm_sample)) \<and>
         managed s' = managed pmm_sample \<and> free_frames s' = free_frames pmm_sample - 1)" for a s'
    using that by (simp add: pmm_sample_used)
qed simp

text \<open>
  C21: a client that frees only frames it holds, in any order of requests and releases, never
  holds a frame twice and never one of the frames that others hold; and the allocator counts
  exactly what is held as taken.
\<close>

theorem pmm_client_safe:
  assumes "pmm_inv s"
  shows "case fold pmm.serve ops ([], s) of (held, s') \<Rightarrow>
      pmm_inv s' \<and> distinct held \<and> set held \<inter> pmm_used s = {} \<and> pmm_used s' = set held \<union> pmm_used s"
proof -
  have "pmm.safe (pmm_used s) ([], s)" using assms by (simp add: pmm.safe_def)
  from pmm.safe_run [OF this, of ops] show ?thesis by (auto simp: pmm.safe_def)
qed

lemma pmm_client_safe_witness:
  "case fold pmm.serve [Alloc (), Alloc (), Free 4096, Alloc ()] ([], pmm_sample) of (held, s') \<Rightarrow>
      pmm_inv s' \<and> distinct held \<and> pmm_used s' = set held"
  using pmm_client_safe [OF pmm_sample_inv, of "[Alloc (), Alloc (), Free 4096, Alloc ()]"]
  by (auto simp: pmm_sample_used split: prod.splits)

text \<open>
  Unchecked input: \<open>pmm_free_frame\<close> accepts a frame below the managed ones, which \<open>pmm_init\<close> marked taken:
  the frame is counted as free although \<open>pmm_alloc_frame\<close> can never hand it out, and the
  count of free frames is wrong from then on.
\<close>

theorem pmm_free_reserved_breaks_count:
  assumes "pmm_inv s" and "f < unat (first_frame s)" and "bm_get (frame_bitmap s) f"
  shows "wp (pmm_free_frame (frame_adr f)) (\<lambda>_ s'. managed s' = managed s \<and> pmm_used s' = pmm_used s \<and>
      free_frames s' = free_frames s + 1 \<and> \<not> pmm_inv s') (\<lambda>_ _. False) s"
proof -
  let ?s = "s\<lparr>frame_bitmap := bm_put f False (frame_bitmap s), free_frames := free_frames s + 1\<rparr>"
  have f: "f < 1048576" and fd: "f div 8 < BITMAP_SIZE" and out: "f \<notin> managed s"
    using assms(1,2) by (auto simp: pmm_inv_def managed_def BITMAP_SIZE_def)
  have m: "managed (s\<lparr>frame_bitmap := b, free_frames := x\<rparr>) = managed s" for b x
    by (simp add: managed_def)
  have get: "bm_get (bm_put f False (frame_bitmap s)) g = bm_get (frame_bitmap s) g" if "g \<in> managed s" for g
    using that out assms(1) fd by (auto simp: bm_get_put pmm_inv_def)
  then have same: "{g \<in> managed s. \<not> bm_get (bm_put f False (frame_bitmap s)) g} =
      {g \<in> managed s. \<not> bm_get (frame_bitmap s) g}" by auto
  have "free_frames s + 1 \<noteq> free_frames s" by simp
  then have "\<not> pmm_inv ?s"
    using same assms(1) by (simp add: pmm_inv_def m word_unat_eq_iff)
  moreover have "pmm_used ?s = pmm_used s" using get by (auto simp: pmm_used_def m)
  ultimately show ?thesis
    using assms(3) fd f
    by (simp add: pmm_free_frame_def test_frame_def frame_adr_div wp_simps wp_clear_frame m)
qed

lemma pmm_free_reserved_breaks_count_witness:
  "wp (pmm_free_frame (frame_adr 0)) (\<lambda>_ s'. free_frames s' = 9 \<and> \<not> pmm_inv s') (\<lambda>_ _. False) pmm_sample"
proof -
  have "0 < unat (first_frame pmm_sample)" "bm_get (frame_bitmap pmm_sample) 0"
    by (simp_all add: bm_get_sample BITMAP_SIZE_def) (simp add: pmm_sample_def)
  from pmm_free_reserved_breaks_count [OF pmm_sample_inv this] show ?thesis
    by (rule wp_conseq) (simp_all add: pmm_sample_def)
qed

end
