(* ===== verification/Vmm.thy ===== *)
theory Vmm
  imports Pmm
begin

unbundle bit_operations_syntax

section \<open>Page tables (mm/vmm.c)\<close>

text \<open>
  The page directory and the page tables are arrays of words in memory, which the code
  reaches by address; \<open>v_mem\<close> gives the word at a physical address. The addresses of the
  kernel's own tables are fixed by the linker: \<open>kpd\<close> is \<open>kernel_page_directory\<close>, \<open>kpt\<close> is
  \<open>kernel_page_tables\<close>. \<open>v_cr3\<close> is the directory the processor uses, \<open>v_paging\<close> whether
  \<open>enable_paging\<close> has switched paging on. From then on every load and store of \<open>vmm_map\<close> and
  \<open>vmm_unmap\<close> is translated through the tables as they are at that moment, and one that does
  not translate is a page fault, \<open>undef\<close>. (The kernel runs with write protection off, so a
  page it can read it can write.) The TLB is not modelled; the code, the stack and the variables
  of the frame allocator are taken to stay mapped.
\<close>

subsection \<open>The code\<close>

abbreviation (input) PAGE_PRESENT :: u32 where "PAGE_PRESENT \<equiv> 0x1"
abbreviation (input) PAGE_RW :: u32 where "PAGE_RW \<equiv> 0x2"

record Vmm =
  v_mem :: "u32 \<Rightarrow> u32"
  v_pmm :: Pmm
  v_cr3 :: u32
  v_paging :: bool

definition PAGE_DIRECTORY_INDEX :: "u32 \<Rightarrow> u32" where
  "PAGE_DIRECTORY_INDEX x = drop_bit 22 x AND 0x3ff"

definition PAGE_TABLE_INDEX :: "u32 \<Rightarrow> u32" where
  "PAGE_TABLE_INDEX x = drop_bit 12 x AND 0x3ff"

definition PAGE_ALIGN :: "u32 \<Rightarrow> u32" where
  "PAGE_ALIGN x = x AND 0xfffff000"

text \<open>What the processor makes of the tables: a page that is not present does not translate.\<close>

definition pte_at :: "u32 \<Rightarrow> Vmm \<Rightarrow> u32 \<Rightarrow> u32 option" where
  "pte_at dir s virt = (let pde = v_mem s (dir + 4 * PAGE_DIRECTORY_INDEX virt) in
     if pde AND PAGE_PRESENT = 0 then None
     else Some (v_mem s ((pde AND 0xfffff000) + 4 * PAGE_TABLE_INDEX virt)))"

definition translate :: "u32 \<Rightarrow> Vmm \<Rightarrow> u32 \<Rightarrow> u32 option" where
  "translate dir s virt = (case pte_at dir s virt of None \<Rightarrow> None
     | Some pte \<Rightarrow> if pte AND PAGE_PRESENT = 0 then None
         else Some ((pte AND 0xfffff000) OR (virt AND 0xfff)))"

definition phys_of :: "Vmm \<Rightarrow> u32 \<Rightarrow> u32 option" where
  "phys_of s a = (if v_paging s then translate (v_cr3 s) s a else Some a)"

definition load :: "u32 \<Rightarrow> (Vmm, u32) cm" where
  "load a = seq (reads (\<lambda>s. phys_of s a)) (\<lambda>r.
     case r of None \<Rightarrow> undef | Some x \<Rightarrow> reads (\<lambda>s. v_mem s x))"

definition store :: "u32 \<Rightarrow> u32 \<Rightarrow> (Vmm, unit) cm" where
  "store a v = seq (reads (\<lambda>s. phys_of s a)) (\<lambda>r.
     case r of None \<Rightarrow> undef | Some x \<Rightarrow> modify (\<lambda>s. s\<lparr>v_mem := (v_mem s)(x := v)\<rparr>))"

text \<open>\<open>memset(a, 0, PAGE_SIZE)\<close>, word by word.\<close>

definition zero_page :: "u32 \<Rightarrow> (Vmm, unit) cm" where
  "zero_page a = loop (\<lambda>i. if i < 1024 then seq (store (a + 4 * i) 0) (\<lambda>_. ret (Inl (i + 1))) else ret (Inr ())) 0"

text \<open>\<open>vmm_init\<close> is what switches paging on: its stores, before that, are physical.\<close>

definition store_phys :: "u32 \<Rightarrow> u32 \<Rightarrow> (Vmm, unit) cm" where
  "store_phys a v = modify (\<lambda>s. s\<lparr>v_mem := (v_mem s)(a := v)\<rparr>)"

definition with_pmm :: "(Pmm, 'a) cm \<Rightarrow> (Vmm, 'a) cm" where
  "with_pmm m = (\<lambda>s. case m (v_pmm s) of None \<Rightarrow> None
     | Some (r, p) \<Rightarrow> Some (r, s\<lparr>v_pmm := p\<rparr>))"

definition vmm_dir_step :: "u32 \<Rightarrow> u32 \<Rightarrow> u32 \<Rightarrow> (Vmm, u32 + unit) cm" where
  "vmm_dir_step kpd kpt i =
     (if i < 256 then
        seq (store_phys (kpd + 4 * i) (((kpt + 4096 * i) OR PAGE_PRESENT) OR PAGE_RW)) (\<lambda>_. ret (Inl (i + 1)))
      else ret (Inr ()))"

definition vmm_tab_step :: "u32 \<Rightarrow> u32 \<Rightarrow> (Vmm, u32 + unit) cm" where
  "vmm_tab_step kpt i =
     (if i < 256 * 1024 * 1024 then
        seq (store_phys (kpt + 4096 * PAGE_DIRECTORY_INDEX i + 4 * PAGE_TABLE_INDEX i)
          ((i OR PAGE_PRESENT) OR PAGE_RW)) (\<lambda>_. ret (Inl (i + 4096)))
      else ret (Inr ()))"

definition vmm_init :: "u32 \<Rightarrow> u32 \<Rightarrow> (Vmm, unit) cm" where
  "vmm_init kpd kpt =
     seq (modify (\<lambda>s. s\<lparr>v_mem := (\<lambda>x. if x - kpd < 4096 \<or> x - kpt < 0x100000 then 0 else v_mem s x)\<rparr>)) (\<lambda>_.
     seq (loop (vmm_dir_step kpd kpt) 0) (\<lambda>_.
     seq (loop (vmm_tab_step kpt) 0) (\<lambda>_.
     modify (\<lambda>s. s\<lparr>v_cr3 := kpd, v_paging := True\<rparr>))))"

definition vmm_map :: "u32 \<Rightarrow> u32 \<Rightarrow> u32 \<Rightarrow> u32 \<Rightarrow> (Vmm, unit) cm" where
  "vmm_map dir virt phys flags =
     seq (load (dir + 4 * PAGE_DIRECTORY_INDEX virt)) (\<lambda>pde.
     seq (if pde AND PAGE_PRESENT = 0 then
            seq (with_pmm pmm_alloc_frame) (\<lambda>page_table.
            seq (zero_page page_table) (\<lambda>_.
            seq (store (dir + 4 * PAGE_DIRECTORY_INDEX virt)
                  (((page_table OR PAGE_PRESENT) OR PAGE_RW) OR flags)) (\<lambda>_.
            ret page_table)))
          else ret (pde AND 0xfffff000)) (\<lambda>page_table.
     store (page_table + 4 * PAGE_TABLE_INDEX virt) (PAGE_ALIGN phys OR flags)))"

definition vmm_unmap :: "u32 \<Rightarrow> u32 \<Rightarrow> (Vmm, unit) cm" where
  "vmm_unmap dir virt =
     seq (load (dir + 4 * PAGE_DIRECTORY_INDEX virt)) (\<lambda>pde.
     if pde AND PAGE_PRESENT = 0 then ret ()
     else store ((pde AND 0xfffff000) + 4 * PAGE_TABLE_INDEX virt) 0)"

definition vmm_switch_directory :: "u32 \<Rightarrow> (Vmm, unit) cm" where
  "vmm_switch_directory dir = modify (\<lambda>s. s\<lparr>v_cr3 := dir\<rparr>)"

definition vmm_get_kernel_directory :: "u32 \<Rightarrow> u32" where
  "vmm_get_kernel_directory kpd = kpd"

subsection \<open>Well-formed tables\<close>

definition same_page :: "u32 \<Rightarrow> u32 \<Rightarrow> bool" where
  "same_page v w \<longleftrightarrow> drop_bit 12 v = drop_bit 12 w"

text \<open>
  \<open>tables_ok\<close>: the directory and the tables present in it are whole pages, no two of them the
  same, and none of them is a frame that the frame allocator may still hand out.
\<close>

definition table_of :: "u32 \<Rightarrow> Vmm \<Rightarrow> u32 \<Rightarrow> u32" where
  "table_of dir s i = v_mem s (dir + 4 * i) AND 0xfffff000"

definition present :: "u32 \<Rightarrow> Vmm \<Rightarrow> u32 \<Rightarrow> bool" where
  "present dir s i \<longleftrightarrow> i < 1024 \<and> v_mem s (dir + 4 * i) AND PAGE_PRESENT \<noteq> 0"

definition pmm_idle :: "Pmm \<Rightarrow> u32 set" where
  "pmm_idle p = frame_adr ` managed p - pmm_used p"

definition tables_ok :: "u32 \<Rightarrow> Vmm \<Rightarrow> bool" where
  "tables_ok dir s \<longleftrightarrow> pmm_inv (v_pmm s) \<and> PAGE_ALIGN dir = dir \<and> dir \<notin> pmm_idle (v_pmm s) \<and>
     (\<forall>i. present dir s i \<longrightarrow> table_of dir s i \<noteq> dir \<and> table_of dir s i \<notin> pmm_idle (v_pmm s) \<and>
        (\<forall>j. present dir s j \<longrightarrow> table_of dir s i = table_of dir s j \<longrightarrow> i = j))"

text \<open>
  \<open>direct\<close>: the words of a page are accessed at their own addresses, as they are with paging
  off and where the processor's directory maps the page to itself. \<open>accessible\<close>: this holds
  of a directory and its tables. \<open>active\<close> are the pages the processor translates with.
\<close>

definition direct :: "Vmm \<Rightarrow> u32 \<Rightarrow> bool" where
  "direct s t \<longleftrightarrow> (\<forall>i < 1024. phys_of s (t + 4 * i) = Some (t + 4 * i))"

definition accessible :: "u32 \<Rightarrow> Vmm \<Rightarrow> bool" where
  "accessible dir s \<longleftrightarrow> direct s dir \<and> (\<forall>i. present dir s i \<longrightarrow> direct s (table_of dir s i))"

definition active :: "Vmm \<Rightarrow> u32 set" where
  "active s = (if v_paging s then insert (v_cr3 s) {table_of (v_cr3 s) s i | i. present (v_cr3 s) s i} else {})"

text \<open>
  The pages \<open>vmm_map\<close> may take for a new table: a free frame or, as it does not look at what
  \<open>pmm_alloc_frame\<close> returns, page 0 when there is none. \<open>can_grow\<close>: the page is accessed at
  its own address and serves as no table yet, and the directory is no table of the processor's
  (it may be the processor's directory).
\<close>

definition spare :: "Pmm \<Rightarrow> u32 set" where
  "spare p = (if pmm_idle p = {} then {0} else pmm_idle p)"

definition can_grow :: "u32 \<Rightarrow> Vmm \<Rightarrow> bool" where
  "can_grow dir s \<longleftrightarrow> (v_paging s \<longrightarrow> PAGE_ALIGN (v_cr3 s) = v_cr3 s) \<and> (dir \<in> active s \<longrightarrow> dir = v_cr3 s) \<and>
     (\<forall>t \<in> spare (v_pmm s). direct s t \<and> t \<notin> active s \<and> t \<noteq> dir \<and> (\<forall>i. present dir s i \<longrightarrow> table_of dir s i \<noteq> t))"

subsection \<open>Arithmetic of page addresses\<close>

lemma page_align_mask: "(0xfffff000 :: u32) = NOT (mask 12)" "(0xfff :: u32) = mask 12" "(0x3ff :: u32) = mask 10"
  by (simp_all add: mask_eq_exp_minus_1)

lemma PAGE_ALIGN_idem [simp]: "PAGE_ALIGN (PAGE_ALIGN x) = PAGE_ALIGN x"
  by (simp add: PAGE_ALIGN_def and.assoc)

lemma unat_PAGE_ALIGN: "unat (PAGE_ALIGN t) = unat t div 4096 * 4096"
proof -
  have "PAGE_ALIGN t = push_bit 12 (drop_bit 12 t)"
    unfolding PAGE_ALIGN_def page_align_mask by (rule bit_word_eqI) (auto simp: bit_simps)
  also have "\<dots> = t div 4096 * 4096" by (simp add: push_bit_eq_mult drop_bit_eq_div)
  finally have "unat (PAGE_ALIGN t) = unat (t div 4096) * 4096 mod 4294967296"
    by (simp add: unat_word_ariths)
  then have "unat (PAGE_ALIGN t) = unat t div 4096 * 4096 mod 4294967296"
    by (simp add: unat_div)
  moreover have "unat t div 4096 * 4096 < 4294967296" using u32_less [of t] by linarith
  ultimately show ?thesis by simp
qed

lemma aligned_unat: "PAGE_ALIGN t = t \<longleftrightarrow> unat t mod 4096 = 0"
  by (simp add: word_unat_eq_iff unat_PAGE_ALIGN minus_mod_eq_div_mult [symmetric])
    (metis diff_is_0_eq diff_self_eq_0 mod_less_eq_dividend le_eq_less_or_eq nat_less_le diff_diff_cancel)

lemma unat_page_add:
  assumes "PAGE_ALIGN t = t" and "i < 1024"
  shows "unat (t + 4 * i) = unat t + 4 * unat i"
proof -
  obtain k where k: "unat t = 4096 * k" using assms(1) by (auto simp: aligned_unat)
  then have "k < 1048576" using u32_less [of t] by simp
  moreover have i: "unat i < 1024" using assms(2) by (simp add: word_less_nat_alt)
  ultimately have "unat t + 4 * unat i < 4294967296" using k by simp
  moreover have "unat (4 * i) = 4 * unat i" using i by (simp add: unat_word_ariths)
  ultimately show ?thesis by (simp add: unat_word_ariths)
qed

lemma PAGE_ALIGN_entry:
  assumes "PAGE_ALIGN t = t" and "i < 1024"
  shows "PAGE_ALIGN (t + 4 * i) = t"
proof -
  obtain k where k: "unat t = 4096 * k" using assms(1) by (auto simp: aligned_unat)
  have "4 * unat i < 4096" using assms(2) by (simp add: word_less_nat_alt)
  then have "(4096 * k + 4 * unat i) div 4096 = k" by simp
  then show ?thesis
    using k unat_page_add [OF assms] by (simp add: word_unat_eq_iff unat_PAGE_ALIGN)
qed

lemma page_entry_eq:
  assumes "PAGE_ALIGN t = t" "PAGE_ALIGN u = u" "i < 1024" "j < 1024"
  shows "(t + 4 * i = u + 4 * j) = (t = u \<and> i = j)"
proof
  assume eq: "t + 4 * i = u + 4 * j"
  then have "t = u" using PAGE_ALIGN_entry assms by metis
  moreover have "unat t + 4 * unat i = unat u + 4 * unat j"
    using eq unat_page_add [OF assms(1,3)] unat_page_add [OF assms(2,4)] by simp
  ultimately show "t = u \<and> i = j" by (simp add: word_unat_eq_iff)
qed simp

lemma in_page: "PAGE_ALIGN t = t \<Longrightarrow> (x - t < 4096) = (PAGE_ALIGN x = t)"
proof -
  assume t: "PAGE_ALIGN t = t"
  obtain k where k: "unat t = 4096 * k" using t by (auto simp: aligned_unat)
  show ?thesis
  proof (cases "t \<le> x")
    case True
    then have "unat (x - t) = unat x - 4096 * k" "4096 * k \<le> unat x"
      using k by (simp_all add: unat_sub word_le_nat_alt)
    then show ?thesis
      using k by (auto simp: word_less_nat_alt word_unat_eq_iff unat_PAGE_ALIGN)
  next
    case False
    then have less: "unat x < 4096 * k" using k by (simp add: word_le_nat_alt)
    then have "unat x div 4096 < k" by (simp add: less_mult_imp_div_less mult.commute)
    moreover have "unat (x - t) = 4294967296 + unat x - 4096 * k"
      using less k u32_less [of t] u32_less [of x] by (simp add: unat_sub_if' word_le_nat_alt)
    moreover have "k < 1048576" using k u32_less [of t] by simp
    then have "4096 * k + 4096 \<le> 4294967296" by simp
    ultimately show ?thesis
      using k less by (auto simp: word_less_nat_alt word_unat_eq_iff unat_PAGE_ALIGN)
  qed
qed

lemma and_3ff_less: "(x :: u32) AND 0x3ff < 1024"
proof -
  have "unat (take_bit 10 x) < 2 ^ 10"
    by (simp only: unsigned_take_bit_eq take_bit_nat_less_exp)
  then show ?thesis
    unfolding page_align_mask(3) take_bit_eq_mask by (simp add: word_less_nat_alt)
qed

lemma page_index_less [simp]: "PAGE_DIRECTORY_INDEX v < 1024" "PAGE_TABLE_INDEX v < 1024"
  by (simp_all add: PAGE_DIRECTORY_INDEX_def PAGE_TABLE_INDEX_def and_3ff_less)

lemma bit_page_index:
  "bit (PAGE_DIRECTORY_INDEX v) n = (n < 10 \<and> bit v (22 + n))"
  "bit (PAGE_TABLE_INDEX v) n = (n < 10 \<and> bit v (12 + n))"
  unfolding PAGE_DIRECTORY_INDEX_def PAGE_TABLE_INDEX_def page_align_mask
  by (auto simp: bit_simps)

lemma same_page_iff:
  "same_page v w \<longleftrightarrow> PAGE_DIRECTORY_INDEX v = PAGE_DIRECTORY_INDEX w \<and> PAGE_TABLE_INDEX v = PAGE_TABLE_INDEX w"
proof
  assume "same_page v w"
  then have "bit (drop_bit 12 v) n = bit (drop_bit 12 w) n" for n
    by (simp add: same_page_def)
  then have eq: "bit v (12 + n) = bit w (12 + n)" for n
    by (simp add: bit_drop_bit_eq)
  have "bit v (22 + n) = bit w (22 + n)" for n using eq [of "10 + n"] by simp
  then have "PAGE_DIRECTORY_INDEX v = PAGE_DIRECTORY_INDEX w"
    by (intro bit_word_eqI) (simp only: bit_page_index)
  moreover have "PAGE_TABLE_INDEX v = PAGE_TABLE_INDEX w"
    by (rule bit_word_eqI) (simp only: bit_page_index eq)
  ultimately show "PAGE_DIRECTORY_INDEX v = PAGE_DIRECTORY_INDEX w \<and> PAGE_TABLE_INDEX v = PAGE_TABLE_INDEX w" ..
next
  assume eq: "PAGE_DIRECTORY_INDEX v = PAGE_DIRECTORY_INDEX w \<and> PAGE_TABLE_INDEX v = PAGE_TABLE_INDEX w"
  show "same_page v w"
    unfolding same_page_def
  proof (rule bit_word_eqI)
    fix n assume "n < LENGTH(32)"
    show "bit (drop_bit 12 v) n = bit (drop_bit 12 w) n"
    proof (cases "n < 10")
      case True
      then show ?thesis using eq bit_page_index(2) [of v n] bit_page_index(2) [of w n] by (simp add: bit_drop_bit_eq)
    next
      case False
      then have "12 + n = 22 + (n - 10)" by simp
      moreover have "bit v (22 + (n - 10)) = bit w (22 + (n - 10))"
      proof (cases "n - 10 < 10")
        case True
        then show ?thesis using eq bit_page_index(1) [of v "n - 10"] bit_page_index(1) [of w "n - 10"] by simp
      next
        case False
        then show ?thesis by (auto dest: bit_imp_le_length)
      qed
      ultimately show ?thesis by (simp add: bit_drop_bit_eq)
    qed
  qed
qed

subsection \<open>Mapping and unmapping one page\<close>

lemma wp_with_pmm: "wp (with_pmm m) Q E s =
    wp m (\<lambda>x p. Q x (s\<lparr>v_pmm := p\<rparr>)) (\<lambda>e p. E e (s\<lparr>v_pmm := p\<rparr>)) (v_pmm s)"
  by (auto simp: wp_def with_pmm_def split: option.splits sum.splits)

lemma table_aligned [simp]: "PAGE_ALIGN (table_of dir s i) = table_of dir s i"
  by (simp add: table_of_def PAGE_ALIGN_def and.assoc)

lemma tables_okD:
  assumes "tables_ok dir s"
  shows "pmm_inv (v_pmm s)" "PAGE_ALIGN dir = dir" "dir \<notin> pmm_idle (v_pmm s)"
    "present dir s i \<Longrightarrow> table_of dir s i \<noteq> dir"
    "present dir s i \<Longrightarrow> table_of dir s i \<notin> pmm_idle (v_pmm s)"
    "present dir s i \<Longrightarrow> present dir s j \<Longrightarrow> (table_of dir s i = table_of dir s j) = (i = j)"
  using assms by (auto simp: tables_ok_def)

lemma pte_at_cases:
  "pte_at dir s w = (if present dir s (PAGE_DIRECTORY_INDEX w)
     then Some (v_mem s (table_of dir s (PAGE_DIRECTORY_INDEX w) + 4 * PAGE_TABLE_INDEX w)) else None)"
  by (simp add: pte_at_def present_def table_of_def Let_def)

text \<open>A store into a table, or anywhere outside the directory, leaves the directory alone.\<close>

lemma dir_unchanged:
  assumes "\<And>i. i < 1024 \<Longrightarrow> v_mem s' (dir + 4 * i) = v_mem s (dir + 4 * i)"
  shows "present dir s' = present dir s" and "i < 1024 \<Longrightarrow> table_of dir s' i = table_of dir s i"
  using assms by (auto simp: present_def table_of_def fun_eq_iff)

lemma tables_ok_cong:
  assumes "tables_ok dir s" and "v_pmm s' = v_pmm s"
    and "\<And>i. i < 1024 \<Longrightarrow> v_mem s' (dir + 4 * i) = v_mem s (dir + 4 * i)"
  shows "tables_ok dir s'"
proof -
  have "table_of dir s' i = table_of dir s i" if "present dir s i" for i
    using that dir_unchanged(2) [OF assms(3)] by (simp add: present_def)
  then show ?thesis
    using assms(1,2) dir_unchanged(1) [OF assms(3)] by (simp add: tables_ok_def)
qed

lemma pte_store:
  assumes ok: "tables_ok dir s" and p: "present dir s (PAGE_DIRECTORY_INDEX v)"
    and s': "s' = s\<lparr>v_mem := (v_mem s)(table_of dir s (PAGE_DIRECTORY_INDEX v) + 4 * PAGE_TABLE_INDEX v := x)\<rparr>"
  shows "tables_ok dir s'" and "pte_at dir s' w = (if same_page v w then Some x else pte_at dir s w)"
proof -
  let ?t = "table_of dir s (PAGE_DIRECTORY_INDEX v)"
  have same: "v_mem s' (dir + 4 * i) = v_mem s (dir + 4 * i)" if "i < 1024" for i
    using page_entry_eq [OF tables_okD(2) [OF ok] table_aligned that page_index_less(2)]
      tables_okD(4) [OF ok p] by (simp add: s')
  then show "tables_ok dir s'" using tables_ok_cong [OF ok] s' by simp
  have "(table_of dir s (PAGE_DIRECTORY_INDEX w) + 4 * PAGE_TABLE_INDEX w = ?t + 4 * PAGE_TABLE_INDEX v)
      = same_page v w" if "present dir s (PAGE_DIRECTORY_INDEX w)"
    unfolding page_entry_eq [OF table_aligned table_aligned page_index_less(2) page_index_less(2)]
      tables_okD(6) [OF ok that p] by (auto simp: same_page_iff)
  moreover have "same_page v w \<Longrightarrow> present dir s (PAGE_DIRECTORY_INDEX w)" using p by (simp add: same_page_iff)
  moreover have "pte_at dir s' w = (if present dir s (PAGE_DIRECTORY_INDEX w)
     then Some (v_mem s' (table_of dir s (PAGE_DIRECTORY_INDEX w) + 4 * PAGE_TABLE_INDEX w)) else None)"
    by (simp add: pte_at_cases dir_unchanged(1) [OF same] dir_unchanged(2) [OF same])
  ultimately show "pte_at dir s' w = (if same_page v w then Some x else pte_at dir s w)"
    by (simp add: s' pte_at_cases [of dir s])
qed

lemma frame_aligned: "f < 1048576 \<Longrightarrow> PAGE_ALIGN (frame_adr f) = frame_adr f"
  by (simp add: aligned_unat unat_frame_adr)

lemma new_pde:
  assumes "PAGE_ALIGN t = t" and "flags AND 0xfffff000 = 0"
  shows "(((t OR 1) OR 2) OR flags) AND 0xfffff000 = t" and "(((t OR 1) OR 2) OR flags) AND 1 \<noteq> (0 :: u32)"
proof -
  have t: "\<not> bit t n" if "n < 12" for n
  proof -
    have "bit (PAGE_ALIGN t) n = bit t n" using assms(1) by simp
    then show ?thesis using that unfolding PAGE_ALIGN_def page_align_mask by (simp add: bit_simps)
  qed
  have f: "\<not> bit flags n" if "12 \<le> n" for n
  proof -
    have "\<not> bit (flags AND 0xfffff000) n" using assms(2) by simp
    then have "\<not> (bit flags n \<and> n < LENGTH(32))" using that unfolding page_align_mask by (simp add: bit_simps)
    then show ?thesis using bit_imp_le_length [of flags n] by auto
  qed
  show "(((t OR 1) OR 2) OR flags) AND 0xfffff000 = t"
    unfolding page_align_mask
  proof (rule bit_word_eqI)
    fix n assume "n < LENGTH(32)"
    then show "bit ((((t OR 1) OR 2) OR flags) AND NOT (mask 12)) n = bit t n"
      using t [of n] f [of n] by (cases "12 \<le> n") (simp_all add: bit_simps flag_simps)
  qed
  show "(((t OR 1) OR 2) OR flags) AND 1 \<noteq> 0"
    by (simp add: flag_simps) (simp add: bit_simps)
qed

lemma pte_flags:
  assumes "PAGE_ALIGN t = t" and "flags AND 0xfffff000 = 0"
  shows "(t OR flags) AND 0xfffff000 = t" and "(t OR flags) AND 1 = flags AND (1 :: u32)"
proof -
  have "t AND 0xfffff000 = t" using assms(1) by (simp add: PAGE_ALIGN_def)
  then show "(t OR flags) AND 0xfffff000 = t" using assms(2) by (simp add: bit.conj_disj_distrib2)
  have "t AND 1 = (t AND 0xfffff000) AND 1" using assms(1) by (simp add: PAGE_ALIGN_def)
  then have "t AND 1 = 0" by (simp only: and.assoc) simp
  then show "(t OR flags) AND 1 = flags AND 1" by (simp add: bit.conj_disj_distrib2)
qed

text \<open>Adding an empty table to the directory.\<close>

lemma pte_new_table:
  assumes ok: "tables_ok dir s" and absent: "\<not> present dir s i" and i: "i < 1024"
    and t: "PAGE_ALIGN t = t" "t \<noteq> dir" "\<And>j. present dir s j \<Longrightarrow> table_of dir s j \<noteq> t"
    and pmm: "pmm_inv (v_pmm s')" "pmm_idle (v_pmm s') \<subseteq> pmm_idle (v_pmm s) - {t}"
    and flags: "flags AND 0xfffff000 = 0"
    and pde: "v_mem s' (dir + 4 * i) = ((t OR 1) OR 2) OR flags"
    and zero: "\<And>j. j < 1024 \<Longrightarrow> v_mem s' (t + 4 * j) = 0"
    and same: "\<And>u j. PAGE_ALIGN u = u \<Longrightarrow> j < 1024 \<Longrightarrow> u \<noteq> t \<Longrightarrow> u \<noteq> dir \<or> j \<noteq> i \<Longrightarrow>
      v_mem s' (u + 4 * j) = v_mem s (u + 4 * j)"
  shows "tables_ok dir s'" "present dir s' i" "table_of dir s' i = t"
    "translate dir s' w = translate dir s w"
    "pte_at dir s' w = (if PAGE_DIRECTORY_INDEX w = i then Some 0 else pte_at dir s w)"
proof -
  have d: "PAGE_ALIGN dir = dir" by (rule tables_okD(2) [OF ok])
  show p: "present dir s' i" and ti: "table_of dir s' i = t"
    using pde i new_pde [OF t(1) flags] by (simp_all add: present_def table_of_def)
  have other: "present dir s' j = present dir s j" "table_of dir s' j = table_of dir s j" if "j \<noteq> i" "j < 1024" for j
    using same [OF d that(2)] t(2) that by (simp_all add: present_def table_of_def)
  have pres: "present dir s' j \<Longrightarrow> j < 1024" for j by (simp add: present_def)
  have tj: "present dir s' j \<Longrightarrow> j \<noteq> i \<Longrightarrow> table_of dir s' j \<noteq> dir \<and>
      table_of dir s' j \<notin> pmm_idle (v_pmm s) \<and> table_of dir s' j \<noteq> t" for j
    using other [of j] pres [of j] tables_okD(4,5) [OF ok, of j] t(3) [of j] by auto
  show "tables_ok dir s'"
    unfolding tables_ok_def
  proof (intro conjI allI impI)
    show "pmm_inv (v_pmm s')" "PAGE_ALIGN dir = dir" "dir \<notin> pmm_idle (v_pmm s')"
      using pmm d tables_okD(3) [OF ok] by auto
    fix j assume j: "present dir s' j"
    show "table_of dir s' j \<noteq> dir" "table_of dir s' j \<notin> pmm_idle (v_pmm s')"
      using tj [OF j] ti t(2) pmm(2) by (cases "j = i"; auto)+
    fix k assume k: "present dir s' k" and eq: "table_of dir s' j = table_of dir s' k"
    show "j = k"
    proof (cases "j = i \<or> k = i")
      case True
      then show ?thesis using tj [OF j] tj [OF k] ti eq by metis
    next
      case False
      then have "present dir s j" "present dir s k" "table_of dir s j = table_of dir s k"
        using other [of j] other [of k] pres [OF j] pres [OF k] j k eq by simp_all
      then show ?thesis using tables_okD(6) [OF ok] by blast
    qed
  qed
  show pte: "pte_at dir s' w = (if PAGE_DIRECTORY_INDEX w = i then Some 0 else pte_at dir s w)" for w
  proof (cases "PAGE_DIRECTORY_INDEX w = i")
    case True
    then show ?thesis using p ti zero by (simp add: pte_at_cases)
  next
    case False
    let ?j = "PAGE_DIRECTORY_INDEX w"
    have "v_mem s' (table_of dir s ?j + 4 * PAGE_TABLE_INDEX w) = v_mem s (table_of dir s ?j + 4 * PAGE_TABLE_INDEX w)"
      if "present dir s ?j"
      using same [OF table_aligned page_index_less(2)] t(3) [OF that] tables_okD(4) [OF ok that] by simp
    then show ?thesis using False other [of ?j] by (simp add: pte_at_cases)
  qed
  show "translate dir s' w = translate dir s w"
    using absent by (simp add: translate_def pte) (simp add: pte_at_cases)
qed

subsection \<open>Accesses with paging on\<close>

lemma wp_vmm_load: "direct s t \<Longrightarrow> i < 1024 \<Longrightarrow> wp (load (t + 4 * i)) Q E s = Q (v_mem s (t + 4 * i)) s"
  by (simp add: load_def wp_simps direct_def)

lemma wp_vmm_store: "direct s t \<Longrightarrow> i < 1024 \<Longrightarrow>
    wp (store (t + 4 * i) v) Q E s = Q () (s\<lparr>v_mem := (v_mem s)(t + 4 * i := v)\<rparr>)"
  by (simp add: store_def wp_simps direct_def)

lemma entry_index:
  assumes "PAGE_ALIGN t = t" and "i < 1024"
  shows "PAGE_DIRECTORY_INDEX (t + 4 * i) = PAGE_DIRECTORY_INDEX t" "PAGE_TABLE_INDEX (t + 4 * i) = PAGE_TABLE_INDEX t"
proof -
  have "bit (t + 4 * i) n = bit t n" if "12 \<le> n" for n
  proof -
    have "bit (PAGE_ALIGN (t + 4 * i)) n = bit (PAGE_ALIGN t) n" using PAGE_ALIGN_entry [OF assms] assms(1) by simp
    then show ?thesis
      using that bit_imp_le_length [of "t + 4 * i" n] bit_imp_le_length [of t n]
      unfolding PAGE_ALIGN_def page_align_mask by (auto simp: bit_simps)
  qed
  then show "PAGE_DIRECTORY_INDEX (t + 4 * i) = PAGE_DIRECTORY_INDEX t" "PAGE_TABLE_INDEX (t + 4 * i) = PAGE_TABLE_INDEX t"
    by (auto intro!: bit_word_eqI simp: bit_page_index)
qed

text \<open>The two words that decide whether a page is accessed at its own address.\<close>

lemma direct_cong:
  assumes t: "PAGE_ALIGN t = t" and cpu: "v_paging s' = v_paging s" "v_cr3 s' = v_cr3 s"
    and pde: "v_paging s \<Longrightarrow> v_mem s' (v_cr3 s + 4 * PAGE_DIRECTORY_INDEX t) = v_mem s (v_cr3 s + 4 * PAGE_DIRECTORY_INDEX t)"
    and pte: "v_paging s \<Longrightarrow> present (v_cr3 s) s (PAGE_DIRECTORY_INDEX t) \<Longrightarrow>
      v_mem s' (table_of (v_cr3 s) s (PAGE_DIRECTORY_INDEX t) + 4 * PAGE_TABLE_INDEX t) =
      v_mem s (table_of (v_cr3 s) s (PAGE_DIRECTORY_INDEX t) + 4 * PAGE_TABLE_INDEX t)"
  shows "direct s' t = direct s t"
proof -
  have "phys_of s' (t + 4 * i) = phys_of s (t + 4 * i)" if i: "i < 1024" for i
  proof (cases "v_paging s")
    case True
    have "pte_at (v_cr3 s) s' (t + 4 * i) = pte_at (v_cr3 s) s (t + 4 * i)"
      using pde [OF True] pte [OF True] by (simp add: pte_at_def Let_def entry_index [OF t i] present_def table_of_def)
    then show ?thesis using cpu by (simp add: phys_of_def translate_def)
  next
    case False
    then show ?thesis using cpu by (simp add: phys_of_def)
  qed
  then show ?thesis by (simp add: direct_def)
qed

lemma direct_present:
  assumes "direct s t" and "v_paging s" and "PAGE_ALIGN t = t"
  shows "present (v_cr3 s) s (PAGE_DIRECTORY_INDEX t)"
proof -
  have "(0 :: u32) < 1024" by simp
  then have "phys_of s (t + 4 * 0) = Some (t + 4 * 0)" using assms(1) unfolding direct_def by blast
  then show ?thesis
    using assms(2) by (auto simp: phys_of_def translate_def pte_at_cases split: if_splits)
qed

lemma direct_keep:
  assumes t: "PAGE_ALIGN t = t" and cpu: "v_paging s' = v_paging s" "v_cr3 s' = v_cr3 s"
    and same: "\<And>u j. u \<in> active s \<Longrightarrow> j < 1024 \<Longrightarrow> v_mem s' (u + 4 * j) = v_mem s (u + 4 * j)"
  shows "direct s' t = direct s t"
  by (rule direct_cong [OF t cpu]) (auto intro!: same simp: active_def)

lemma active_aligned: "(v_paging s \<longrightarrow> PAGE_ALIGN (v_cr3 s) = v_cr3 s) \<Longrightarrow> u \<in> active s \<Longrightarrow> PAGE_ALIGN u = u"
  by (auto simp: active_def split: if_splits)

lemma wp_zero_page:
  assumes cr3: "v_paging s \<longrightarrow> PAGE_ALIGN (v_cr3 s) = v_cr3 s" and t: "PAGE_ALIGN t = t" "direct s t" "t \<notin> active s"
    and Q: "\<And>m. (\<And>j. j < 1024 \<Longrightarrow> m (t + 4 * j) = 0) \<Longrightarrow>
      (\<And>u j. PAGE_ALIGN u = u \<Longrightarrow> u \<noteq> t \<Longrightarrow> j < 1024 \<Longrightarrow> m (u + 4 * j) = v_mem s (u + 4 * j)) \<Longrightarrow>
      Q () (s\<lparr>v_mem := m\<rparr>)"
  shows "wp (zero_page t) Q E s"
  unfolding zero_page_def
proof (rule wp_for [where I = "\<lambda>k u. \<exists>m. u = s\<lparr>v_mem := m\<rparr> \<and> (\<forall>j < 1024. unat j < k \<longrightarrow> m (t + 4 * j) = 0) \<and>
    (\<forall>u j. PAGE_ALIGN u = u \<longrightarrow> u \<noteq> t \<longrightarrow> j < 1024 \<longrightarrow> m (u + 4 * j) = v_mem s (u + 4 * j))"])
  fix i :: u32 and u
  assume i: "i < 1024" and "\<exists>m. u = s\<lparr>v_mem := m\<rparr> \<and> (\<forall>j < 1024. unat j < unat i \<longrightarrow> m (t + 4 * j) = 0) \<and>
    (\<forall>u j. PAGE_ALIGN u = u \<longrightarrow> u \<noteq> t \<longrightarrow> j < 1024 \<longrightarrow> m (u + 4 * j) = v_mem s (u + 4 * j))"
  then obtain m where u: "u = s\<lparr>v_mem := m\<rparr>" and z: "\<And>j. j < 1024 \<Longrightarrow> unat j < unat i \<Longrightarrow> m (t + 4 * j) = 0"
    and o: "\<And>u j. PAGE_ALIGN u = u \<Longrightarrow> u \<noteq> t \<Longrightarrow> j < 1024 \<Longrightarrow> m (u + 4 * j) = v_mem s (u + 4 * j)"
    by blast
  have "direct u t = direct s t"
  proof (rule direct_keep [OF t(1)])
    fix v j assume "v \<in> active s" "(j :: u32) < 1024"
    then show "v_mem u (v + 4 * j) = v_mem s (v + 4 * j)"
      using o [of v j] active_aligned [OF cr3] t(3) u by auto
  qed (simp_all add: u)
  then have d: "direct u t" using t(2) by simp
  have "(m(t + 4 * i := 0)) (t + 4 * j) = 0" if "j < 1024" "unat j < Suc (unat i)" for j
    using that z [of j] by (auto simp: less_Suc_eq word_unat_eq_iff [symmetric])
  moreover have "(m(t + 4 * i := 0)) (v + 4 * j) = v_mem s (v + 4 * j)" if "PAGE_ALIGN v = v" "v \<noteq> t" "j < 1024" for v j
    using that o [OF that] page_entry_eq [OF that(1) t(1) that(3) i] by simp
  ultimately show "wp (store (t + 4 * i) 0) (\<lambda>_ s'. \<exists>m. s' = s\<lparr>v_mem := m\<rparr> \<and>
      (\<forall>j < 1024. unat j < Suc (unat i) \<longrightarrow> m (t + 4 * j) = 0) \<and>
      (\<forall>u j. PAGE_ALIGN u = u \<longrightarrow> u \<noteq> t \<longrightarrow> j < 1024 \<longrightarrow> m (u + 4 * j) = v_mem s (u + 4 * j))) E u"
    unfolding wp_vmm_store [OF d i] by (intro exI [of _ "m(t + 4 * i := 0)"]) (simp add: u)
next
  show "\<exists>m. s = s\<lparr>v_mem := m\<rparr> \<and> (\<forall>j < 1024. unat j < 0 \<longrightarrow> m (t + 4 * j) = 0) \<and>
    (\<forall>u j. PAGE_ALIGN u = u \<longrightarrow> u \<noteq> t \<longrightarrow> j < 1024 \<longrightarrow> m (u + 4 * j) = v_mem s (u + 4 * j))"
    by (intro exI [of _ "v_mem s"]) simp
next
  fix u assume "\<exists>m. u = s\<lparr>v_mem := m\<rparr> \<and> (\<forall>j < 1024. unat j < unat (1024 :: u32) \<longrightarrow> m (t + 4 * j) = 0) \<and>
    (\<forall>u j. PAGE_ALIGN u = u \<longrightarrow> u \<noteq> t \<longrightarrow> j < 1024 \<longrightarrow> m (u + 4 * j) = v_mem s (u + 4 * j))"
  then obtain m where m: "u = s\<lparr>v_mem := m\<rparr>" "\<forall>j < 1024. unat j < unat (1024 :: u32) \<longrightarrow> m (t + 4 * j) = 0"
    "\<forall>u j. PAGE_ALIGN u = u \<longrightarrow> u \<noteq> t \<longrightarrow> j < 1024 \<longrightarrow> m (u + 4 * j) = v_mem s (u + 4 * j)" by blast
  have "m (t + 4 * j) = 0" if "j < 1024" for j using m(2) that by (simp add: word_less_nat_alt)
  then show "Q () u" unfolding m(1) using m(3) by (intro Q) blast+
qed

subsection \<open>\<open>vmm_map\<close> and \<open>vmm_unmap\<close>\<close>

text \<open>
  What \<open>vmm_map\<close> has written: the entry \<open>x\<close> in the table \<open>t\<close> of the page, which was there
  or is a spare page whose other words are now 0; besides \<open>t\<close> only the directory has changed.
\<close>

definition placed :: "u32 \<Rightarrow> Vmm \<Rightarrow> u32 \<Rightarrow> u32 \<Rightarrow> Vmm \<Rightarrow> u32 \<Rightarrow> bool" where
  "placed dir s v x s' t \<longleftrightarrow> table_of dir s' (PAGE_DIRECTORY_INDEX v) = t \<and>
     (if present dir s (PAGE_DIRECTORY_INDEX v) then t = table_of dir s (PAGE_DIRECTORY_INDEX v)
      else t \<in> spare (v_pmm s) \<and> (\<forall>j < 1024. v_mem s' (t + 4 * j) = (if j = PAGE_TABLE_INDEX v then x else 0))) \<and>
     (\<forall>u j. PAGE_ALIGN u = u \<longrightarrow> j < 1024 \<longrightarrow> u \<notin> {dir, t} \<longrightarrow> v_mem s' (u + 4 * j) = v_mem s (u + 4 * j))"

lemma spare_aligned: "pmm_inv p \<Longrightarrow> t \<in> spare p \<Longrightarrow> PAGE_ALIGN t = t"
proof (cases "pmm_idle p = {}")
  case True
  assume "t \<in> spare p"
  then show ?thesis using True by (simp add: spare_def PAGE_ALIGN_def)
next
  case False
  assume "pmm_inv p" "t \<in> spare p"
  then obtain f where f: "f \<in> managed p" "t = frame_adr f" using False by (auto simp: spare_def pmm_idle_def)
  then have "f < 1048576" using managed_less [OF \<open>pmm_inv p\<close> f(1)] by simp
  then show ?thesis using f(2) frame_aligned by simp
qed

text \<open>Once the new table is zeroed and hung into the directory, it is accessed at its own address.\<close>

lemma direct_new_table:
  assumes ok: "tables_ok dir s" and acc: "accessible dir s" and grow: "can_grow dir s" and absent: "\<not> present dir s i"
    and i: "i < 1024" and t: "t \<in> spare (v_pmm s)"
    and other: "\<And>u j. PAGE_ALIGN u = u \<Longrightarrow> u \<noteq> t \<Longrightarrow> j < 1024 \<Longrightarrow> m (u + 4 * j) = v_mem s (u + 4 * j)"
  shows "direct (s\<lparr>v_pmm := p, v_mem := m\<rparr>) dir"
    and "direct (s\<lparr>v_pmm := p, v_mem := m(dir + 4 * i := x)\<rparr>) t"
proof -
  have cr3: "v_paging s \<longrightarrow> PAGE_ALIGN (v_cr3 s) = v_cr3 s" and da: "dir \<in> active s \<longrightarrow> dir = v_cr3 s"
    and d: "direct s t" and ta: "t \<notin> active s"
    using grow t by (simp_all add: can_grow_def)
  note al = active_aligned [OF cr3] and tal = spare_aligned [OF tables_okD(1) [OF ok] t] and dal = tables_okD(2) [OF ok]
  have same: "m (u + 4 * j) = v_mem s (u + 4 * j)" if "u \<in> active s" "j < 1024" for u j
    using that other [OF al [OF that(1)]] ta by blast
  have "direct (s\<lparr>v_pmm := p, v_mem := m\<rparr>) dir = direct s dir"
    by (rule direct_keep [OF dal]) (simp_all add: same)
  then show "direct (s\<lparr>v_pmm := p, v_mem := m\<rparr>) dir" using acc by (simp add: accessible_def)
  have "direct (s\<lparr>v_pmm := p, v_mem := m(dir + 4 * i := x)\<rparr>) t = direct s t"
  proof (rule direct_cong [OF tal])
    assume pg: "v_paging s"
    let ?j = "PAGE_DIRECTORY_INDEX t"
    have act: "v_cr3 s \<in> active s" using pg by (simp add: active_def)
    have p: "present (v_cr3 s) s ?j" by (rule direct_present [OF d pg tal])
    then have "\<not> (v_cr3 s = dir \<and> ?j = i)" using absent by metis
    then have "v_cr3 s + 4 * ?j \<noteq> dir + 4 * i"
      unfolding page_entry_eq [OF al [OF act] dal page_index_less(1) i] .
    then show "v_mem (s\<lparr>v_pmm := p, v_mem := m(dir + 4 * i := x)\<rparr>) (v_cr3 s + 4 * ?j) = v_mem s (v_cr3 s + 4 * ?j)"
      using same [OF act page_index_less(1)] by simp
    have tact: "table_of (v_cr3 s) s ?j \<in> active s" using pg p by (auto simp: active_def)
    have "table_of (v_cr3 s) s ?j \<noteq> dir"
    proof
      assume eq: "table_of (v_cr3 s) s ?j = dir"
      then have "dir = v_cr3 s" using da tact by simp
      then show False using tables_okD(4) [OF ok, of ?j] p eq by metis
    qed
    then have "table_of (v_cr3 s) s ?j + 4 * PAGE_TABLE_INDEX t \<noteq> dir + 4 * i"
      using page_entry_eq [OF table_aligned dal page_index_less(2) i] by blast
    then show "v_mem (s\<lparr>v_pmm := p, v_mem := m(dir + 4 * i := x)\<rparr>) (table_of (v_cr3 s) s ?j + 4 * PAGE_TABLE_INDEX t)
        = v_mem s (table_of (v_cr3 s) s ?j + 4 * PAGE_TABLE_INDEX t)"
      using same [OF tact page_index_less(2)] by simp
  qed simp_all
  then show "direct (s\<lparr>v_pmm := p, v_mem := m(dir + 4 * i := x)\<rparr>) t" using d by simp
qed

lemma vmm_map_old_table:
  assumes ok: "tables_ok dir s" and p: "present dir s (PAGE_DIRECTORY_INDEX v)"
    and s': "s' = s\<lparr>v_mem := (v_mem s)(table_of dir s (PAGE_DIRECTORY_INDEX v) + 4 * PAGE_TABLE_INDEX v := x)\<rparr>"
  shows "tables_ok dir s'" "pte_at dir s' v = Some x" "\<not> same_page v w \<Longrightarrow> translate dir s' w = translate dir s w"
    and "placed dir s v x s' (table_of dir s (PAGE_DIRECTORY_INDEX v))"
proof -
  let ?t = "table_of dir s (PAGE_DIRECTORY_INDEX v)"
  show "tables_ok dir s'" "pte_at dir s' v = Some x" "\<not> same_page v w \<Longrightarrow> translate dir s' w = translate dir s w"
    using pte_store [OF ok p s'] by (simp_all add: same_page_def translate_def)
  have same: "v_mem s' (u + 4 * j) = v_mem s (u + 4 * j)" if "PAGE_ALIGN u = u" "j < 1024" "u \<noteq> ?t" for u j
    using page_entry_eq [OF that(1) table_aligned that(2) page_index_less(2)] that(3) by (simp add: s')
  have "table_of dir s' (PAGE_DIRECTORY_INDEX v) = ?t"
    using same [OF tables_okD(2) [OF ok] page_index_less(1)] tables_okD(4) [OF ok p]
    by (simp add: table_of_def [of dir s'] table_of_def [of dir s])
  then show "placed dir s v x s' ?t" using p same by (simp add: placed_def)
qed

lemma wp_vmm_map:
  assumes ok: "tables_ok dir s" and flags: "flags AND 0xfffff000 = 0" and acc: "accessible dir s"
    and room: "present dir s (PAGE_DIRECTORY_INDEX v) \<or> can_grow dir s"
    and Q: "\<And>s' t. tables_ok dir s' \<Longrightarrow> pte_at dir s' v = Some (PAGE_ALIGN phys OR flags) \<Longrightarrow>
      (\<And>w. \<not> same_page v w \<Longrightarrow> translate dir s' w = translate dir s w) \<Longrightarrow>
      placed dir s v (PAGE_ALIGN phys OR flags) s' t \<Longrightarrow> Q () s'"
  shows "wp (vmm_map dir v phys flags) Q E s"
proof -
  let ?i = "PAGE_DIRECTORY_INDEX v" and ?x = "PAGE_ALIGN phys OR flags"
  note dal = tables_okD(2) [OF ok]
  have d: "direct s dir" using acc by (simp add: accessible_def)
  show ?thesis
  proof (cases "present dir s ?i")
    case True
    let ?s = "s\<lparr>v_mem := (v_mem s)(table_of dir s ?i + 4 * PAGE_TABLE_INDEX v := ?x)\<rparr>"
    have "wp (store (table_of dir s ?i + 4 * PAGE_TABLE_INDEX v) ?x) Q E s = Q () ?s"
      using acc True by (intro wp_vmm_store) (simp_all add: accessible_def)
    moreover have "Q () ?s" using vmm_map_old_table [OF ok True refl] by (intro Q)
    ultimately show ?thesis using True
      by (simp add: vmm_map_def wp_seq_fun wp_vmm_load [OF d] wp_ret present_def table_of_def)
  next
    case False
    then have pde: "v_mem s (dir + 4 * ?i) AND 1 = 0" by (simp add: present_def)
    have grow: "can_grow dir s" using room False by simp
    have cr3: "v_paging s \<longrightarrow> PAGE_ALIGN (v_cr3 s) = v_cr3 s" using grow by (simp add: can_grow_def)
    have rest: "wp (zero_page t) (\<lambda>_. wp (store (dir + 4 * ?i) (((t OR 1) OR 2) OR flags))
        (\<lambda>_. wp (store (t + 4 * PAGE_TABLE_INDEX v) ?x) Q E) E) E (s\<lparr>v_pmm := p\<rparr>)"
      if t: "t \<in> spare (v_pmm s)" and p: "pmm_inv p" "pmm_idle p \<subseteq> pmm_idle (v_pmm s) - {t}" for t p
    proof -
      have tal: "PAGE_ALIGN t = t" by (rule spare_aligned [OF tables_okD(1) [OF ok] t])
      have gt: "direct s t" "t \<notin> active s" "t \<noteq> dir" "\<And>i. present dir s i \<Longrightarrow> table_of dir s i \<noteq> t"
        using grow t by (simp_all add: can_grow_def)
      have pm: "direct (s\<lparr>v_pmm := p\<rparr>) t" "active (s\<lparr>v_pmm := p\<rparr>) = active s"
        using gt(1) direct_cong [OF tal, of "s\<lparr>v_pmm := p\<rparr>" s]
        by (simp_all add: active_def present_def table_of_def)
      show ?thesis
      proof (rule wp_zero_page [OF _ tal pm(1)])
        fix m assume zero: "\<And>j. j < 1024 \<Longrightarrow> m (t + 4 * j) = 0"
          and "\<And>u j. PAGE_ALIGN u = u \<Longrightarrow> u \<noteq> t \<Longrightarrow> j < 1024 \<Longrightarrow> m (u + 4 * j) = v_mem (s\<lparr>v_pmm := p\<rparr>) (u + 4 * j)"
        then have other: "\<And>u j. PAGE_ALIGN u = u \<Longrightarrow> u \<noteq> t \<Longrightarrow> j < 1024 \<Longrightarrow> m (u + 4 * j) = v_mem s (u + 4 * j)"
          by simp
        let ?m = "m(dir + 4 * ?i := (((t OR 1) OR 2) OR flags))"
        let ?u = "s\<lparr>v_pmm := p, v_mem := ?m\<rparr>"
        have same: "?m (u + 4 * j) = v_mem s (u + 4 * j)"
          if "PAGE_ALIGN u = u" "j < 1024" "u \<noteq> t" "u \<noteq> dir \<or> j \<noteq> ?i" for u j
          using that other [of u j] page_entry_eq [OF that(1) dal that(2) page_index_less(1)] by auto
        have zero': "?m (t + 4 * j) = 0" if "j < 1024" for j
          using zero [OF that] page_entry_eq [OF tal dal that page_index_less(1)] gt(3) by simp
        have new: "tables_ok dir ?u" "present dir ?u ?i" "table_of dir ?u ?i = t" "translate dir ?u w = translate dir s w" for w
          using pte_new_table [OF ok False page_index_less(1) tal gt(3,4), of ?u flags] p flags zero' same
          by simp_all
        let ?s' = "?u\<lparr>v_mem := ?m(t + 4 * PAGE_TABLE_INDEX v := ?x)\<rparr>"
        have "?s' = ?u\<lparr>v_mem := (v_mem ?u)(table_of dir ?u ?i + 4 * PAGE_TABLE_INDEX v := ?x)\<rparr>" using new(3) by simp
        note fin = vmm_map_old_table [OF new(1,2) this]
        have "placed dir s v ?x ?s' t"
        proof -
          define s2 where "s2 = ?s'"
          have "v_mem s2 (t + 4 * j) = (if j = PAGE_TABLE_INDEX v then ?x else 0)" if "j < 1024" for j
            using zero' [OF that] page_entry_eq [OF tal tal that page_index_less(2)] by (simp add: s2_def)
          moreover have "v_mem s2 (u + 4 * j) = v_mem s (u + 4 * j)" if "PAGE_ALIGN u = u" "j < 1024" "u \<notin> {dir, t}" for u j
            using same [of u j] that page_entry_eq [OF that(1) tal that(2) page_index_less(2)] by (simp add: s2_def)
          moreover have "table_of dir s2 ?i = t" using fin(4) new(3) by (simp add: placed_def s2_def)
          ultimately have "placed dir s v ?x s2 t" using t False by (simp add: placed_def)
          then show ?thesis by (simp only: s2_def)
        qed
        then have q: "Q () ?s'"
          using fin(1-3) new(4) by (intro Q [of ?s' t]) (simp_all only:)
        note new_direct = direct_new_table [OF ok acc grow False page_index_less(1) t other]
        have d2: "direct ?u t" by (rule new_direct(2))
        have "wp (store (t + 4 * PAGE_TABLE_INDEX v) ?x) Q E ?u"
          unfolding wp_vmm_store [OF d2 page_index_less(2)] using q by simp
        moreover have "s\<lparr>v_pmm := p, v_mem := m\<rparr>\<lparr>v_mem := (v_mem (s\<lparr>v_pmm := p, v_mem := m\<rparr>))
            (dir + 4 * ?i := (((t OR 1) OR 2) OR flags))\<rparr> = ?u" by simp
        moreover have d1: "direct (s\<lparr>v_pmm := p, v_mem := m\<rparr>) dir" by (rule new_direct(1))
        ultimately show "wp (store (dir + 4 * ?i) (((t OR 1) OR 2) OR flags))
            (\<lambda>_. wp (store (t + 4 * PAGE_TABLE_INDEX v) ?x) Q E) E (s\<lparr>v_pmm := p, v_mem := m\<rparr>)"
          by (simp only: wp_vmm_store [OF d1 page_index_less(1)])
      qed (use cr3 gt(2) pm(2) in simp_all)
    qed
    have "wp pmm_alloc_frame (\<lambda>t p. wp (zero_page t) (\<lambda>_. wp (store (dir + 4 * ?i) (((t OR 1) OR 2) OR flags))
        (\<lambda>_. wp (store (t + 4 * PAGE_TABLE_INDEX v) ?x) Q E) E) E (s\<lparr>v_pmm := p\<rparr>))
        (\<lambda>e p. E e (s\<lparr>v_pmm := p\<rparr>)) (v_pmm s)"
    proof (rule wp_pmm_alloc_frame [OF tables_okD(1) [OF ok]], goal_cases)
      case (1 f p')
      then show ?case by (intro rest) (auto simp: pmm_idle_def spare_def)
    next
      case 2
      then have "pmm_idle (v_pmm s) = {}" by (auto simp: pmm_idle_def)
      then show ?case using tables_okD(1) [OF ok] by (intro rest) (simp_all add: spare_def)
    qed
    then show ?thesis
      using pde by (simp add: vmm_map_def wp_seq_fun wp_ret wp_vmm_load [OF d] wp_with_pmm cong: if_cong)
  qed
qed

lemma wp_vmm_unmap:
  assumes ok: "tables_ok dir s" and acc: "accessible dir s"
    and Q: "\<And>s'. tables_ok dir s' \<Longrightarrow> translate dir s' v = None \<Longrightarrow>
      (\<And>w. \<not> same_page v w \<Longrightarrow> translate dir s' w = translate dir s w) \<Longrightarrow> Q () s'"
  shows "wp (vmm_unmap dir v) Q E s"
proof -
  let ?i = "PAGE_DIRECTORY_INDEX v"
  have d: "direct s dir" using acc by (simp add: accessible_def)
  show ?thesis
  proof (cases "present dir s ?i")
    case True
    let ?s = "s\<lparr>v_mem := (v_mem s)(table_of dir s ?i + 4 * PAGE_TABLE_INDEX v := 0)\<rparr>"
    have "wp (store (table_of dir s ?i + 4 * PAGE_TABLE_INDEX v) 0) Q E s = Q () ?s"
      using acc True by (intro wp_vmm_store) (simp_all add: accessible_def)
    moreover have "Q () ?s"
      using pte_store [OF ok True refl, of 0] by (intro Q) (simp_all add: same_page_def translate_def)
    ultimately show ?thesis using True
      by (simp add: vmm_unmap_def wp_seq_fun wp_vmm_load [OF d] present_def table_of_def)
  next
    case False
    have "Q () s" using ok False by (intro Q) (simp_all add: translate_def pte_at_cases)
    then show ?thesis using False by (simp add: vmm_unmap_def wp_seq_fun wp_vmm_load [OF d] wp_ret present_def)
  qed
qed

subsection \<open>The kernel's identity map\<close>

definition kernel_tables :: "u32 \<Rightarrow> u32 \<Rightarrow> bool" where
  "kernel_tables kpd kpt \<longleftrightarrow> PAGE_ALIGN kpd = kpd \<and> PAGE_ALIGN kpt = kpt \<and>
     unat kpt + 0x100000 \<le> 0x100000000 \<and>
     (unat kpd + 4096 \<le> unat kpt \<or> unat kpt + 0x100000 \<le> unat kpd)"

lemma unat_index: "unat (PAGE_DIRECTORY_INDEX v) = unat v div 4194304"
    "unat (PAGE_TABLE_INDEX v) = unat v div 4096 mod 1024"
proof -
  have "drop_bit 22 v AND 0x3ff = drop_bit 22 v"
    unfolding page_align_mask
  proof (rule bit_word_eqI)
    fix n assume "n < LENGTH(32)"
    show "bit (drop_bit 22 v AND mask 10) n = bit (drop_bit 22 v) n"
      using bit_imp_le_length [of v "22 + n"] by (auto simp: bit_simps)
  qed
  then show "unat (PAGE_DIRECTORY_INDEX v) = unat v div 4194304"
    by (simp add: PAGE_DIRECTORY_INDEX_def drop_bit_eq_div unat_div)
  have "unat (take_bit 10 (drop_bit 12 v)) = unat v div 4096 mod 1024"
    by (simp only: unsigned_take_bit_eq unat_drop_bit_eq) (simp add: take_bit_eq_mod drop_bit_eq_div)
  then show "unat (PAGE_TABLE_INDEX v) = unat v div 4096 mod 1024"
    by (simp only: PAGE_TABLE_INDEX_def page_align_mask take_bit_eq_mask)
qed

lemma index_sum: "4096 * PAGE_DIRECTORY_INDEX v + 4 * PAGE_TABLE_INDEX v = 4 * (v div 4096)"
proof -
  have "unat v div 4194304 = unat v div 4096 div 1024" by (simp add: div_mult2_eq [symmetric])
  then have "4096 * (unat v div 4194304) + 4 * (unat v div 4096 mod 1024) = 4 * (unat v div 4096)"
    using div_mult_mod_eq [of "unat v div 4096" 1024] by linarith
  moreover have "4 * (unat v div 4096) < 4294967296" using u32_less [of v] by simp
  moreover have "4 * (unat v div 4096 mod 1024) < 4294967296"
    using mod_less_divisor [of 1024 "unat v div 4096"] by linarith
  ultimately show ?thesis
    using unat_index [of v] by (simp add: word_unat_eq_iff unat_word_ariths unat_div mod_less)
qed

lemma kernel_tables_add:
  assumes "kernel_tables kpd kpt"
  shows "k < 1024 \<Longrightarrow> unat (kpd + 4 * k) = unat kpd + 4 * unat k"
    and "j < 262144 \<Longrightarrow> unat (kpt + 4 * j) = unat kpt + 4 * unat j"
proof -
  show "k < 1024 \<Longrightarrow> unat (kpd + 4 * k) = unat kpd + 4 * unat k"
    using assms by (intro unat_page_add) (simp_all add: kernel_tables_def)
  assume "j < 262144"
  then have j: "unat j < 262144" by (simp add: word_less_nat_alt)
  then have "unat (4 * j) = 4 * unat j" by (simp add: unat_word_ariths)
  then show "unat (kpt + 4 * j) = unat kpt + 4 * unat j"
    using assms j by (simp add: unat_word_ariths kernel_tables_def)
qed

lemma kernel_tables_apart:
  assumes "kernel_tables kpd kpt" and "k < 1024" "j < 262144"
  shows "kpd + 4 * k \<noteq> kpt + 4 * j"
proof
  assume "kpd + 4 * k = kpt + 4 * j"
  then have "unat kpd + 4 * unat k = unat kpt + 4 * unat j"
    using kernel_tables_add [OF assms(1)] assms(2,3) by metis
  moreover have "unat k < 1024" "unat j < 262144" using assms(2,3) by (simp_all add: word_less_nat_alt)
  ultimately show False using assms(1) by (auto simp: kernel_tables_def)
qed

lemma kernel_tables_inj:
  assumes "kernel_tables kpd kpt"
  shows "k < 1024 \<Longrightarrow> k' < 1024 \<Longrightarrow> (kpd + 4 * k = kpd + 4 * k') = (k = k')"
    and "j < 262144 \<Longrightarrow> j' < 262144 \<Longrightarrow> (kpt + 4 * j = kpt + 4 * j') = (j = j')"
  using kernel_tables_add [OF assms] by (metis add_left_cancel mult_left_cancel zero_neq_numeral word_unat_eq_iff)+

definition kernel_map :: "Pmm \<Rightarrow> u32 \<Rightarrow> u32 \<Rightarrow> u32 \<Rightarrow> u32 \<Rightarrow> Vmm \<Rightarrow> bool" where
  "kernel_map p kpd kpt i n s \<longleftrightarrow> v_pmm s = p \<and>
     (\<forall>k < 1024. v_mem s (kpd + 4 * k) = (if k < i then ((kpt + 4096 * k) OR 1) OR 2 else 0)) \<and>
     (\<forall>j < 262144. v_mem s (kpt + 4 * j) = (if j < n then ((j * 4096) OR 1) OR 2 else 0))"

lemma wp_vmm_dir_loop:
  assumes kt: "kernel_tables kpd kpt" and s: "kernel_map p kpd kpt 0 0 s"
    and Q: "\<And>s'. kernel_map p kpd kpt 256 0 s' \<Longrightarrow> Q () s'"
  shows "wp (loop (vmm_dir_step kpd kpt) 0) Q E s"
proof (rule wp_loop [where m = "\<lambda>i _. 256 - unat i" and I = "\<lambda>(i :: u32) t. i \<le> 256 \<and> kernel_map p kpd kpt i 0 t"])
  fix i :: u32 and t
  assume I: "i \<le> 256 \<and> kernel_map p kpd kpt i 0 t"
  show "wp (vmm_dir_step kpd kpt i) (\<lambda>y s'. case y of
      Inl i' \<Rightarrow> (i' \<le> 256 \<and> kernel_map p kpd kpt i' 0 s') \<and> 256 - unat i' < 256 - unat i
    | Inr v \<Rightarrow> Q v s') E t"
  proof (cases "i < 256")
    case True
    then have i: "unat (i + 1) = unat i + 1" "i < 1024" "unat i < 256"
      by (auto simp: word_less_nat_alt unat_word_ariths)
    let ?t = "t\<lparr>v_mem := (v_mem t)(kpd + 4 * i := (((kpt + 4096 * i) OR 1) OR 2))\<rparr>"
    have "(k < i + 1) = (k = i \<or> k < i)" for k
      using i by (auto simp: word_less_nat_alt word_unat_eq_iff)
    then have "kernel_map p kpd kpt (i + 1) 0 ?t"
      using I i kernel_tables_apart [OF kt i(2), THEN not_sym] kernel_tables_inj(1) [OF kt _ i(2)]
      by (simp add: kernel_map_def)
    then show ?thesis using True i by (simp add: vmm_dir_step_def store_phys_def wp_simps word_le_nat_alt)
  next
    case False
    then have "i = 256" using I by simp
    then show ?thesis using False I Q by (simp add: vmm_dir_step_def wp_simps)
  qed
qed (use s in simp)

lemma wp_vmm_tab_loop:
  assumes kt: "kernel_tables kpd kpt" and s: "kernel_map p kpd kpt 256 0 s"
    and Q: "\<And>s'. kernel_map p kpd kpt 256 65536 s' \<Longrightarrow> Q () s'"
  shows "wp (loop (vmm_tab_step kpt) 0) Q E s"
proof (rule wp_loop [where m = "\<lambda>i _. 0x10000000 - unat i" and
    I = "\<lambda>(i :: u32) t. \<exists>n. i = n * 4096 \<and> n \<le> 65536 \<and> kernel_map p kpd kpt 256 n t"])
  fix i :: u32 and t
  assume "\<exists>n. i = n * 4096 \<and> n \<le> 65536 \<and> kernel_map p kpd kpt 256 n t"
  then obtain n where i: "i = n * 4096" and n: "n \<le> 65536" and t: "kernel_map p kpd kpt 256 n t" by auto
  have ui: "unat i = unat n * 4096" using n by (simp add: i unat_word_ariths word_le_nat_alt)
  show "wp (vmm_tab_step kpt i) (\<lambda>y s'. case y of
      Inl i' \<Rightarrow> (\<exists>n. i' = n * 4096 \<and> n \<le> 65536 \<and> kernel_map p kpd kpt 256 n s') \<and>
        0x10000000 - unat i' < 0x10000000 - unat i
    | Inr v \<Rightarrow> Q v s') E t"
  proof (cases "i < 0x10000000")
    case True
    then have un: "unat n < 65536" using ui by (simp add: word_less_nat_alt)
    then have n': "n < 262144" and suc: "unat (n + 1) = unat n + 1" by (simp_all add: word_less_nat_alt unat_word_ariths)
    have "i div 4096 = n" using ui by (simp add: word_unat_eq_iff unat_div)
    then have adr: "kpt + 4096 * PAGE_DIRECTORY_INDEX i + 4 * PAGE_TABLE_INDEX i = kpt + 4 * n"
      using index_sum [of i] by (simp add: add.assoc)
    let ?t = "t\<lparr>v_mem := (v_mem t)(kpt + 4 * n := ((i OR 1) OR 2))\<rparr>"
    have "(j < n + 1) = (j = n \<or> j < n)" for j
      using suc by (auto simp: word_less_nat_alt word_unat_eq_iff)
    then have "kernel_map p kpd kpt 256 (n + 1) ?t"
      using t i kernel_tables_apart [OF kt _ n'] kernel_tables_inj(2) [OF kt _ n']
      by (simp add: kernel_map_def)
    moreover have "i + 4096 = (n + 1) * 4096" using i by (simp add: algebra_simps)
    moreover have "unat (i + 4096) = unat i + 4096" using ui un by (simp add: unat_word_ariths)
    ultimately show ?thesis
      using True suc un ui
      by (simp only: vmm_tab_step_def store_phys_def wp_simps adr if_True sum.case)
        (auto simp: word_le_nat_alt intro!: exI [of _ "n + 1"])
  next
    case False
    then have "unat n = 65536" using ui n by (simp add: word_less_nat_alt word_le_nat_alt)
    then have "n = 65536" by (simp add: word_unat_eq_iff)
    then show ?thesis using False t Q by (simp add: vmm_tab_step_def wp_simps)
  qed
qed (use s in \<open>auto intro: exI [of _ 0]\<close>)


lemma kernel_map_zeroed:
  assumes "kernel_tables kpd kpt"
  shows "kernel_map (v_pmm s) kpd kpt 0 0 (s\<lparr>v_mem := (\<lambda>x. if x - kpd < 4096 \<or> x - kpt < 0x100000 then 0 else v_mem s x)\<rparr>)"
proof -
  have "4 * k < 4096" if "k < 1024" for k :: u32
    using that by (simp add: word_less_nat_alt unat_word_ariths)
  moreover have "4 * j < 0x100000" if "j < 262144" for j :: u32
    using that by (simp add: word_less_nat_alt unat_word_ariths)
  ultimately show ?thesis by (simp add: kernel_map_def)
qed

lemma kernel_map_cong: "v_mem s' = v_mem s \<Longrightarrow> v_pmm s' = v_pmm s \<Longrightarrow> kernel_map p kpd kpt i n s' = kernel_map p kpd kpt i n s"
  by (simp add: kernel_map_def)

lemma wp_vmm_init:
  assumes kt: "kernel_tables kpd kpt"
    and Q: "\<And>s'. kernel_map (v_pmm s) kpd kpt 256 65536 s' \<Longrightarrow> v_cr3 s' = kpd \<Longrightarrow> v_paging s' \<Longrightarrow> Q () s'"
  shows "wp (vmm_init kpd kpt) Q E s"
  unfolding vmm_init_def wp_simps
proof (rule wp_vmm_dir_loop [OF kt kernel_map_zeroed [OF kt]], rule wp_vmm_tab_loop [OF kt])
  fix s' assume "kernel_map (v_pmm s) kpd kpt 256 65536 s'"
  then show "Q () (s'\<lparr>v_cr3 := kpd, v_paging := True\<rparr>)"
    using kernel_map_cong [of "s'\<lparr>v_cr3 := kpd, v_paging := True\<rparr>" s'] by (simp add: Q)
qed

lemma aligned_times: "PAGE_ALIGN (4096 * k) = 4096 * (k :: u32)"
  unfolding PAGE_ALIGN_def page_align_mask
proof (rule bit_word_eqI)
  fix n assume "n < LENGTH(32)"
  have "4096 * k = push_bit 12 k" by (simp add: push_bit_eq_mult)
  then show "bit (4096 * k AND NOT (mask 12)) n = bit (4096 * k) n"
    by (auto simp: bit_simps)
qed

lemma aligned_add:
  assumes "PAGE_ALIGN a = a" and "PAGE_ALIGN b = b"
  shows "PAGE_ALIGN (a + b) = a + b"
proof -
  have part: "c = 4096 * (c div 4096)" if "PAGE_ALIGN c = c" for c :: u32
  proof -
    have "4096 * (unat c div 4096) = unat c" using that by (auto simp: aligned_unat)
    moreover have "unat (4096 * (c div 4096)) = 4096 * (unat c div 4096) mod 4294967296"
      by (simp add: unat_word_ariths unat_div mod_mult_right_eq)
    ultimately show ?thesis using u32_less [of c] by (simp add: word_unat_eq_iff)
  qed
  from part [OF assms(1)] part [OF assms(2)]
  have "a + b = 4096 * (a div 4096 + b div 4096)" by (simp add: distrib_left)
  then show ?thesis by (metis aligned_times)
qed

lemma page_join: "((v :: u32) div 4096 * 4096) OR (v AND 0xfff) = v"
proof -
  have "v div 4096 * 4096 = push_bit 12 (drop_bit 12 v)" by (simp add: push_bit_eq_mult drop_bit_eq_div)
  then show ?thesis
    unfolding page_align_mask by (intro bit_word_eqI) (auto simp: bit_simps)
qed

lemma kernel_map_identity:
  assumes kt: "kernel_tables kpd kpt" and s: "kernel_map p kpd kpt 256 65536 s"
  shows "translate kpd s v = (if v < 0x10000000 then Some v else None)"
proof -
  let ?i = "PAGE_DIRECTORY_INDEX v" and ?n = "v div 4096"
  have i: "?i < 256 \<longleftrightarrow> v < 0x40000000"
    using unat_index(1) [of v] div_less_iff_less_mult [of 4194304 "unat v" 256] by (simp add: word_less_nat_alt)
  have n: "?n < 65536 \<longleftrightarrow> v < 0x10000000" "?i < 256 \<Longrightarrow> ?n < 262144"
    using i div_less_iff_less_mult [of 4096 "unat v" 65536] div_less_iff_less_mult [of 4096 "unat v" 262144]
    by (simp_all add: word_less_nat_alt unat_div)
  have pde: "v_mem s (kpd + 4 * ?i) = (if ?i < 256 then ((kpt + 4096 * ?i) OR 1) OR 2 else 0)"
    using s page_index_less(1) [of v] by (simp add: kernel_map_def)
  show ?thesis
  proof (cases "?i < 256")
    case True
    have "PAGE_ALIGN (kpt + 4096 * ?i) = kpt + 4096 * ?i"
      using kt by (intro aligned_add aligned_times) (simp add: kernel_tables_def)
    note new = new_pde [OF this, of 0, simplified]
    have "kpt + 4096 * ?i + 4 * PAGE_TABLE_INDEX v = kpt + 4 * ?n"
      using index_sum [of v] by (simp add: add.assoc)
    moreover have "v_mem s (kpt + 4 * ?n) = (if ?n < 65536 then ((?n * 4096) OR 1) OR 2 else 0)"
      using s n True by (simp add: kernel_map_def)
    ultimately have "pte_at kpd s v = Some (if ?n < 65536 then ((?n * 4096) OR 1) OR 2 else 0)"
      using pde True new by (simp only: pte_at_def Let_def if_True) simp
    moreover have "PAGE_ALIGN (?n * 4096) = ?n * 4096" using aligned_times [of ?n] by (simp add: mult.commute)
    note new_pde [OF this, of 0, simplified]
    ultimately show ?thesis using n by (simp add: translate_def page_join)
  next
    case False
    then have "\<not> v < 0x10000000" using i by (simp add: word_less_nat_alt)
    then show ?thesis using pde False by (simp add: translate_def pte_at_def)
  qed
qed


text \<open>
  With this map, and the frames of the allocator below 256 MiB and outside the kernel's tables,
  \<open>vmm_map\<close> and \<open>vmm_unmap\<close> can work on the kernel's directory with paging on.
\<close>

lemma identity_direct:
  assumes "kernel_tables kpd kpt" and "kernel_map p kpd kpt 256 65536 s" and "v_cr3 s = kpd"
    and t: "PAGE_ALIGN t = t" "t < 0x10000000"
  shows "direct s t"
proof -
  have "t + 4 * i < 0x10000000" if i: "i < 1024" for i
  proof -
    obtain k where k: "unat t = 4096 * k" using t(1) by (auto simp: aligned_unat)
    then have "k < 65536" using t(2) by (simp add: word_less_nat_alt)
    moreover have "unat i < 1024" using i by (simp add: word_less_nat_alt)
    ultimately show ?thesis using unat_page_add [OF t(1) i] k by (simp add: word_less_nat_alt)
  qed
  then show ?thesis
    using kernel_map_identity [OF assms(1,2)] by (simp add: direct_def phys_of_def assms(3))
qed

lemma kernel_map_tables:
  assumes kt: "kernel_tables kpd kpt" and s: "kernel_map p kpd kpt 256 65536 s"
  shows "present kpd s i \<longleftrightarrow> i < 256" and "i < 256 \<Longrightarrow> table_of kpd s i = kpt + 4096 * i"
proof -
  have al: "PAGE_ALIGN (kpt + 4096 * i) = kpt + 4096 * i" for i
    using kt by (intro aligned_add aligned_times) (simp add: kernel_tables_def)
  have "i < 256 \<Longrightarrow> i < 1024" by (simp add: word_less_nat_alt)
  then show "present kpd s i \<longleftrightarrow> i < 256" "i < 256 \<Longrightarrow> table_of kpd s i = kpt + 4096 * i"
    using s new_pde [OF al, of 0 i] by (auto simp: present_def table_of_def kernel_map_def split: if_splits)
qed

definition frames_apart :: "u32 \<Rightarrow> u32 \<Rightarrow> Pmm \<Rightarrow> bool" where
  "frames_apart kpd kpt p \<longleftrightarrow> pmm_inv p \<and> unat kpd + 4096 \<le> 0x10000000 \<and> unat kpt + 0x100000 \<le> 0x10000000 \<and>
     (\<forall>f \<in> insert 0 (managed p). f < 65536 \<and> frame_adr f \<noteq> kpd \<and> (\<forall>k < 256. frame_adr f \<noteq> kpt + 4096 * k))"

lemma kernel_map_ready:
  assumes kt: "kernel_tables kpd kpt" and s: "kernel_map p kpd kpt 256 65536 s" and cpu: "v_cr3 s = kpd" "v_paging s"
    and apart: "frames_apart kpd kpt p"
  shows "tables_ok kpd s" "accessible kpd s" "can_grow kpd s"
proof -
  note tab = kernel_map_tables [OF kt s] and dir = identity_direct [OF kt s cpu(1)]
  have p: "v_pmm s = p" "pmm_inv p" using s apart by (simp_all add: kernel_map_def frames_apart_def)
  have al: "PAGE_ALIGN kpd = kpd" "PAGE_ALIGN (kpt + 4096 * k) = kpt + 4096 * k" for k
    using kt by (auto simp: kernel_tables_def intro!: aligned_add aligned_times)
  have ut: "unat (kpt + 4096 * k) = unat kpt + 4096 * unat k" if "k < 256" for k
    using kernel_tables_add(2) [OF kt, of "1024 * k"] that by (simp add: word_less_nat_alt unat_word_ariths)
  have tl: "kpt + 4096 * k < 0x10000000" "kpt + 4096 * k \<noteq> kpd" if "k < 256" for k
    using ut [OF that] that apart kt
    by (auto simp: frames_apart_def kernel_tables_def word_less_nat_alt)
  have fr: "t \<noteq> kpd \<and> (\<forall>k < 256. t \<noteq> kpt + 4096 * k) \<and> direct s t" if t: "t \<in> insert 0 (pmm_idle p)" for t
  proof -
    have "frame_adr 0 = 0" by (simp add: frame_adr_def)
    then have "t \<in> frame_adr ` insert 0 (managed p)" using t by (auto simp: pmm_idle_def)
    then obtain f where f: "f \<in> insert 0 (managed p)" "t = frame_adr f" by blast
    then have l: "f < 65536" using apart by (auto simp: frames_apart_def)
    then have "frame_adr f < 0x10000000" by (simp add: word_less_nat_alt unat_frame_adr)
    then show ?thesis
      using f apart dir frame_aligned [of f] l by (auto simp: frames_apart_def)
  qed
  show "tables_ok kpd s"
    unfolding tables_ok_def p(1)
  proof (intro conjI allI impI)
    show "pmm_inv p" "PAGE_ALIGN kpd = kpd" "kpd \<notin> pmm_idle p" using p al fr by auto
    fix i assume i: "present kpd s i"
    then show "table_of kpd s i \<noteq> kpd" "table_of kpd s i \<notin> pmm_idle p"
      using tab tl fr [of "kpt + 4096 * i"] by auto
    fix j assume "present kpd s j" "table_of kpd s i = table_of kpd s j"
    then have "unat i = unat j" using i tab ut [of i] ut [of j] by simp
    then show "i = j" by (simp add: word_unat_eq_iff)
  qed
  have "kpd < 0x10000000" using apart by (simp add: frames_apart_def word_less_nat_alt)
  then show "accessible kpd s" using dir al tab tl by (simp add: accessible_def)
  have sp: "spare p \<subseteq> insert 0 (pmm_idle p)" by (auto simp: spare_def)
  have "direct s t \<and> t \<noteq> kpd \<and> (\<forall>i. present kpd s i \<longrightarrow> table_of kpd s i \<noteq> t)" if "t \<in> spare p" for t
    using fr [of t] that sp tab by auto
  then show "can_grow kpd s"
    using al(1) unfolding can_grow_def active_def cpu p(1) by auto
qed

subsection \<open>Properties\<close>

text \<open>C26: When \<open>vmm_init\<close> returns, paging is on with the kernel's directory, and the processor
  translates every address below 256 MiB to itself and no other address to anything.\<close>

theorem vmm_init_identity_map:
  assumes "kernel_tables kpd kpt"
  shows "wp (vmm_init kpd kpt) (\<lambda>_ s'. v_paging s' \<and> v_cr3 s' = vmm_get_kernel_directory kpd \<and>
      (\<forall>v. translate (v_cr3 s') s' v = (if v < 0x10000000 then Some v else None))) (\<lambda>_ _. False) s"
  by (rule wp_vmm_init [OF assms]) (simp add: vmm_get_kernel_directory_def kernel_map_identity [OF assms])

text \<open>C27: \<open>vmm_map\<close> with flags below the page bits makes the page of \<open>virt\<close> translate to the
  frame of \<open>phys\<close> when the flags have the present bit, and to nothing otherwise; the translation of
  every other page stays, also when a new page table has to be allocated, and the tables stay apart
  from each other and from the frames that are free. Besides the directory only the page table of
  \<open>virt\<close> is written. Where that has to be new it is a free frame; where no frame is free it is
  page 0, whose 4096 bytes \<open>vmm_map\<close> overwrites, as it does not look for the null pointer.
  With paging off this holds wherever the tables are. With paging on, every access is translated:
  the directory and its tables have to be mapped to themselves, and where the table is new, so
  do the pages \<open>vmm_map\<close> may take for it, which are no tables yet (page 0 included, if it comes
  to that). \<open>vmm_init\<close> sees to this for the kernel's own directory.\<close>

theorem vmm_map_one_page:
  assumes "tables_ok dir s" and "flags AND 0xfffff000 = 0" and "accessible dir s"
    and "present dir s (PAGE_DIRECTORY_INDEX virt) \<or> can_grow dir s"
  shows "wp (vmm_map dir virt phys flags) (\<lambda>_ s'. tables_ok dir s' \<and>
      translate dir s' virt = (if flags AND PAGE_PRESENT = 0 then None
        else Some (PAGE_ALIGN phys OR (virt AND 0xfff))) \<and>
      (\<forall>w. \<not> same_page virt w \<longrightarrow> translate dir s' w = translate dir s w) \<and>
      (\<exists>t. placed dir s virt (PAGE_ALIGN phys OR flags) s' t)) (\<lambda>_ _. False) s"
proof (rule wp_vmm_map [OF assms])
  fix s' t assume s': "tables_ok dir s'" "pte_at dir s' virt = Some (PAGE_ALIGN phys OR flags)"
    "\<And>w. \<not> same_page virt w \<Longrightarrow> translate dir s' w = translate dir s w"
    "placed dir s virt (PAGE_ALIGN phys OR flags) s' t"
  show "tables_ok dir s' \<and> translate dir s' virt = (if flags AND PAGE_PRESENT = 0 then None
        else Some (PAGE_ALIGN phys OR (virt AND 0xfff))) \<and>
      (\<forall>w. \<not> same_page virt w \<longrightarrow> translate dir s' w = translate dir s w) \<and>
      (\<exists>t. placed dir s virt (PAGE_ALIGN phys OR flags) s' t)"
    using s' pte_flags [OF PAGE_ALIGN_idem assms(2)] by (auto simp: translate_def)
qed

text \<open>C28: \<open>vmm_unmap\<close> leaves the page of \<open>virt\<close> without a translation and keeps those of
  all other pages. With paging on, the directory and its tables have to be mapped to themselves.\<close>

theorem vmm_unmap_one_page:
  assumes "tables_ok dir s" and "accessible dir s"
  shows "wp (vmm_unmap dir virt) (\<lambda>_ s'. tables_ok dir s' \<and> translate dir s' virt = None \<and>
      (\<forall>w. \<not> same_page virt w \<longrightarrow> translate dir s' w = translate dir s w)) (\<lambda>_ _. False) s"
  by (rule wp_vmm_unmap [OF assms]) blast

text \<open>With no frame left and no table present, page 0 is what \<open>vmm_map\<close> writes over.\<close>

lemma vmm_map_overwrites_page_0:
  assumes "tables_ok dir s" and "flags AND 0xfffff000 = 0" and "accessible dir s" and "can_grow dir s"
    and "\<not> present dir s (PAGE_DIRECTORY_INDEX virt)" and "pmm_idle (v_pmm s) = {}"
  shows "wp (vmm_map dir virt phys flags) (\<lambda>_ s'. \<forall>j < 1024. v_mem s' (4 * j) =
      (if j = PAGE_TABLE_INDEX virt then PAGE_ALIGN phys OR flags else 0)) (\<lambda>_ _. False) s"
  by (rule wp_vmm_map [OF assms(1-3)]) (use assms(4-6) in \<open>auto simp: placed_def spare_def\<close>)

subsection \<open>A small instance\<close>

text \<open>The kernel's directory at 1 MiB, its tables at 2 MiB, and eight free frames below them.\<close>

definition vmm_sample :: Vmm where
  "vmm_sample = \<lparr>v_mem = (\<lambda>_. 0), v_pmm = pmm_sample, v_cr3 = 0, v_paging = False\<rparr>"

lemma kernel_tables_sample: "kernel_tables 0x100000 0x200000"
  by (simp add: kernel_tables_def PAGE_ALIGN_def)

lemma frames_apart_sample: "frames_apart 0x100000 0x200000 (v_pmm vmm_sample)"
proof -
  have "unat (frame_adr f) < 0x100000" if "f \<in> insert 0 {1..<9}" for f
    using that by (auto simp: unat_frame_adr)
  then have apart: "frame_adr f \<noteq> y" if "f \<in> insert 0 {1..<9}" "0x100000 \<le> unat y" for f y
    using that by force
  have "0x100000 \<le> unat (0x200000 + 4096 * k :: u32)" if "k < 256" for k :: u32
    using that by (simp add: word_less_nat_alt unat_word_ariths)
  then have "frame_adr f \<noteq> 0x100000 \<and> (\<forall>k < 256. frame_adr f \<noteq> 0x200000 + 4096 * k)" if "f \<in> insert 0 {1..<9}" for f
    using apart [OF that] by simp
  then show ?thesis
    using pmm_sample_inv by (auto simp: frames_apart_def vmm_sample_def managed_sample)
qed

theorem vmm_init_identity_map_witness:
  "wp (vmm_init 0x100000 0x200000) (\<lambda>_ s'. v_paging s' \<and> v_cr3 s' = 0x100000 \<and>
      translate 0x100000 s' 0xb8000 = Some 0xb8000 \<and> translate 0x100000 s' 0x10000000 = None) (\<lambda>_ _. False) vmm_sample"
  by (rule wp_conseq [OF vmm_init_identity_map [OF kernel_tables_sample]]) (auto simp: vmm_get_kernel_directory_def)

text \<open>
  After \<open>vmm_init\<close>, with paging on: a page above 1 GiB, for which a table has to be allocated.
\<close>

lemma after_vmm_init:
  assumes "\<And>s. tables_ok 0x100000 s \<Longrightarrow> accessible 0x100000 s \<Longrightarrow> can_grow 0x100000 s \<Longrightarrow> v_paging s \<Longrightarrow>
    \<forall>v. translate 0x100000 s v = (if v < 0x10000000 then Some v else None) \<Longrightarrow> wp m Q E s"
  shows "wp (seq (vmm_init 0x100000 0x200000) (\<lambda>_. m)) Q E vmm_sample"
  unfolding wp_seq
  by (rule wp_vmm_init [OF kernel_tables_sample], rule assms)
    (use kernel_map_ready [OF kernel_tables_sample _ _ _ frames_apart_sample]
      kernel_map_identity [OF kernel_tables_sample] in blast)+

theorem vmm_map_one_page_witness:
  "wp (seq (vmm_init 0x100000 0x200000) (\<lambda>_. vmm_map 0x100000 0x40001234 0x7007 3)) (\<lambda>_ s'. tables_ok 0x100000 s' \<and>
      translate 0x100000 s' 0x40001234 = Some 0x7234 \<and> translate 0x100000 s' 0xb8000 = Some 0xb8000) (\<lambda>_ _. False) vmm_sample"
proof (rule after_vmm_init)
  fix s assume s: "tables_ok 0x100000 s" "accessible 0x100000 s" "can_grow 0x100000 s"
    "\<forall>v. translate 0x100000 s v = (if v < 0x10000000 then Some v else None)"
  have "\<not> same_page 0x40001234 0xb8000" by (simp add: same_page_def)
  then show "wp (vmm_map 0x100000 0x40001234 0x7007 3) (\<lambda>_ s'. tables_ok 0x100000 s' \<and>
      translate 0x100000 s' 0x40001234 = Some 0x7234 \<and> translate 0x100000 s' 0xb8000 = Some 0xb8000) (\<lambda>_ _. False) s"
    using s(4) by (intro wp_conseq [OF vmm_map_one_page [OF s(1) _ s(2)]]) (simp_all add: s(3) PAGE_ALIGN_def)
qed

theorem vmm_unmap_one_page_witness:
  "wp (seq (vmm_init 0x100000 0x200000) (\<lambda>_. vmm_unmap 0x100000 0x401234)) (\<lambda>_ s'.
      translate 0x100000 s' 0x401234 = None \<and> translate 0x100000 s' 0xb8000 = Some 0xb8000) (\<lambda>_ _. False) vmm_sample"
proof (rule after_vmm_init)
  fix s assume s: "tables_ok 0x100000 s" "accessible 0x100000 s"
    "\<forall>v. translate 0x100000 s v = (if v < 0x10000000 then Some v else None)"
  have "\<not> same_page 0x401234 0xb8000" by (simp add: same_page_def)
  then show "wp (vmm_unmap 0x100000 0x401234) (\<lambda>_ s'.
      translate 0x100000 s' 0x401234 = None \<and> translate 0x100000 s' 0xb8000 = Some 0xb8000) (\<lambda>_ _. False) s"
    using s(3) by (intro wp_conseq [OF vmm_unmap_one_page [OF s(1,2)]]) simp_all
qed

end
