(* ===== verification/Libc.thy ===== *)
theory Libc
  imports CMonad "HOL-Library.Sublist"
begin

section \<open>The string functions of the kernel's C library (libc/string)\<close>

text \<open>
  The state is the memory the functions work on, a list of bytes; a pointer is an index into
  it, and a null result is \<open>None\<close>. A load or store outside the memory is \<open>undef\<close>. The
  \<open>size_t\<close> counters count bytes of that memory, so they do not wrap.
\<close>

subsection \<open>The code\<close>

definition ldb :: "nat \<Rightarrow> (bytes, u8) cm" where
  "ldb a = (\<lambda>m. if a < length m then Some (Inr (m ! a), m) else None)"

definition stb :: "nat \<Rightarrow> u8 \<Rightarrow> (bytes, unit) cm" where
  "stb a v = (\<lambda>m. if a < length m then Some (Inr (), m[a := v]) else None)"

definition strlen_step :: "nat \<Rightarrow> nat \<Rightarrow> (bytes, nat + nat) cm" where
  "strlen_step str len = seq (ldb (str + len)) (\<lambda>c.
     if c \<noteq> 0 then ret (Inl (len + 1)) else ret (Inr len))"

definition strlen :: "nat \<Rightarrow> (bytes, nat) cm" where
  "strlen str = loop (strlen_step str) 0"

definition memcpy_step :: "nat \<Rightarrow> nat \<Rightarrow> nat \<Rightarrow> nat \<Rightarrow> (bytes, nat + unit) cm" where
  "memcpy_step dst src sz i =
     (if i < sz then
        seq (ldb (src + i)) (\<lambda>c. seq (stb (dst + i) c) (\<lambda>_. ret (Inl (i + 1))))
      else ret (Inr ()))"

definition memcpy :: "nat \<Rightarrow> nat \<Rightarrow> nat \<Rightarrow> (bytes, unit) cm" where
  "memcpy dst src sz = loop (memcpy_step dst src sz) 0"

definition memmove_down_step :: "nat \<Rightarrow> nat \<Rightarrow> nat \<Rightarrow> (bytes, nat + unit) cm" where
  "memmove_down_step dst src i =
     (if i \<noteq> 0 then
        seq (ldb (src + (i - 1))) (\<lambda>c. seq (stb (dst + (i - 1)) c) (\<lambda>_. ret (Inl (i - 1))))
      else ret (Inr ()))"

definition memmove :: "nat \<Rightarrow> nat \<Rightarrow> nat \<Rightarrow> (bytes, unit) cm" where
  "memmove dst src sz =
     (if dst < src then loop (memcpy_step dst src sz) 0
      else loop (memmove_down_step dst src) sz)"

definition memset_step :: "nat \<Rightarrow> u8 \<Rightarrow> nat \<Rightarrow> nat \<Rightarrow> (bytes, nat + unit) cm" where
  "memset_step buf v sz i =
     (if i < sz then seq (stb (buf + i) v) (\<lambda>_. ret (Inl (i + 1))) else ret (Inr ()))"

definition memset :: "nat \<Rightarrow> u8 \<Rightarrow> nat \<Rightarrow> (bytes, unit) cm" where
  "memset buf v sz = loop (memset_step buf v sz) 0"

definition memcmp_step :: "nat \<Rightarrow> nat \<Rightarrow> nat \<Rightarrow> nat \<Rightarrow> (bytes, nat + int) cm" where
  "memcmp_step a b sz i =
     (if i < sz then
        seq (ldb (a + i)) (\<lambda>x. seq (ldb (b + i)) (\<lambda>y.
        if x < y then ret (Inr (- 1))
        else if y < x then ret (Inr 1)
        else ret (Inl (i + 1))))
      else ret (Inr 0))"

definition memcmp :: "nat \<Rightarrow> nat \<Rightarrow> nat \<Rightarrow> (bytes, int) cm" where
  "memcmp a b sz = loop (memcmp_step a b sz) 0"

definition strcmp_step :: "nat \<times> nat \<Rightarrow> (bytes, nat \<times> nat + int) cm" where
  "strcmp_step = (\<lambda>(s1, s2).
     seq (ldb s1) (\<lambda>x. seq (ldb s2) (\<lambda>y.
     if x \<noteq> 0 \<and> x = y then ret (Inl (s1 + 1, s2 + 1))
     else ret (Inr (uint x - uint y)))))"

definition strcmp :: "nat \<Rightarrow> nat \<Rightarrow> (bytes, int) cm" where
  "strcmp s1 s2 = loop strcmp_step (s1, s2)"

text \<open>The test \<open>n > 0\<close> comes first: with \<open>n = 0\<close> nothing is read.\<close>

definition strncmp_step :: "nat \<times> nat \<times> nat \<Rightarrow> (bytes, nat \<times> nat \<times> nat + int) cm" where
  "strncmp_step = (\<lambda>(s1, s2, n).
     if n = 0 then ret (Inr 0)
     else
       seq (ldb s1) (\<lambda>x. seq (ldb s2) (\<lambda>y.
       if x \<noteq> 0 \<and> x = y then ret (Inl (s1 + 1, s2 + 1, n - 1))
       else ret (Inr (uint x - uint y)))))"

definition strncmp :: "nat \<Rightarrow> nat \<Rightarrow> nat \<Rightarrow> (bytes, int) cm" where
  "strncmp s1 s2 n = (if n = 0 then ret 0 else loop strncmp_step (s1, s2, n))"

definition strchr_step :: "u8 \<Rightarrow> nat \<Rightarrow> (bytes, nat + nat option) cm" where
  "strchr_step c s = seq (ldb s) (\<lambda>x.
     if x \<noteq> c then (if x = 0 then ret (Inr None) else ret (Inl (s + 1)))
     else ret (Inr (Some s)))"

definition strchr :: "nat \<Rightarrow> u8 \<Rightarrow> (bytes, nat option) cm" where
  "strchr s c = loop (strchr_step c) s"

definition strstr_match_step :: "nat \<times> nat \<Rightarrow> (bytes, nat \<times> nat + nat) cm" where
  "strstr_match_step = (\<lambda>(h, n).
     seq (ldb h) (\<lambda>x. seq (ldb n) (\<lambda>y.
     if x = y \<and> y \<noteq> 0 then ret (Inl (h + 1, n + 1)) else ret (Inr n))))"

definition strstr_step :: "nat \<Rightarrow> nat \<Rightarrow> (bytes, nat + nat option) cm" where
  "strstr_step needle haystack = seq (ldb haystack) (\<lambda>x.
     if x \<noteq> 0 then
       seq (loop strstr_match_step (haystack, needle)) (\<lambda>n.
       seq (ldb n) (\<lambda>y.
       if y = 0 then ret (Inr (Some haystack)) else ret (Inl (haystack + 1))))
     else ret (Inr None))"

definition strstr :: "nat \<Rightarrow> nat \<Rightarrow> (bytes, nat option) cm" where
  "strstr haystack needle = seq (ldb needle) (\<lambda>y.
     if y = 0 then ret (Some haystack) else loop (strstr_step needle) haystack)"

definition strncpy_copy_step :: "nat \<Rightarrow> nat \<Rightarrow> nat \<Rightarrow> nat \<Rightarrow> (bytes, nat + nat) cm" where
  "strncpy_copy_step dest src n i =
     (if i < n then
        seq (ldb (src + i)) (\<lambda>c.
        if c \<noteq> 0 then seq (stb (dest + i) c) (\<lambda>_. ret (Inl (i + 1))) else ret (Inr i))
      else ret (Inr i))"

definition strncpy :: "nat \<Rightarrow> nat \<Rightarrow> nat \<Rightarrow> (bytes, unit) cm" where
  "strncpy dest src n =
     seq (loop (strncpy_copy_step dest src n) 0) (\<lambda>i. loop (memset_step dest 0 n) i)"

subsection \<open>Copying and filling\<close>

lemma wp_ldb [wp_simps]: "wp (ldb a) Q E m = (a < length m \<and> Q (m ! a) m)"
  by (simp add: wp_def ldb_def)

lemma wp_stb [wp_simps]: "wp (stb a v) Q E m = (a < length m \<and> Q () (m[a := v]))"
  by (simp add: wp_def stb_def)

lemma wp_copy_up:
  assumes "dst + n \<le> length m" "src + n \<le> length m"
    and apart: "dst \<le> src \<or> src + n \<le> dst"
    and Q: "Q () (splice m dst (slice m src n))"
  shows "wp (loop (memcpy_step dst src n) 0) Q E m"
proof (rule wp_loop [where I = "\<lambda>i t. i \<le> n \<and> t = splice m dst (slice m src i)" and m = "\<lambda>i _. n - i"])
  fix i t assume I: "i \<le> n \<and> t = splice m dst (slice m src i)"
  have len: "length t = length m" using I assms by simp
  have "t ! (src + i) = m ! (src + i)" if "i < n"
    using I assms that by (auto simp: nth_splice)
  moreover have "t[dst + i := m ! (src + i)] = splice m dst (slice m src (i + 1))" if "i < n"
    by (rule nth_equalityI)
      (use I assms that in \<open>auto simp: nth_splice nth_slice nth_list_update len\<close>)
  ultimately show "wp (memcpy_step dst src n i) (\<lambda>y s'. case y of
      Inl i' \<Rightarrow> (i' \<le> n \<and> s' = splice m dst (slice m src i')) \<and> n - i' < n - i | Inr v \<Rightarrow> Q v s') E t"
    using I Q assms len by (auto simp: memcpy_step_def wp_simps)
qed (simp add: splice_def slice_def)

lemma wp_copy_down:
  assumes "dst + n \<le> length m" "src + n \<le> length m" and apart: "src \<le> dst"
    and Q: "Q () (splice m dst (slice m src n))"
  shows "wp (loop (memmove_down_step dst src) n) Q E m"
proof (rule wp_loop [where I = "\<lambda>i t. i \<le> n \<and> t = splice m (dst + i) (slice m (src + i) (n - i))" and m = "\<lambda>i _. i"])
  fix i t assume I: "i \<le> n \<and> t = splice m (dst + i) (slice m (src + i) (n - i))"
  have len: "length t = length m" using I assms by simp
  have "t ! (src + (i - 1)) = m ! (src + (i - 1))" if "i \<noteq> 0"
    using I assms that by (auto simp: nth_splice)
  moreover have "t[dst + (i - 1) := m ! (src + (i - 1))] = splice m (dst + (i - 1)) (slice m (src + (i - 1)) (n - (i - 1)))"
    if "i \<noteq> 0"
    by (rule nth_equalityI)
      (use I assms that in \<open>auto simp: nth_splice nth_slice nth_list_update len\<close>)
  ultimately show "wp (memmove_down_step dst src i) (\<lambda>y s'. case y of
      Inl i' \<Rightarrow> (i' \<le> n \<and> s' = splice m (dst + i') (slice m (src + i') (n - i'))) \<and> i' < i | Inr v \<Rightarrow> Q v s') E t"
    using I Q assms len by (auto simp: memmove_down_step_def wp_simps)
qed (simp add: splice_def slice_def)

lemma wp_fill_from:
  assumes "buf + n \<le> length m" and "i0 \<le> n" and Q: "Q () (splice m (buf + i0) (replicate (n - i0) v))"
  shows "wp (loop (memset_step buf v n) i0) Q E m"
proof (rule wp_loop [where I = "\<lambda>i t. i0 \<le> i \<and> i \<le> n \<and> t = splice m (buf + i0) (replicate (i - i0) v)"
      and m = "\<lambda>i _. n - i"])
  fix i t assume I: "i0 \<le> i \<and> i \<le> n \<and> t = splice m (buf + i0) (replicate (i - i0) v)"
  have len: "length t = length m" using I assms by simp
  have "t[buf + i := v] = splice m (buf + i0) (replicate (i + 1 - i0) v)" if "i < n"
    by (rule nth_equalityI)
      (use I assms that in \<open>auto simp: nth_splice nth_list_update len\<close>)
  then show "wp (memset_step buf v n i) (\<lambda>y s'. case y of
      Inl i' \<Rightarrow> (i0 \<le> i' \<and> i' \<le> n \<and> s' = splice m (buf + i0) (replicate (i' - i0) v)) \<and> n - i' < n - i
    | Inr v \<Rightarrow> Q v s') E t"
    using I Q assms len by (auto simp: memset_step_def wp_simps)
qed (use assms in \<open>simp add: splice_def\<close>)


subsection \<open>Strings in memory\<close>

text \<open>\<open>cstr m a cs\<close>: at \<open>a\<close> lies the string \<open>cs\<close>, with its terminating zero.\<close>

definition cstr :: "bytes \<Rightarrow> nat \<Rightarrow> bytes \<Rightarrow> bool" where
  "cstr m a cs \<longleftrightarrow> a + length cs < length m \<and> 0 \<notin> set cs \<and>
     (\<forall>i < length cs. m ! (a + i) = cs ! i) \<and> m ! (a + length cs) = 0"

lemma cstrD:
  assumes "cstr m a cs"
  shows "i \<le> length cs \<Longrightarrow> a + i < length m"
    and "i < length cs \<Longrightarrow> m ! (a + i) = cs ! i"
    and "m ! (a + length cs) = 0"
    and "i \<le> length cs \<Longrightarrow> (m ! (a + i) = 0) = (i = length cs)"
    and "0 \<notin> set cs"
  using assms by (auto simp: cstr_def order_le_less in_set_conv_nth)

lemma cstr_drop: "cstr m a cs \<Longrightarrow> i \<le> length cs \<Longrightarrow> cstr m (a + i) (drop i cs)"
  by (auto simp: cstr_def add.assoc dest: in_set_dropD)

lemma cstr_Nil: "cstr m a [] = (a < length m \<and> m ! a = 0)"
  by (simp add: cstr_def)

lemma cstr_Cons: "cstr m a (c # cs) = (a < length m \<and> m ! a = c \<and> c \<noteq> 0 \<and> cstr m (a + 1) cs)"
  by (auto simp: cstr_def All_less_Suc2)

lemma cstr_head: "cstr m a cs \<Longrightarrow> a < length m \<and> (m ! a = 0 \<longleftrightarrow> cs = []) \<and> (cs \<noteq> [] \<longrightarrow> m ! a = hd cs \<and> cstr m (a + 1) (tl cs))"
  by (cases cs) (auto simp: cstr_Nil cstr_Cons)

lemma cstr_cong:
  "cstr m a cs \<Longrightarrow> length m' = length m \<Longrightarrow> (\<And>i. i \<le> length cs \<Longrightarrow> m' ! (a + i) = m ! (a + i)) \<Longrightarrow> cstr m' a cs"
  by (simp add: cstr_def)

lemma cstr_unique: "cstr m a cs \<Longrightarrow> cstr m a ds \<Longrightarrow> cs = ds"
proof (induction cs arbitrary: a ds)
  case Nil
  then show ?case by (cases ds) (simp_all add: cstr_Nil cstr_Cons)
next
  case (Cons c cs)
  then show ?case by (cases ds) (auto simp: cstr_Nil cstr_Cons)
qed

lemma wp_strlen:
  assumes s: "cstr m a cs" and Q: "Q (length cs) m"
  shows "wp (strlen a) Q E m"
  unfolding strlen_def
proof (rule wp_loop [where I = "\<lambda>i t. i \<le> length cs \<and> t = m" and m = "\<lambda>i _. length cs - i"])
  fix i t assume "i \<le> length cs \<and> t = m"
  then show "wp (strlen_step a i) (\<lambda>y s'. case y of
      Inl i' \<Rightarrow> (i' \<le> length cs \<and> s' = m) \<and> length cs - i' < length cs - i | Inr v \<Rightarrow> Q v s') E t"
    using cstrD(1,4) [OF s, of i] Q by (auto simp: strlen_step_def wp_simps)
qed simp

lemma wp_strchr:
  assumes "cstr m a cs"
    and none: "c \<noteq> 0 \<Longrightarrow> c \<notin> set cs \<Longrightarrow> Q None m"
    and some: "\<And>i. i \<le> length cs \<Longrightarrow> (cs @ [0]) ! i = c \<Longrightarrow> c \<notin> set (take i cs) \<Longrightarrow> Q (Some (a + i)) m"
  shows "wp (strchr a c) Q E m"
proof -
  have "wp (loop (strchr_step c) a) Q E m"
    using assms
  proof (induction cs arbitrary: a)
    case Nil
    show ?case
      using Nil.prems(1) Nil.prems(2) Nil.prems(3) [of 0]
      by (subst loop_unfold) (auto simp: strchr_step_def wp_simps cstr_Nil)
  next
    case (Cons d cs)
    show ?case
    proof (cases "d = c")
      case True
      then show ?thesis using Cons.prems(1) Cons.prems(3) [of 0]
        by (subst loop_unfold) (auto simp: strchr_step_def wp_simps cstr_Cons)
    next
      case False
      have "wp (loop (strchr_step c) (a + 1)) Q E m"
      proof (rule Cons.IH)
        show "cstr m (a + 1) cs" using Cons.prems(1) by (simp add: cstr_Cons)
        show "c \<noteq> 0 \<Longrightarrow> c \<notin> set cs \<Longrightarrow> Q None m" using Cons.prems(2) False by simp
        show "Q (Some (a + 1 + i)) m" if "i \<le> length cs" "(cs @ [0]) ! i = c" "c \<notin> set (take i cs)" for i
          using Cons.prems(3) [of "Suc i"] that False by simp
      qed
      then show ?thesis using False Cons.prems(1)
        by (subst loop_unfold) (auto simp: strchr_step_def wp_simps cstr_Cons)
    qed
  qed
  then show ?thesis by (simp add: strchr_def)
qed

subsection \<open>Comparing\<close>

text \<open>The order of strings that the comparisons decide: bytes as unsigned numbers, a prefix
  first.\<close>

definition cmp_ok :: "int \<Rightarrow> bytes \<Rightarrow> bytes \<Rightarrow> bool" where
  "cmp_ok r xs ys \<longleftrightarrow> (r = 0 \<longleftrightarrow> xs = ys) \<and> (r < 0 \<longleftrightarrow> ord_class.lexordp xs ys)"

lemma cmp_ok_Cons_same: "cmp_ok r (x # xs) (x # ys) = cmp_ok r xs ys"
  by (simp add: cmp_ok_def)

lemma cmp_ok_head: "x \<noteq> y \<Longrightarrow> cmp_ok (uint (x :: u8) - uint y) (x # xs) (y # ys)"
  by (auto simp: cmp_ok_def word_less_def word_uint_eq_iff)

lemma uint_pos: "x \<noteq> 0 \<Longrightarrow> 0 < uint (x :: u8)"
  by (simp add: less_le word_uint_eq_iff)

lemma wp_strcmp:
  assumes "cstr m a xs" and "cstr m b ys" and Q: "\<And>r. cmp_ok r xs ys \<Longrightarrow> Q r m"
  shows "wp (strcmp a b) Q E m"
proof -
  have "wp (loop strcmp_step (a, b)) Q E m"
    using assms
  proof (induction xs arbitrary: a b ys)
    case Nil
    then show ?case using uint_pos [of "hd ys"]
      by (subst loop_unfold, cases ys) (auto simp: strcmp_step_def wp_simps cstr_Nil cstr_Cons cmp_ok_def)
  next
    case (Cons x xs)
    show ?case
    proof (cases ys)
      case Nil
      then show ?thesis using Cons.prems uint_pos [of x]
        by (subst loop_unfold) (auto simp: strcmp_step_def wp_simps cstr_Nil cstr_Cons cmp_ok_def)
    next
      case (Cons y zs)
      show ?thesis
      proof (cases "x = y")
        case True
        have "wp (loop strcmp_step (a + 1, b + 1)) Q E m"
          by (rule Cons.IH [where ys = zs])
            (use Cons.prems Cons True in \<open>auto simp: cstr_Cons cmp_ok_Cons_same\<close>)
        then show ?thesis using Cons.prems Cons True
          by (subst loop_unfold) (auto simp: strcmp_step_def wp_simps cstr_Cons)
      next
        case False
        then show ?thesis using Cons.prems Cons cmp_ok_head [OF False]
          by (subst loop_unfold) (auto simp: strcmp_step_def wp_simps cstr_Cons)
      qed
    qed
  qed
  then show ?thesis by (simp add: strcmp_def)
qed

lemma wp_strncmp:
  assumes "cstr m a xs" and "cstr m b ys" and Q: "\<And>r. cmp_ok r (take n xs) (take n ys) \<Longrightarrow> Q r m"
  shows "wp (strncmp a b n) Q E m"
proof -
  have "wp (loop strncmp_step (a, b, n)) Q E m"
    using assms
  proof (induction n arbitrary: a b xs ys)
    case 0
    then show ?case by (subst loop_unfold) (simp add: strncmp_step_def wp_simps cmp_ok_def)
  next
    case (Suc n)
    show ?case
    proof (cases "xs \<noteq> [] \<and> ys \<noteq> [] \<and> hd xs = hd ys")
      case True
      then obtain x xs' ys' where eq: "xs = x # xs'" "ys = x # ys'" by (metis list.exhaust_sel)
      have "wp (loop strncmp_step (a + 1, b + 1, n)) Q E m"
        by (rule Suc.IH [where xs = xs' and ys = ys'])
          (use Suc.prems eq in \<open>auto simp: cstr_Cons cmp_ok_Cons_same\<close>)
      then show ?thesis using Suc.prems eq
        by (subst loop_unfold) (auto simp: strncmp_step_def wp_simps cstr_Cons)
    next
      case False
      then show ?thesis
        using Suc.prems cmp_ok_head [of "hd xs" "hd ys"] uint_pos [of "hd xs"] uint_pos [of "hd ys"]
        by (subst loop_unfold, cases xs; cases ys)
          (auto simp: strncmp_step_def wp_simps cstr_Nil cstr_Cons cmp_ok_def)
    qed
  qed
  then show ?thesis
    using Q by (auto simp: strncmp_def wp_simps cmp_ok_def)
qed

lemma cmp_ok_append: "cmp_ok r (ps @ xs) (ps @ ys) = cmp_ok r xs ys"
  by (induction ps) (simp_all add: cmp_ok_Cons_same)

lemma slice_split: "i < n \<Longrightarrow> a + n \<le> length m \<Longrightarrow>
  slice m a n = slice m a i @ m ! (a + i) # slice m (a + i + 1) (n - i - 1)"
  by (rule nth_equalityI) (auto simp: nth_slice nth_append nth_Cons')

lemma slice_Suc: "a + i < length m \<Longrightarrow> slice m a (Suc i) = slice m a i @ [m ! (a + i)]"
  by (simp add: slice_def take_Suc_conv_app_nth)

lemma wp_memcmp:
  assumes "a + n \<le> length m" "b + n \<le> length m"
    and Q: "\<And>r. cmp_ok r (slice m a n) (slice m b n) \<Longrightarrow> Q r m"
  shows "wp (memcmp a b n) Q E m"
  unfolding memcmp_def
proof (rule wp_loop [where I = "\<lambda>i t. i \<le> n \<and> t = m \<and> slice m a i = slice m b i" and m = "\<lambda>i _. n - i"])
  fix i t assume I: "i \<le> n \<and> t = m \<and> slice m a i = slice m b i"
  let ?x = "m ! (a + i)" and ?y = "m ! (b + i)"
  have cmp: "cmp_ok r (slice m a n) (slice m b n) =
      cmp_ok r (?x # slice m (a + i + 1) (n - i - 1)) (?y # slice m (b + i + 1) (n - i - 1))" if "i < n" for r
    using slice_split [OF that assms(1)] slice_split [OF that assms(2)] I cmp_ok_append by simp
  have "Q (- 1) m" if "i < n" "?x < ?y"
    by (rule Q, subst cmp [OF that(1)]) (use that(2) in \<open>auto simp: cmp_ok_def\<close>)
  moreover have "Q 1 m" if "i < n" "?y < ?x"
    by (rule Q, subst cmp [OF that(1)]) (use that(2) in \<open>auto simp: cmp_ok_def\<close>)
  moreover have "slice m a (i + 1) = slice m b (i + 1)" if "i < n" "?x = ?y"
    using I that(2) slice_Suc [of a i m] slice_Suc [of b i m] that(1) assms(1,2) by (simp only: Suc_eq_plus1)
  moreover have "i = n \<Longrightarrow> Q 0 m" using I by (intro Q) (simp add: cmp_ok_def lexordp_irreflexive')
  ultimately show "wp (memcmp_step a b n i) (\<lambda>y s'. case y of
      Inl i' \<Rightarrow> (i' \<le> n \<and> s' = m \<and> slice m a i' = slice m b i') \<and> n - i' < n - i | Inr v \<Rightarrow> Q v s') E t"
    using I assms by (auto simp: memcmp_step_def wp_simps)
qed (simp add: slice_def)

subsection \<open>Searching for a substring\<close>

lemma wp_strstr_match:
  assumes "cstr m h cs" and "cstr m n ns"
    and Q: "\<And>k. k \<le> length ns \<Longrightarrow> (k = length ns) = prefix ns cs \<Longrightarrow> Q (n + k) m"
  shows "wp (loop strstr_match_step (h, n)) Q E m"
  using assms
proof (induction ns arbitrary: h n cs)
  case Nil
  then show ?case using cstr_head [OF Nil.prems(1)] Nil.prems(3) [of 0]
    by (subst loop_unfold) (auto simp: strstr_match_step_def wp_simps cstr_Nil)
next
  case (Cons c ns)
  show ?case
  proof (cases "cs \<noteq> [] \<and> hd cs = c")
    case True
    then obtain ds where cs: "cs = c # ds" by (cases cs) auto
    have "wp (loop strstr_match_step (h + 1, n + 1)) Q E m"
    proof (rule Cons.IH [where cs = ds])
      show "Q (n + 1 + k) m" if "k \<le> length ns" "(k = length ns) = prefix ns ds" for k
        using Cons.prems(3) [of "Suc k"] that cs by simp
    qed (use Cons.prems cs in \<open>simp_all add: cstr_Cons\<close>)
    then show ?thesis using Cons.prems cs
      by (subst loop_unfold) (auto simp: strstr_match_step_def wp_simps cstr_Cons)
  next
    case False
    then have "\<not> prefix (c # ns) cs" "m ! h \<noteq> c"
      using cstr_head [OF Cons.prems(1)] Cons.prems(2) by (cases cs; auto simp: cstr_Cons)+
    then show ?thesis using cstr_head [OF Cons.prems(1)] Cons.prems(2) Cons.prems(3) [of 0]
      by (subst loop_unfold) (auto simp: strstr_match_step_def wp_simps cstr_Cons)
  qed
qed

lemma wp_strstr:
  assumes "cstr m h cs" and n: "cstr m n ns"
    and none: "\<not> sublist ns cs \<Longrightarrow> Q None m"
    and some: "\<And>i. i \<le> length cs \<Longrightarrow> prefix ns (drop i cs) \<Longrightarrow> (\<And>j. j < i \<Longrightarrow> \<not> prefix ns (drop j cs)) \<Longrightarrow>
      Q (Some (h + i)) m"
  shows "wp (strstr h n) Q E m"
proof (cases "ns = []")
  case True
  then show ?thesis using n some [of 0] by (simp add: strstr_def wp_simps cstr_Nil)
next
  case False
  have ns: "n < length m" "m ! n \<noteq> 0" using cstr_head [OF n] False by blast+
  have "wp (loop (strstr_step n) h) Q E m"
    using assms(1) none some
  proof (induction cs arbitrary: h)
    case Nil
    then show ?case using False
      by (subst loop_unfold) (auto simp: strstr_step_def wp_simps cstr_Nil)
  next
    case (Cons c cs)
    have rest: "wp (loop (strstr_step n) (h + 1)) Q E m" if no: "\<not> prefix ns (c # cs)"
    proof (rule Cons.IH)
      show "cstr m (h + 1) cs" using Cons.prems(1) by (simp add: cstr_Cons)
      show "\<not> sublist ns cs \<Longrightarrow> Q None m" using Cons.prems(2) no by (simp add: sublist_Cons_right)
      show "Q (Some (h + 1 + i)) m"
        if "i \<le> length cs" "prefix ns (drop i cs)" "\<And>j. j < i \<Longrightarrow> \<not> prefix ns (drop j cs)" for i
      proof -
        have "\<not> prefix ns (drop j (c # cs))" if "j < Suc i" for j
          using that no \<open>\<And>j. j < i \<Longrightarrow> \<not> prefix ns (drop j cs)\<close> by (cases j) simp_all
        then show ?thesis using Cons.prems(3) [of "Suc i"] that(1,2) by (metis Suc_le_mono add_Suc_right
            add_Suc drop_Suc_Cons length_Cons Suc_eq_plus1)
      qed
    qed
    have "wp (loop strstr_match_step (h, n)) (\<lambda>k. wp (seq (ldb k) (\<lambda>y.
        if y = 0 then ret (Inr (Some h)) else ret (Inl (h + 1))))
        (\<lambda>y. wp (case y of Inl x' \<Rightarrow> loop (strstr_step n) x' | Inr v \<Rightarrow> ret v) Q E) E) E m"
    proof (rule wp_strstr_match [OF Cons.prems(1) n])
      fix k assume k: "k \<le> length ns" "(k = length ns) = prefix ns (c # cs)"
      then show "wp (seq (ldb (n + k)) (\<lambda>y. if y = 0 then ret (Inr (Some h)) else ret (Inl (h + 1))))
        (\<lambda>y. wp (case y of Inl x' \<Rightarrow> loop (strstr_step n) x' | Inr v \<Rightarrow> ret v) Q E) E m"
        using cstrD(1,4) [OF n k(1)] rest Cons.prems(3) [of 0] by (auto simp: wp_simps)
    qed
    then show ?case using Cons.prems(1)
      by (subst loop_unfold) (simp add: strstr_step_def wp_simps cstr_Cons)
  qed
  then show ?thesis using ns by (simp add: strstr_def wp_simps)
qed

subsection \<open>Bounded copy of a string\<close>

lemma wp_strncpy:
  assumes s: "cstr m src cs" and d: "dest + n \<le> length m"
    and apart: "dest + n \<le> src \<or> src + length cs < dest"
    and Q: "Q () (splice m dest (take n (cs @ replicate n 0)))"
  shows "wp (strncpy dest src n) Q E m"
proof -
  have fill: "wp (loop (memset_step dest 0 n) i) Q E (splice m dest (take i cs))"
    if "i = min n (length cs)" for i
  proof (rule wp_fill_from)
    have "splice (splice m dest (take i cs)) (dest + i) (replicate (n - i) 0) =
        splice m dest (take i cs @ replicate (n - i) 0)"
      using splice_splice_next [of dest "take i cs" "replicate (n - i) 0" m] that d by simp
    moreover have "take i cs @ replicate (n - i) 0 = take n (cs @ replicate n 0)"
      using that by (simp add: min_def)
    ultimately show "Q () (splice (splice m dest (take i cs)) (dest + i) (replicate (n - i) 0))"
      using Q by simp
  qed (use that d in simp_all)
  have "wp (loop (strncpy_copy_step dest src n) 0) (\<lambda>i. wp (loop (memset_step dest 0 n) i) Q E) E m"
  proof (rule wp_loop [where I = "\<lambda>i t. i \<le> n \<and> i \<le> length cs \<and> t = splice m dest (take i cs)" and m = "\<lambda>i _. n - i"])
    fix i t assume I: "i \<le> n \<and> i \<le> length cs \<and> t = splice m dest (take i cs)"
    have len: "length t = length m" using I d by simp
    have rd: "t ! (src + i) = m ! (src + i)" "src + i < length m"
      using I apart d cstrD(1) [OF s, of i] by (auto simp: nth_splice)
    have "t[dest + i := m ! (src + i)] = splice m dest (take (i + 1) cs)" if "i < n" "i < length cs"
      by (rule nth_equalityI)
        (use I d that cstrD(2) [OF s] in \<open>auto simp: nth_splice nth_list_update len min_def\<close>)
    then show "wp (strncpy_copy_step dest src n i) (\<lambda>y s'. case y of
        Inl i' \<Rightarrow> (i' \<le> n \<and> i' \<le> length cs \<and> s' = splice m dest (take i' cs)) \<and> n - i' < n - i
      | Inr i \<Rightarrow> wp (loop (memset_step dest 0 n) i) Q E s') E t"
      using I d fill [of i] rd cstrD(4) [OF s, of i]
      by (auto simp: strncpy_copy_step_def wp_simps len min_def)
  qed (simp add: splice_def)
  then show ?thesis by (simp add: strncpy_def wp_simps)
qed

subsection \<open>Properties\<close>

text \<open>C30: \<open>memmove\<close> terminates, and copies the source as it was before the call however the
  two regions overlap; every other byte of the memory stays.\<close>

theorem memmove_overlap:
  assumes "dst + n \<le> length m" and "src + n \<le> length m"
  shows "wp (memmove dst src n) (\<lambda>_ m'. m' = splice m dst (slice m src n)) (\<lambda>_ _. False) m"
  using assms by (auto simp: memmove_def intro!: wp_copy_up wp_copy_down)

lemma memmove_overlap_witness:
  "wp (memmove 1 0 4) (\<lambda>_ m'. m' = [1, 1, 2, 3, 4]) (\<lambda>_ _. False) [1, 2, 3, 4, 5]"
  by (rule wp_conseq [OF memmove_overlap]) (simp_all add: splice_def slice_def)

text \<open>C31: \<open>strcmp\<close> and \<open>strncmp\<close> terminate and read only the strings and their terminators.
  The result is zero exactly for equal strings (equal first \<open>n\<close> bytes), and negative exactly
  when the first is the smaller in the lexicographic order of unsigned bytes.\<close>

theorem strcmp_orders:
  assumes "cstr m a xs" and "cstr m b ys"
  shows "wp (strcmp a b) (\<lambda>r m'. m' = m \<and> (r = 0 \<longleftrightarrow> xs = ys) \<and> (r < 0 \<longleftrightarrow> ord_class.lexordp xs ys)) (\<lambda>_ _. False) m \<and>
    wp (strncmp a b n) (\<lambda>r m'. m' = m \<and> (r = 0 \<longleftrightarrow> take n xs = take n ys) \<and>
      (r < 0 \<longleftrightarrow> ord_class.lexordp (take n xs) (take n ys))) (\<lambda>_ _. False) m"
  using assms by (auto simp: cmp_ok_def intro!: wp_strcmp wp_strncmp)

lemma strcmp_orders_witness:
  "wp (strcmp 0 3) (\<lambda>r _. r < 0) (\<lambda>_ _. False) [0x6c, 0x73, 0, 0x6c, 0x73, 0x20, 0]"
proof -
  have "cstr [0x6c, 0x73, 0, 0x6c, 0x73, 0x20, 0] 0 [0x6c, 0x73]"
    and "cstr [0x6c, 0x73, 0, 0x6c, 0x73, 0x20, 0] 3 [0x6c, 0x73, 0x20]"
    by (simp_all add: cstr_Cons cstr_Nil)
  from conjunct1 [OF strcmp_orders [OF this]] show ?thesis by (rule wp_conseq) simp_all
qed

text \<open>C32: \<open>strstr\<close> terminates without reading past either string, and returns the first
  position where the needle occurs, or the null pointer when it does not occur.\<close>

theorem strstr_first:
  assumes "cstr m h cs" and "cstr m n ns"
  shows "wp (strstr h n) (\<lambda>r m'. m' = m \<and> (case r of None \<Rightarrow> \<not> sublist ns cs
    | Some p \<Rightarrow> \<exists>i \<le> length cs. p = h + i \<and> prefix ns (drop i cs) \<and> (\<forall>j < i. \<not> prefix ns (drop j cs))))
    (\<lambda>_ _. False) m"
  by (rule wp_strstr [OF assms]) auto

lemma strstr_first_witness:
  "wp (strstr 0 5) (\<lambda>r _. r = Some 2) (\<lambda>_ _. False) [0x3e, 0x3e, 0x3e, 0x61, 0, 0x3e, 0x61, 0]"
proof -
  let ?cs = "[0x3e, 0x3e, 0x3e, 0x61 :: u8]" and ?ns = "[0x3e, 0x61 :: u8]"
  have s: "cstr [0x3e, 0x3e, 0x3e, 0x61, 0, 0x3e, 0x61, 0] 0 ?cs"
    "cstr [0x3e, 0x3e, 0x3e, 0x61, 0, 0x3e, 0x61, 0] 5 ?ns"
    by (simp_all add: cstr_Cons cstr_Nil)
  have "i = 2" if "i \<le> length ?cs" "prefix ?ns (drop i ?cs)" for i
  proof -
    have "i = 0 \<or> i = 1 \<or> i = 2 \<or> i = 3 \<or> i = 4" using that(1) by auto
    then show ?thesis using that(2) by auto
  qed
  moreover have "sublist ?ns ?cs" by (simp add: sublist_Cons_right)
  ultimately show ?thesis
    by (intro wp_conseq [OF strstr_first [OF s]]) (auto split: option.splits)
qed

text \<open>\<open>strncpy\<close> fills exactly the \<open>n\<close> bytes at \<open>dest\<close>: a shorter string is copied whole
  and is terminated, a string of \<open>n\<close> or more bytes is cut and gets no terminator. Every other byte
  stays.\<close>

theorem strncpy_pads:
  assumes "cstr m src cs" and "dest + n \<le> length m" and "dest + n \<le> src \<or> src + length cs < dest"
  shows "wp (strncpy dest src n) (\<lambda>_ m'.
    (length cs < n \<longrightarrow> cstr m' dest cs) \<and> (n \<le> length cs \<longrightarrow> slice m' dest n = take n cs) \<and>
    (\<forall>i. (i < dest \<or> dest + n \<le> i) \<longrightarrow> m' ! i = m ! i)) (\<lambda>_ _. False) m"
proof (rule wp_strncpy [OF assms])
  let ?m = "splice m dest (take n (cs @ replicate n 0))"
  have "cstr ?m dest cs" if "length cs < n"
    using that assms(2) cstrD(5) [OF assms(1)] by (auto simp: cstr_def nth_splice nth_append)
  moreover have "slice ?m dest n = take n cs" if "n \<le> length cs"
    using that assms(2) by (simp add: slice_splice_same)
  moreover have "?m ! i = m ! i" if "i < dest \<or> dest + n \<le> i" for i
    using that assms(2) by (auto simp: nth_splice)
  ultimately show "(length cs < n \<longrightarrow> cstr ?m dest cs) \<and> (n \<le> length cs \<longrightarrow> slice ?m dest n = take n cs) \<and>
    (\<forall>i. (i < dest \<or> dest + n \<le> i) \<longrightarrow> ?m ! i = m ! i)" by blast
qed

lemma strncpy_pads_witness:
  "wp (strncpy 3 0 4) (\<lambda>_ m'. cstr m' 3 [0x6c, 0x73]) (\<lambda>_ _. False) [0x6c, 0x73, 0, 1, 2, 3, 4, 5]"
proof -
  have "cstr [0x6c, 0x73, 0, 1, 2, 3, 4, 5] 0 [0x6c, 0x73]" by (simp add: cstr_Cons cstr_Nil)
  from strncpy_pads [OF this, of 3 4] show ?thesis by (rule wp_conseq) simp_all
qed

end
