(* ===== verification/Port.thy ===== *)
theory Port
  imports CMonad
begin

unbundle bit_operations_syntax

section \<open>I/O ports and the serial line (include/io.h, driver/io.c, driver/serial.c)\<close>

text \<open>
  The machine behind the ports is not part of the sources: it is the parameter \<open>dev\<close>, which
  gives the value that a read of a port returns after a history of port accesses, the newest
  first. A component that uses ports has the history as the first field of its state; the
  records of the drivers extend \<open>Io\<close>, so the port operations apply to each of them.
\<close>

subsection \<open>The code\<close>

datatype port_event = In8 u16 u8 | In16 u16 u16 | Out8 u16 u8 | Out16 u16 u16

type_synonym history = "port_event list"
type_synonym device = "history \<Rightarrow> u16 \<Rightarrow> u16"

record Io =
  io_hist :: history

definition inb :: "device \<Rightarrow> u16 \<Rightarrow> ('z Io_scheme, u8) cm" where
  "inb dev port = seq (reads (\<lambda>s. ucast (dev (io_hist s) port))) (\<lambda>v.
     seq (modify (\<lambda>s. s\<lparr>io_hist := In8 port v # io_hist s\<rparr>)) (\<lambda>_. ret v))"

definition outb :: "u16 \<Rightarrow> u8 \<Rightarrow> ('z Io_scheme, unit) cm" where
  "outb port v = modify (\<lambda>s. s\<lparr>io_hist := Out8 port v # io_hist s\<rparr>)"

definition inw :: "device \<Rightarrow> u16 \<Rightarrow> ('z Io_scheme, u16) cm" where
  "inw dev port = seq (reads (\<lambda>s. dev (io_hist s) port)) (\<lambda>v.
     seq (modify (\<lambda>s. s\<lparr>io_hist := In16 port v # io_hist s\<rparr>)) (\<lambda>_. ret v))"

definition outw :: "u16 \<Rightarrow> u16 \<Rightarrow> ('z Io_scheme, unit) cm" where
  "outw port v = modify (\<lambda>s. s\<lparr>io_hist := Out16 port v # io_hist s\<rparr>)"

definition delay_step :: "u32 \<Rightarrow> u32 \<Rightarrow> ('s, u32 + unit) cm" where
  "delay_step cnt i = (if i < cnt then ret (Inl (i + 1)) else ret (Inr ()))"

definition delay :: "u32 \<Rightarrow> ('s, unit) cm" where
  "delay cnt = loop (delay_step cnt) 0"

abbreviation (input) SERIAL_COM1 :: u16 where "SERIAL_COM1 \<equiv> 0x3f8"

definition is_transmit_empty :: "device \<Rightarrow> ('z Io_scheme, u8) cm" where
  "is_transmit_empty dev = seq (inb dev (SERIAL_COM1 + 5)) (\<lambda>v. ret (v AND 0x20))"

definition serial_init :: "('z Io_scheme, unit) cm" where
  "serial_init =
     seq (outb (SERIAL_COM1 + 1) 0x00) (\<lambda>_.
     seq (outb (SERIAL_COM1 + 3) 0x80) (\<lambda>_.
     seq (outb (SERIAL_COM1 + 0) 0x03) (\<lambda>_.
     seq (outb (SERIAL_COM1 + 1) 0x00) (\<lambda>_.
     seq (outb (SERIAL_COM1 + 3) 0x03) (\<lambda>_.
     seq (outb (SERIAL_COM1 + 2) 0xc7) (\<lambda>_.
     outb (SERIAL_COM1 + 4) 0x0b))))))"

definition serial_wait_step :: "device \<Rightarrow> unit \<Rightarrow> ('z Io_scheme, unit + unit) cm" where
  "serial_wait_step dev _ = seq (is_transmit_empty dev) (\<lambda>v.
     if v = 0 then ret (Inl ()) else ret (Inr ()))"

definition serial_putchar :: "device \<Rightarrow> u8 \<Rightarrow> ('z Io_scheme, unit) cm" where
  "serial_putchar dev c = seq (loop (serial_wait_step dev) ()) (\<lambda>_. outb SERIAL_COM1 c)"

text \<open>The string is the list of its characters before the terminating zero.\<close>

definition serial_write_step :: "device \<Rightarrow> bytes \<Rightarrow> ('z Io_scheme, bytes + unit) cm" where
  "serial_write_step dev data = (case data of [] \<Rightarrow> ret (Inr ())
     | c # cs \<Rightarrow> seq (serial_putchar dev c) (\<lambda>_. ret (Inl cs)))"

definition serial_write :: "device \<Rightarrow> bytes \<Rightarrow> ('z Io_scheme, unit) cm" where
  "serial_write dev data = loop (serial_write_step dev) data"

definition serial_write_buf_step :: "device \<Rightarrow> bytes \<Rightarrow> u32 \<Rightarrow> u32 \<Rightarrow> ('z Io_scheme, u32 + unit) cm" where
  "serial_write_buf_step dev data sz i =
     (if i < sz then
        if unat i < length data then
          seq (serial_putchar dev (data ! unat i)) (\<lambda>_. ret (Inl (i + 1)))
        else undef
      else ret (Inr ()))"

definition serial_write_buf :: "device \<Rightarrow> bytes \<Rightarrow> u32 \<Rightarrow> ('z Io_scheme, unit) cm" where
  "serial_write_buf dev data sz = loop (serial_write_buf_step dev data sz) 0"

subsection \<open>What the devices see\<close>

lemma wp_inb [wp_simps]: "wp (inb dev p) Q E s =
    Q (ucast (dev (io_hist s) p)) (s\<lparr>io_hist := In8 p (ucast (dev (io_hist s) p)) # io_hist s\<rparr>)"
  by (simp add: inb_def wp_simps)

lemma wp_inw [wp_simps]: "wp (inw dev p) Q E s =
    Q (dev (io_hist s) p) (s\<lparr>io_hist := In16 p (dev (io_hist s) p) # io_hist s\<rparr>)"
  by (simp add: inw_def wp_simps)

lemma wp_outb [wp_simps]: "wp (outb p v) Q E s = Q () (s\<lparr>io_hist := Out8 p v # io_hist s\<rparr>)"
  by (simp add: outb_def wp_simps)

lemma wp_outw [wp_simps]: "wp (outw p v) Q E s = Q () (s\<lparr>io_hist := Out16 p v # io_hist s\<rparr>)"
  by (simp add: outw_def wp_simps)

lemma wp_delay: "Q () s \<Longrightarrow> wp (delay cnt) Q E s"
  unfolding delay_def
proof (rule wp_loop [where I = "\<lambda>i t. i \<le> cnt \<and> t = s" and m = "\<lambda>i _. unat (cnt - i)"])
  fix i t assume Q: "Q () s" and I: "i \<le> cnt \<and> t = s"
  have "i + 1 \<le> cnt \<and> unat (cnt - (i + 1)) < unat (cnt - i)" if "i < cnt"
    using that by unat_arith
  then show "wp (delay_step cnt i) (\<lambda>y s'. case y of
      Inl i' \<Rightarrow> (i' \<le> cnt \<and> s' = s) \<and> unat (cnt - i') < unat (cnt - i) | Inr v \<Rightarrow> Q v s') E t"
    using Q I by (simp add: delay_step_def wp_simps)
qed simp

text \<open>
  The UART's registers after a history: \<open>dlab\<close>, the bit of the line control register that
  turns the transmit register into the baud-rate divisor; \<open>transmitted\<close>, the bytes given to
  it for sending, the oldest first; \<open>no_overrun\<close>, no byte is given to it unless the read
  just before has shown it empty.
\<close>

fun dlab :: "history \<Rightarrow> bool" where
  "dlab (Out8 p v # h) = (if p = SERIAL_COM1 + 3 then v AND 0x80 \<noteq> 0 else dlab h)"
| "dlab (_ # h) = dlab h"
| "dlab [] = False"

fun transmitted :: "history \<Rightarrow> bytes" where
  "transmitted (Out8 p v # h) = transmitted h @ (if p = SERIAL_COM1 \<and> \<not> dlab h then [v] else [])"
| "transmitted (_ # h) = transmitted h"
| "transmitted [] = []"

fun showed_empty :: "history \<Rightarrow> bool" where
  "showed_empty (In8 p v # h) = (p = SERIAL_COM1 + 5 \<and> v AND 0x20 \<noteq> 0)"
| "showed_empty _ = False"

fun no_overrun :: "history \<Rightarrow> bool" where
  "no_overrun (Out8 p v # h) = (no_overrun h \<and> (p = SERIAL_COM1 \<and> \<not> dlab h \<longrightarrow> showed_empty h))"
| "no_overrun (_ # h) = no_overrun h"
| "no_overrun [] = True"

text \<open>The part of a history that the disk controller at the ports 0x1f0 to 0x1f7 sees.\<close>

fun event_port :: "port_event \<Rightarrow> u16" where
  "event_port (In8 p v) = p"
| "event_port (In16 p w) = p"
| "event_port (Out8 p v) = p"
| "event_port (Out16 p w) = p"

fun ide_events :: "history \<Rightarrow> history" where
  "ide_events (e # h) = (if 0x1f0 \<le> event_port e \<and> event_port e \<le> 0x1f7 then e # ide_events h else ide_events h)"
| "ide_events [] = []"

text \<open>A history that only grew by reads of the port \<open>p\<close>.\<close>

definition polled :: "u16 \<Rightarrow> history \<Rightarrow> history \<Rightarrow> bool" where
  "polled p h h' \<longleftrightarrow> (\<exists>vs. h' = map (In8 p) vs @ h)"

lemma polled_refl [simp]: "polled p h h"
  unfolding polled_def by (rule exI [of _ "[]"]) simp

lemma polled_Cons: "polled p h h' \<Longrightarrow> polled p h (In8 p v # h')"
  unfolding polled_def by (metis append_Cons list.simps(9))

lemma polled_step: "polled p (In8 p v # h) h' \<Longrightarrow> polled p h h'"
proof -
  assume "polled p (In8 p v # h) h'"
  then obtain vs where "h' = map (In8 p) (vs @ [v]) @ h" by (auto simp: polled_def)
  then show ?thesis unfolding polled_def by blast
qed

lemma polled_induct: "polled p h h' \<Longrightarrow> P h \<Longrightarrow> (\<And>v g. P g \<Longrightarrow> P (In8 p v # g)) \<Longrightarrow> P h'"
proof -
  assume step: "\<And>v g. P g \<Longrightarrow> P (In8 p v # g)" and "P h"
  then have "P (map (In8 p) vs @ h)" for vs by (induction vs) simp_all
  then show "polled p h h' \<Longrightarrow> P h'" by (auto simp: polled_def)
qed

lemma polled_registers:
  assumes "polled p h h'"
  shows "transmitted h' = transmitted h" "dlab h' = dlab h" "no_overrun h' = no_overrun h"
proof -
  have "transmitted h' = transmitted h \<and> dlab h' = dlab h \<and> no_overrun h' = no_overrun h"
    using assms by (rule polled_induct) simp_all
  then show "transmitted h' = transmitted h" "dlab h' = dlab h" "no_overrun h' = no_overrun h" by simp_all
qed

lemma polled_ide: "polled (SERIAL_COM1 + 5) h h' \<Longrightarrow> ide_events h' = ide_events h"
  by (erule polled_induct) simp_all

text \<open>A loop that reads a port until its value is as wanted ends if some further read would
  show such a value.\<close>

fun poll :: "device \<Rightarrow> u16 \<Rightarrow> nat \<Rightarrow> history \<Rightarrow> history" where
  "poll dev p 0 h = h"
| "poll dev p (Suc n) h = poll dev p n (In8 p (ucast (dev h p)) # h)"

definition shows_value :: "device \<Rightarrow> u16 \<Rightarrow> (u8 \<Rightarrow> bool) \<Rightarrow> history \<Rightarrow> bool" where
  "shows_value dev p good h \<longleftrightarrow> (\<exists>n. good (ucast (dev (poll dev p n h) p)))"

lemma wp_state_cong: "m s = m' s \<Longrightarrow> wp m Q E s = wp m' Q E s"
  by (simp add: wp_def)

lemma wp_poll:
  assumes "shows_value dev p good (io_hist s)"
    and Q: "\<And>h v. polled p (io_hist s) h \<Longrightarrow> good v \<Longrightarrow> Q () (s\<lparr>io_hist := In8 p v # h\<rparr>)"
    and body: "\<And>h. body () (s\<lparr>io_hist := h\<rparr>) =
      seq (inb dev p) (\<lambda>v. if good v then ret (Inr ()) else ret (Inl ())) (s\<lparr>io_hist := h\<rparr>)"
  shows "wp (loop body ()) Q E s"
proof -
  obtain n where "good (ucast (dev (poll dev p n (io_hist s)) p))" using assms(1) by (auto simp: shows_value_def)
  then show ?thesis
    using Q body
  proof (induction n arbitrary: s)
    case 0
    have "wp (body ()) R E s = wp (seq (inb dev p) (\<lambda>v. if good v then ret (Inr ()) else ret (Inl ()))) R E s" for R
      using 0(3) [of "io_hist s"] by (intro wp_state_cong) simp
    then show ?case using 0 by (subst loop_unfold) (simp add: wp_simps)
  next
    case (Suc n)
    let ?v = "ucast (dev (io_hist s) p) :: u8"
    let ?s = "s\<lparr>io_hist := In8 p ?v # io_hist s\<rparr>"
    have "wp (loop body ()) Q E ?s"
      by (rule Suc.IH) (use Suc.prems polled_step [where v = ?v] in auto)
    moreover have "wp (body ()) R E s = wp (seq (inb dev p) (\<lambda>v. if good v then ret (Inr ()) else ret (Inl ()))) R E s" for R
      using Suc.prems(3) [of "io_hist s"] by (intro wp_state_cong) simp
    ultimately show ?case using Suc.prems(2) [OF polled_refl]
      by (subst loop_unfold) (simp add: wp_simps)
  qed
qed

text \<open>
  What the driver relies on: from every state of the machine, reading the line status often
  enough shows the transmitter empty (a UART sends what it has been given).
\<close>

definition uart_ok :: "device \<Rightarrow> bool" where
  "uart_ok dev \<longleftrightarrow> (\<forall>h. shows_value dev (SERIAL_COM1 + 5) (\<lambda>v. v AND 0x20 \<noteq> 0) h)"

lemma wp_serial_putchar:
  assumes "uart_ok dev"
    and Q: "\<And>h. polled (SERIAL_COM1 + 5) (io_hist s) h \<Longrightarrow> showed_empty h \<Longrightarrow> Q () (s\<lparr>io_hist := Out8 SERIAL_COM1 c # h\<rparr>)"
  shows "wp (serial_putchar dev c) Q E s"
  unfolding serial_putchar_def wp_seq_fun
proof (rule wp_poll [where p = "SERIAL_COM1 + 5" and good = "\<lambda>v. v AND 0x20 \<noteq> 0"])
  show "shows_value dev (SERIAL_COM1 + 5) (\<lambda>v. v AND 0x20 \<noteq> 0) (io_hist s)" using assms(1) by (simp add: uart_ok_def)
  show "serial_wait_step dev () (s\<lparr>io_hist := h\<rparr>) = seq (inb dev (SERIAL_COM1 + 5))
      (\<lambda>v. if v AND 0x20 \<noteq> 0 then ret (Inr ()) else ret (Inl ())) (s\<lparr>io_hist := h\<rparr>)" for h
    by (simp add: serial_wait_step_def is_transmit_empty_def seq_def ret_def split: option.splits sum.splits prod.splits)
  fix h and v :: u8 assume "polled (SERIAL_COM1 + 5) (io_hist s) h" "v AND 0x20 \<noteq> 0"
  then show "wp (outb SERIAL_COM1 c) Q E (s\<lparr>io_hist := In8 (SERIAL_COM1 + 5) v # h\<rparr>)"
    using Q [of "In8 (SERIAL_COM1 + 5) v # h"] polled_Cons by (simp add: wp_simps)
qed

text \<open>What one call adds to the history: the byte is transmitted, without an overrun, and the
  disk's ports are left alone.\<close>

definition line_sent :: "bytes \<Rightarrow> history \<Rightarrow> history \<Rightarrow> bool" where
  "line_sent cs h h' \<longleftrightarrow> transmitted h' = transmitted h @ cs \<and> \<not> dlab h' \<and> (no_overrun h \<longrightarrow> no_overrun h') \<and>
     ide_events h' = ide_events h"

lemma line_sent_refl: "\<not> dlab h \<Longrightarrow> line_sent [] h h"
  by (simp add: line_sent_def)

lemma line_sent_trans: "line_sent xs h h1 \<Longrightarrow> line_sent ys h1 h2 \<Longrightarrow> line_sent (xs @ ys) h h2"
  by (simp add: line_sent_def)

lemma wp_serial_putchar_sent:
  assumes "uart_ok dev" "\<not> dlab (io_hist s)"
    and Q: "\<And>h. line_sent [c] (io_hist s) h \<Longrightarrow> Q () (s\<lparr>io_hist := h\<rparr>)"
  shows "wp (serial_putchar dev c) Q E s"
  by (rule wp_serial_putchar [OF assms(1)], rule Q)
    (use assms(2) in \<open>simp add: line_sent_def polled_registers polled_ide\<close>)

lemma wp_serial_write:
  assumes "uart_ok dev" and "\<not> dlab (io_hist s)"
    and Q: "\<And>h. line_sent cs (io_hist s) h \<Longrightarrow> Q () (s\<lparr>io_hist := h\<rparr>)"
  shows "wp (serial_write dev cs) Q E s"
proof -
  have "wp (loop (serial_write_step dev) cs) Q E s"
    using assms(2) Q
  proof (induction cs arbitrary: s)
    case Nil
    then show ?case using line_sent_refl [of "io_hist s"] Nil.prems(2) [of "io_hist s"]
      by (subst loop_unfold) (simp add: serial_write_step_def wp_simps)
  next
    case (Cons c cs)
    have "wp (serial_putchar dev c) (\<lambda>_. wp (loop (serial_write_step dev) cs) Q E) E s"
    proof (rule wp_serial_putchar_sent [OF assms(1) Cons.prems(1)], rule Cons.IH)
      fix h assume h: "line_sent [c] (io_hist s) h"
      then show "\<not> dlab (io_hist (s\<lparr>io_hist := h\<rparr>))" by (simp add: line_sent_def)
      fix h' assume "line_sent cs (io_hist (s\<lparr>io_hist := h\<rparr>)) h'"
      then have "line_sent (c # cs) (io_hist s) h'" using line_sent_trans [OF h, of cs h'] by simp
      then show "Q () (s\<lparr>io_hist := h, io_hist := h'\<rparr>)" using Cons.prems(2) by simp
    qed
    then show ?case by (subst loop_unfold) (simp add: serial_write_step_def wp_simps)
  qed
  then show ?thesis by (simp add: serial_write_def)
qed

lemma wp_serial_write_buf:
  assumes "uart_ok dev" and "\<not> dlab (io_hist s)" and "unat n \<le> length data"
    and Q: "\<And>h. line_sent (take (unat n) data) (io_hist s) h \<Longrightarrow> Q () (s\<lparr>io_hist := h\<rparr>)"
  shows "wp (serial_write_buf dev data n) Q E s"
proof -
  have step: "serial_write_buf_step dev data n = (\<lambda>i. if i < n then seq (if unat i < length data
      then serial_putchar dev (data ! unat i) else undef) (\<lambda>_. ret (Inl (i + 1))) else ret (Inr ()))"
    by (rule ext) (auto simp: serial_write_buf_step_def fun_eq_iff seq_def undef_def)
  show ?thesis
    unfolding serial_write_buf_def step
  proof (rule wp_for [where I = "\<lambda>k t. \<exists>h. t = s\<lparr>io_hist := h\<rparr> \<and> line_sent (take k data) (io_hist s) h"])
    fix i t assume i: "i < n" and "\<exists>h. t = s\<lparr>io_hist := h\<rparr> \<and> line_sent (take (unat i) data) (io_hist s) h"
    then obtain h where I: "t = s\<lparr>io_hist := h\<rparr>" "line_sent (take (unat i) data) (io_hist s) h" by blast
    have bound: "unat i < length data" using i assms(3) by (simp add: word_less_nat_alt)
    have "wp (serial_putchar dev (data ! unat i)) (\<lambda>_ s'.
        \<exists>h. s' = s\<lparr>io_hist := h\<rparr> \<and> line_sent (take (Suc (unat i)) data) (io_hist s) h) E t"
    proof (rule wp_serial_putchar_sent [OF assms(1)])
      show "\<not> dlab (io_hist t)" using I by (simp add: line_sent_def)
      fix h' assume "line_sent [data ! unat i] (io_hist t) h'"
      with I have "line_sent (take (unat i) data @ [data ! unat i]) (io_hist s) h'"
        using line_sent_trans by fastforce
      then show "\<exists>h. t\<lparr>io_hist := h'\<rparr> = s\<lparr>io_hist := h\<rparr> \<and> line_sent (take (Suc (unat i)) data) (io_hist s) h"
        using I bound by (auto simp: take_Suc_conv_app_nth intro!: exI [of _ h'])
    qed
    then show "wp (if unat i < length data then serial_putchar dev (data ! unat i) else undef) (\<lambda>_ s'.
        \<exists>h. s' = s\<lparr>io_hist := h\<rparr> \<and> line_sent (take (Suc (unat i)) data) (io_hist s) h) E t"
      using bound by simp
  qed (use assms(2,3) Q in \<open>auto intro!: exI [of _ "io_hist s"] line_sent_refl\<close>)
qed

lemma wp_serial_init:
  assumes "\<And>h. transmitted h = transmitted (io_hist s) \<Longrightarrow> \<not> dlab h \<Longrightarrow>
    ide_events h = ide_events (io_hist s) \<Longrightarrow>
    \<not> dlab (io_hist s) \<and> no_overrun (io_hist s) \<longrightarrow> no_overrun h \<Longrightarrow> Q () (s\<lparr>io_hist := h\<rparr>)"
  shows "wp serial_init Q E s"
  using assms by (simp add: serial_init_def wp_simps)

text \<open>C33: after \<open>serial_init\<close> has set the line up, \<open>serial_write\<close> terminates on a UART that
  keeps sending, and hands the line exactly the bytes of the string, in order; no byte is handed over
  before the UART has shown that the one before has gone.\<close>

theorem serial_write_sends:
  assumes "uart_ok dev"
  shows "wp (seq serial_init (\<lambda>_. serial_write dev cs)) (\<lambda>_ s'.
      transmitted (io_hist s') = transmitted (io_hist s) @ cs \<and>
      (\<not> dlab (io_hist s) \<and> no_overrun (io_hist s) \<longrightarrow> no_overrun (io_hist s'))) (\<lambda>_ _. False) s"
  unfolding wp_seq
  by (rule wp_serial_init, rule wp_serial_write [OF assms]) (auto simp: line_sent_def)

text \<open>A UART that needs three reads after each byte before it shows empty.\<close>

definition uart_sample :: device where
  "uart_sample h p = (case h of
     In8 a _ # In8 b _ # In8 c _ # _ \<Rightarrow> (if p = SERIAL_COM1 + 5 then 0x60 else 0xff)
   | _ \<Rightarrow> 0)"

lemma uart_sample_ok: "uart_ok uart_sample"
  unfolding uart_ok_def
proof
  fix h
  show "shows_value uart_sample (SERIAL_COM1 + 5) (\<lambda>v. v AND 0x20 \<noteq> 0) h"
    unfolding shows_value_def by (rule exI [of _ 3]) (simp add: numeral_3_eq_3 uart_sample_def)
qed

lemma serial_write_sends_witness:
  "wp (seq serial_init (\<lambda>_. serial_write uart_sample [0x4f, 0x4b])) (\<lambda>_ s'.
      transmitted (io_hist s') = [0x4f, 0x4b] \<and> no_overrun (io_hist s')) (\<lambda>_ _. False) \<lparr>io_hist = []\<rparr>"
  by (rule wp_conseq [OF serial_write_sends [OF uart_sample_ok]]) simp_all

end
