(* ===== verification/Tty.thy ===== *)
theory Tty
  imports Port Interfaces
begin

unbundle bit_operations_syntax

section \<open>The text terminal (driver/tty.c)\<close>

text \<open>
  The 80 x 25 cells of the VGA text memory are a list of 2000 words; a store outside it is
  \<open>undef\<close>. Every character also goes to the serial line, and the hardware cursor is set
  through the ports of the CRT controller.
\<close>

subsection \<open>The code\<close>

datatype vga_color = VGA_COLOR_BLACK | VGA_COLOR_BLUE | VGA_COLOR_GREEN | VGA_COLOR_CYAN
  | VGA_COLOR_RED | VGA_COLOR_MAGENTA | VGA_COLOR_BROWN | VGA_COLOR_LIGHT_GREY
  | VGA_COLOR_DARK_GREY | VGA_COLOR_LIGHT_BLUE | VGA_COLOR_LIGHT_GREEN | VGA_COLOR_LIGHT_CYAN
  | VGA_COLOR_LIGHT_RED | VGA_COLOR_LIGHT_MAGENTA | VGA_COLOR_LIGHT_BROWN | VGA_COLOR_WHITE

primrec vga_code :: "vga_color \<Rightarrow> u8" where
  "vga_code VGA_COLOR_BLACK = 0" | "vga_code VGA_COLOR_BLUE = 1"
| "vga_code VGA_COLOR_GREEN = 2" | "vga_code VGA_COLOR_CYAN = 3"
| "vga_code VGA_COLOR_RED = 4" | "vga_code VGA_COLOR_MAGENTA = 5"
| "vga_code VGA_COLOR_BROWN = 6" | "vga_code VGA_COLOR_LIGHT_GREY = 7"
| "vga_code VGA_COLOR_DARK_GREY = 8" | "vga_code VGA_COLOR_LIGHT_BLUE = 9"
| "vga_code VGA_COLOR_LIGHT_GREEN = 10" | "vga_code VGA_COLOR_LIGHT_CYAN = 11"
| "vga_code VGA_COLOR_LIGHT_RED = 12" | "vga_code VGA_COLOR_LIGHT_MAGENTA = 13"
| "vga_code VGA_COLOR_LIGHT_BROWN = 14" | "vga_code VGA_COLOR_WHITE = 15"

abbreviation (input) VGA_WIDTH :: nat where "VGA_WIDTH \<equiv> 80"
abbreviation (input) VGA_HEIGHT :: nat where "VGA_HEIGHT \<equiv> 25"

record Tty = Io +
  terminal_row :: u32
  terminal_column :: u32
  terminal_color :: u8
  terminal_buffer :: "u16 list"

definition vga_entry_color :: "vga_color \<Rightarrow> vga_color \<Rightarrow> u8" where
  "vga_entry_color fg bg = vga_code fg OR push_bit 4 (vga_code bg)"

definition vga_entry :: "u8 \<Rightarrow> u8 \<Rightarrow> u16" where
  "vga_entry uc color = ucast uc OR push_bit 8 (ucast color)"

definition load_cell :: "nat \<Rightarrow> ('z Tty_scheme, u16) cm" where
  "load_cell i = (\<lambda>s. if i < length (terminal_buffer s) then Some (Inr (terminal_buffer s ! i), s) else None)"

definition store_cell :: "nat \<Rightarrow> u16 \<Rightarrow> ('z Tty_scheme, unit) cm" where
  "store_cell i v = (\<lambda>s. if i < length (terminal_buffer s)
     then Some (Inr (), s\<lparr>terminal_buffer := (terminal_buffer s)[i := v]\<rparr>) else None)"

definition update_cursor :: "u32 \<Rightarrow> u32 \<Rightarrow> ('z Tty_scheme, unit) cm" where
  "update_cursor x y = (let pos = ucast (y * 80 + x) :: u16 in
     seq (outb 0x3d4 0x0f) (\<lambda>_.
     seq (outb 0x3d5 (ucast (pos AND 0xff))) (\<lambda>_.
     seq (outb 0x3d4 0x0e) (\<lambda>_.
     outb 0x3d5 (ucast (drop_bit 8 pos AND 0xff))))))"

definition scroll_cell_step :: "nat \<Rightarrow> nat \<Rightarrow> ('z Tty_scheme, nat + unit) cm" where
  "scroll_cell_step y x =
     (if x < VGA_WIDTH then
        seq (load_cell ((y + 1) * VGA_WIDTH + x)) (\<lambda>c.
        seq (store_cell (y * VGA_WIDTH + x) c) (\<lambda>_. ret (Inl (x + 1))))
      else ret (Inr ()))"

definition scroll_row_step :: "nat \<Rightarrow> ('z Tty_scheme, nat + unit) cm" where
  "scroll_row_step y =
     (if y < VGA_HEIGHT - 1 then seq (loop (scroll_cell_step y) 0) (\<lambda>_. ret (Inl (y + 1)))
      else ret (Inr ()))"

definition blank_cell_step :: "nat \<Rightarrow> nat \<Rightarrow> ('z Tty_scheme, nat + unit) cm" where
  "blank_cell_step y x =
     (if x < VGA_WIDTH then
        seq (reads terminal_color) (\<lambda>color.
        seq (store_cell (y * VGA_WIDTH + x) (vga_entry 0x20 color)) (\<lambda>_. ret (Inl (x + 1))))
      else ret (Inr ()))"

definition blank_row_step :: "nat \<Rightarrow> ('z Tty_scheme, nat + unit) cm" where
  "blank_row_step y =
     (if y < VGA_HEIGHT then seq (loop (blank_cell_step y) 0) (\<lambda>_. ret (Inl (y + 1)))
      else ret (Inr ()))"

definition terminal_scroll :: "('z Tty_scheme, unit) cm" where
  "terminal_scroll =
     seq (loop scroll_row_step 0) (\<lambda>_.
     seq (loop (blank_cell_step (VGA_HEIGHT - 1)) 0) (\<lambda>_.
     modify (\<lambda>s. s\<lparr>terminal_row := 24\<rparr>)))"

definition terminal_putentryat :: "device \<Rightarrow> u8 \<Rightarrow> u8 \<Rightarrow> u32 \<Rightarrow> u32 \<Rightarrow> ('z Tty_scheme, unit) cm" where
  "terminal_putentryat dev c color x y =
     seq (store_cell (unat (y * 80 + x)) (vga_entry c color)) (\<lambda>_. serial_putchar dev c)"

definition terminal_initialize :: "('z Tty_scheme, unit) cm" where
  "terminal_initialize =
     seq (modify (\<lambda>s. s\<lparr>terminal_row := 0, terminal_column := 0,
       terminal_color := vga_entry_color VGA_COLOR_WHITE VGA_COLOR_BLACK\<rparr>)) (\<lambda>_.
     loop blank_row_step 0)"

definition terminal_clear :: "('z Tty_scheme, unit) cm" where
  "terminal_clear =
     seq (modify (\<lambda>s. s\<lparr>terminal_row := 0, terminal_column := 0\<rparr>)) (\<lambda>_.
     seq (loop blank_row_step 0) (\<lambda>_.
     seq (reads terminal_column) (\<lambda>x. seq (reads terminal_row) (\<lambda>y. update_cursor x y))))"

definition terminal_enable_cursor :: "device \<Rightarrow> ('z Tty_scheme, unit) cm" where
  "terminal_enable_cursor dev =
     seq (outb 0x3d4 0x0a) (\<lambda>_.
     seq (inb dev 0x3d5) (\<lambda>v.
     seq (outb 0x3d5 ((v AND 0xc0) OR 0)) (\<lambda>_.
     seq (outb 0x3d4 0x0b) (\<lambda>_.
     seq (inb dev 0x3d5) (\<lambda>v.
     outb 0x3d5 ((v AND 0xe0) OR 15))))))"

definition terminal_setcolor :: "u8 \<Rightarrow> ('z Tty_scheme, unit) cm" where
  "terminal_setcolor color = modify (\<lambda>s. s\<lparr>terminal_color := color\<rparr>)"

definition terminal_set_position :: "u32 \<Rightarrow> u32 \<Rightarrow> ('z Tty_scheme, unit) cm" where
  "terminal_set_position x y =
     seq (modify (\<lambda>s. s\<lparr>terminal_column := x, terminal_row := y\<rparr>)) (\<lambda>_. update_cursor x y)"

definition terminal_get_column :: "('z Tty_scheme, u32) cm" where
  "terminal_get_column = reads terminal_column"

definition terminal_get_row :: "('z Tty_scheme, u32) cm" where
  "terminal_get_row = reads terminal_row"

text \<open>\<open>if (++terminal_row == VGA_HEIGHT) terminal_scroll()\<close>, which occurs twice, and the final
  cursor update.\<close>

definition next_row :: "('z Tty_scheme, unit) cm" where
  "next_row =
     seq (modify (\<lambda>s. s\<lparr>terminal_row := terminal_row s + 1\<rparr>)) (\<lambda>_.
     seq (reads terminal_row) (\<lambda>y. if y = 25 then terminal_scroll else ret ()))"

definition show_cursor :: "('z Tty_scheme, unit) cm" where
  "show_cursor = seq (reads terminal_column) (\<lambda>x. seq (reads terminal_row) (\<lambda>y. update_cursor x y))"

definition terminal_putchar :: "device \<Rightarrow> u8 \<Rightarrow> ('z Tty_scheme, unit) cm" where
  "terminal_putchar dev c =
     (if c = 0x0a then
        seq (modify (\<lambda>s. s\<lparr>terminal_column := 0\<rparr>)) (\<lambda>_.
        seq next_row (\<lambda>_.
        seq show_cursor (\<lambda>_.
        serial_putchar dev 0x0a)))
      else
        seq (reads (\<lambda>s. (terminal_color s, terminal_column s, terminal_row s))) (\<lambda>(color, x, y).
        seq (terminal_putentryat dev c color x y) (\<lambda>_.
        seq (modify (\<lambda>s. s\<lparr>terminal_column := terminal_column s + 1\<rparr>)) (\<lambda>_.
        seq (reads terminal_column) (\<lambda>x.
        seq (if x = 80 then
               seq (modify (\<lambda>s. s\<lparr>terminal_column := 0\<rparr>)) (\<lambda>_. next_row)
             else ret ()) (\<lambda>_.
        show_cursor))))))"

definition terminal_putchar_color :: "device \<Rightarrow> u8 \<Rightarrow> vga_color \<Rightarrow> vga_color \<Rightarrow> ('z Tty_scheme, unit) cm" where
  "terminal_putchar_color dev c fg bg =
     seq (reads terminal_color) (\<lambda>old_color.
     seq (modify (\<lambda>s. s\<lparr>terminal_color := vga_entry_color fg bg\<rparr>)) (\<lambda>_.
     seq (terminal_putchar dev c) (\<lambda>_.
     modify (\<lambda>s. s\<lparr>terminal_color := old_color\<rparr>))))"

definition terminal_write_step :: "device \<Rightarrow> bytes \<Rightarrow> u32 \<Rightarrow> u32 \<Rightarrow> ('z Tty_scheme, u32 + unit) cm" where
  "terminal_write_step dev data sz i =
     (if i < sz then
        if unat i < length data then
          seq (terminal_putchar dev (data ! unat i)) (\<lambda>_. ret (Inl (i + 1)))
        else undef
      else ret (Inr ()))"

definition terminal_write :: "device \<Rightarrow> bytes \<Rightarrow> u32 \<Rightarrow> ('z Tty_scheme, unit) cm" where
  "terminal_write dev data sz = loop (terminal_write_step dev data sz) 0"

text \<open>A C string is the list of its characters before the terminating zero.\<close>

definition terminal_writestring :: "device \<Rightarrow> bytes \<Rightarrow> ('z Tty_scheme, unit) cm" where
  "terminal_writestring dev data = terminal_write dev data (of_nat (length data))"

definition terminal_writestring_color :: "device \<Rightarrow> bytes \<Rightarrow> vga_color \<Rightarrow> vga_color \<Rightarrow> ('z Tty_scheme, unit) cm" where
  "terminal_writestring_color dev data fg bg =
     seq (reads terminal_color) (\<lambda>old_color.
     seq (modify (\<lambda>s. s\<lparr>terminal_color := vga_entry_color fg bg\<rparr>)) (\<lambda>_.
     seq (terminal_writestring dev data) (\<lambda>_.
     modify (\<lambda>s. s\<lparr>terminal_color := old_color\<rparr>))))"

definition terminal_backspace :: "device \<Rightarrow> ('z Tty_scheme, unit) cm" where
  "terminal_backspace dev =
     seq (modify (\<lambda>s. s\<lparr>terminal_column := terminal_column s - 1\<rparr>)) (\<lambda>_.
     seq (reads (\<lambda>s. (terminal_color s, terminal_column s, terminal_row s))) (\<lambda>(color, x, y).
     seq (terminal_putentryat dev 0x20 color x y) (\<lambda>_.
     show_cursor)))"

subsection \<open>The loops over the cells\<close>

interpretation vga: cell_store "\<lambda>b. length b = 2000" "\<lambda>i. i < 2000" "(!)" "\<lambda>i v b. b[i := v]"
  by unfold_locales simp_all

lemma wp_load_cell [wp_simps]: "wp (load_cell i) Q E s =
    (i < length (terminal_buffer s) \<and> Q (terminal_buffer s ! i) s)"
  by (simp add: wp_def load_cell_def)

lemma wp_store_cell [wp_simps]: "wp (store_cell i v) Q E s =
    (i < length (terminal_buffer s) \<and> Q () (s\<lparr>terminal_buffer := (terminal_buffer s)[i := v]\<rparr>))"
  by (simp add: wp_def store_cell_def)

text \<open>The state with its cells replaced.\<close>

abbreviation with_cells :: "'z Tty_scheme \<Rightarrow> (nat \<Rightarrow> u16) \<Rightarrow> 'z Tty_scheme" where
  "with_cells s f \<equiv> s\<lparr>terminal_buffer := map f [0..<2000]\<rparr>"

lemma with_cells_same: "length (terminal_buffer s) = 2000 \<Longrightarrow> with_cells s ((!) (terminal_buffer s)) = s"
  using map_nth [of "terminal_buffer s"] by simp

lemma with_cells_update: "(map f [0..<2000])[i := v] = map (\<lambda>j. if j = i then v else f j) [0..<2000 :: nat]"
  by (rule nth_equalityI) (auto simp: nth_list_update)

lemma with_cells_cong: "(\<And>j. j < 2000 \<Longrightarrow> f j = g j) \<Longrightarrow> with_cells s f = with_cells s g"
  by simp

lemma wp_scroll_row:
  assumes y: "y < 24"
    and Q: "Q () (with_cells s (\<lambda>j. if j div 80 = y then f (j + 80) else f j))"
  shows "wp (loop (scroll_cell_step y) 0) Q E (with_cells s f)"
proof (rule wp_loop [where m = "\<lambda>x _. 80 - x" and
    I = "\<lambda>x t. x \<le> 80 \<and> t = with_cells s (\<lambda>j. if j div 80 = y \<and> j mod 80 < x then f (j + 80) else f j)"])
  fix x t
  let ?t = "\<lambda>x. with_cells s (\<lambda>j. if j div 80 = y \<and> j mod 80 < x then f (j + 80) else f j)"
  assume I: "x \<le> 80 \<and> t = ?t x"
  show "wp (scroll_cell_step y x) (\<lambda>r s'. case r of
      Inl x' \<Rightarrow> (x' \<le> 80 \<and> s' = ?t x') \<and> 80 - x' < 80 - x | Inr v \<Rightarrow> Q v s') E t"
  proof (cases "x < 80")
    case True
    have d: "(y * 80 + x) div 80 = y" "(y * 80 + x) mod 80 = x" "((y + 1) * 80 + x) div 80 = y + 1"
      using True by simp_all
    have step: "(if j = y * 80 + x then f (80 + y * 80 + x)
        else if j div 80 = y \<and> j mod 80 < x then f (j + 80) else f j) =
        (if j div 80 = y \<and> j mod 80 < Suc x then f (j + 80) else f j)" for j
    proof (cases "j = y * 80 + x")
      case False
      then have "j div 80 = y \<Longrightarrow> j mod 80 \<noteq> x" using div_mult_mod_eq [of j 80] by auto
      then show ?thesis using False by auto
    qed (use d in \<open>simp add: algebra_simps\<close>)
    show ?thesis using True I y d step
      by (simp add: scroll_cell_step_def wp_simps with_cells_update)
  next
    case False
    then have "t = with_cells s (\<lambda>j. if j div 80 = y then f (j + 80) else f j)" using I by simp
    then show ?thesis using False Q by (simp add: scroll_cell_step_def wp_simps)
  qed
qed simp

lemma wp_blank_row:
  assumes y: "y < 25"
    and Q: "Q () (with_cells s (\<lambda>j. if j div 80 = y then vga_entry 0x20 (terminal_color s) else f j))"
  shows "wp (loop (blank_cell_step y) 0) Q E (with_cells s f)"
proof (rule wp_loop [where m = "\<lambda>x _. 80 - x" and
    I = "\<lambda>x t. x \<le> 80 \<and> t = with_cells s (\<lambda>j. if j div 80 = y \<and> j mod 80 < x then vga_entry 0x20 (terminal_color s) else f j)"])
  fix x t
  let ?b = "vga_entry 0x20 (terminal_color s)"
  let ?t = "\<lambda>x. with_cells s (\<lambda>j. if j div 80 = y \<and> j mod 80 < x then ?b else f j)"
  assume I: "x \<le> 80 \<and> t = ?t x"
  show "wp (blank_cell_step y x) (\<lambda>r s'. case r of
      Inl x' \<Rightarrow> (x' \<le> 80 \<and> s' = ?t x') \<and> 80 - x' < 80 - x | Inr v \<Rightarrow> Q v s') E t"
  proof (cases "x < 80")
    case True
    have step: "(if j = y * 80 + x then ?b else if j div 80 = y \<and> j mod 80 < x then ?b else f j) =
        (if j div 80 = y \<and> j mod 80 < x + 1 then ?b else f j)" for j
    proof (cases "j = y * 80 + x")
      case False
      then have "j div 80 = y \<Longrightarrow> j mod 80 \<noteq> x" using div_mult_mod_eq [of j 80] by auto
      then show ?thesis using False by auto
    qed (use True in simp)
    show ?thesis using True I y
      by (simp add: blank_cell_step_def wp_simps with_cells_update step [simplified])
  next
    case False
    then have "t = with_cells s (\<lambda>j. if j div 80 = y then ?b else f j)" using I by simp
    then show ?thesis using False Q by (simp add: blank_cell_step_def wp_simps)
  qed
qed simp

lemma wp_scroll_rows:
  assumes Q: "Q () (with_cells s (\<lambda>j. if j < 1920 then f (j + 80) else f j))"
  shows "wp (loop scroll_row_step 0) Q E (with_cells s f)"
proof (rule wp_loop [where m = "\<lambda>y _. 24 - y" and
    I = "\<lambda>y t. y \<le> 24 \<and> t = with_cells s (\<lambda>j. if j div 80 < y then f (j + 80) else f j)"])
  fix y t assume I: "y \<le> 24 \<and> t = with_cells s (\<lambda>j. if j div 80 < y then f (j + 80) else f j)"
  show "wp (scroll_row_step y) (\<lambda>r s'. case r of
      Inl y' \<Rightarrow> (y' \<le> 24 \<and> s' = with_cells s (\<lambda>j. if j div 80 < y' then f (j + 80) else f j)) \<and> 24 - y' < 24 - y
    | Inr v \<Rightarrow> Q v s') E t"
  proof (cases "y < 24")
    case True
    have row: "(if j div 80 = y then (if (j + 80) div 80 < y then f (j + 80 + 80) else f (j + 80))
        else if j div 80 < y then f (j + 80) else f j) = (if j div 80 < Suc y then f (j + 80) else f j)" for j
      by (cases "j div 80 = y") auto
    show ?thesis unfolding scroll_row_step_def
      using True I by (simp add: wp_simps) (rule wp_scroll_row, simp, simp add: row [simplified] wp_simps)
  next
    case False
    then have "y = 24" using I by simp
    moreover have "(j div 80 < 24) = (j < 1920)" for j :: nat using div_less_iff_less_mult [of 80 j 24] by simp
    ultimately show ?thesis using False I Q by (simp add: scroll_row_step_def wp_simps)
  qed
qed simp

lemma wp_terminal_scroll:
  assumes "length (terminal_buffer s) = 2000"
    and Q: "Q () (s\<lparr>terminal_buffer := map (\<lambda>j. if j < 1920 then terminal_buffer s ! (j + 80)
      else vga_entry 0x20 (terminal_color s)) [0..<2000], terminal_row := 24\<rparr>)"
  shows "wp terminal_scroll Q E s"
proof -
  let ?f = "\<lambda>j. if j < 1920 then terminal_buffer s ! (j + 80) else terminal_buffer s ! j"
  have "(j div 80 = 24) = (1920 \<le> j \<and> j < 2000)" if "j < 2000" for j :: nat
    using that div_less_iff_less_mult [of 80 j 24] div_less_iff_less_mult [of 80 j 25] by auto
  then have eq: "with_cells s (\<lambda>j. if j div 80 = 24 then vga_entry 0x20 (terminal_color s) else ?f j) =
      with_cells s (\<lambda>j. if j < 1920 then terminal_buffer s ! (j + 80) else vga_entry 0x20 (terminal_color s))"
    by (intro with_cells_cong) auto
  have "wp (loop scroll_row_step 0) (\<lambda>_. wp (loop (blank_cell_step 24) 0)
      (\<lambda>_. wp (modify (\<lambda>s. s\<lparr>terminal_row := 24\<rparr>)) Q E) E) E (with_cells s ((!) (terminal_buffer s)))"
    by (rule wp_scroll_rows, rule wp_blank_row) (simp, subst eq, use Q in \<open>simp add: wp_simps\<close>)
  then show ?thesis using assms(1) by (simp add: with_cells_same terminal_scroll_def wp_seq_fun)
qed

subsection \<open>The screen as a window of lines\<close>

text \<open>
  The abstract terminal is a list of lines of cells, the current line last, at most 25 of
  them. A character is added to the current line; a newline, or the 80th character, opens a
  new line and drops the first when there are 25. \<open>painted\<close> relates it to the cells: a cell
  past the end of its line is a space, in whatever colour: text written in another colour may
  have left it there. The colours that scrolling and \<open>terminal_backspace\<close> paint with are exact in
  \<open>wp_terminal_scroll\<close> and in \<open>erased\<close>.
\<close>

definition blank :: "u16 \<Rightarrow> bool" where
  "blank e \<longleftrightarrow> (ucast e :: u8) = 0x20"

definition row_of :: "u16 list list \<Rightarrow> nat \<Rightarrow> u16 list" where
  "row_of w y = (if y < length w then w ! y else [])"

definition painted :: "u16 list list \<Rightarrow> u16 list \<Rightarrow> bool" where
  "painted w b \<longleftrightarrow> length b = 2000 \<and> w \<noteq> [] \<and> length w \<le> 25 \<and> (\<forall>l \<in> set w. length l \<le> 80) \<and>
     (\<forall>y < 25. \<forall>x < 80. if x < length (row_of w y) then b ! (y * 80 + x) = row_of w y ! x
        else blank (b ! (y * 80 + x)))"

definition w_newline :: "u16 list list \<Rightarrow> u16 list list" where
  "w_newline w = (if length w = 25 then tl w else w) @ [[]]"

definition w_put :: "u16 \<Rightarrow> u16 list list \<Rightarrow> u16 list list" where
  "w_put e w = (let w' = butlast w @ [last w @ [e]] in
     if length (last w) = 79 then w_newline w' else w')"

definition w_char :: "u8 \<Rightarrow> u8 \<Rightarrow> u16 list list \<Rightarrow> u16 list list" where
  "w_char color c w = (if c = 0x0a then w_newline w else w_put (vga_entry c color) w)"

definition w_back :: "u16 list list \<Rightarrow> u16 list list" where
  "w_back w = butlast w @ [butlast (last w)]"

lemma blank_entry [simp]: "blank (vga_entry 0x20 c)"
proof -
  have "(ucast (vga_entry 0x20 c) :: u8) = ucast (ucast (0x20 :: u8) :: u16)"
    unfolding vga_entry_def by (rule bit_word_eqI) (auto simp: bit_simps)
  then show ?thesis by (simp add: blank_def)
qed

lemma paintedD:
  assumes "painted w b"
  shows "length b = 2000" "w \<noteq> []" "length w \<le> 25" "l \<in> set w \<Longrightarrow> length l \<le> 80"
    "y < 25 \<Longrightarrow> x < length (row_of w y) \<Longrightarrow> b ! (y * 80 + x) = row_of w y ! x"
    "y < 25 \<Longrightarrow> x < 80 \<Longrightarrow> \<not> x < length (row_of w y) \<Longrightarrow> blank (b ! (y * 80 + x))"
proof -
  have "length (row_of w y) \<le> 80" using assms by (auto simp: painted_def row_of_def)
  then show "y < 25 \<Longrightarrow> x < length (row_of w y) \<Longrightarrow> b ! (y * 80 + x) = row_of w y ! x"
    "y < 25 \<Longrightarrow> x < 80 \<Longrightarrow> \<not> x < length (row_of w y) \<Longrightarrow> blank (b ! (y * 80 + x))"
    using assms by (auto simp: painted_def)
qed (use assms in \<open>auto simp: painted_def\<close>)

lemma w_newline_props: "w \<noteq> [] \<Longrightarrow> length w \<le> 25 \<Longrightarrow>
    w_newline w \<noteq> [] \<and> last (w_newline w) = [] \<and> length (w_newline w) = (if length w = 25 then 25 else length w + 1)"
  by (simp add: w_newline_def)

lemma painted_newline_room:
  assumes "painted w b" and "length w < 25"
  shows "painted (w_newline w) b"
proof -
  have "row_of (w @ [[]]) y = row_of w y" for y
    by (auto simp: row_of_def nth_append)
  then show ?thesis using assms by (auto simp: painted_def w_newline_def)
qed

lemma painted_newline_scroll:
  assumes p: "painted w b" and "length w = 25" and e: "blank e"
  shows "painted (w_newline w) (map (\<lambda>j. if j < 1920 then b ! (j + 80) else e) [0..<2000])"
proof -
  have rows: "row_of (tl w @ [[]]) y = (if y < 24 then row_of w (y + 1) else [])" for y
    using assms(2) by (auto simp: row_of_def nth_append nth_tl)
  have cell: "map (\<lambda>j. if j < 1920 then b ! (j + 80) else e) [0..<2000] ! (y * 80 + x) =
      (if y < 24 then b ! ((y + 1) * 80 + x) else e)" if "y < 25" "x < 80" for x y
  proof -
    have "y * 80 + x < 1920 \<longleftrightarrow> y < 24" using that(2) by linarith
    moreover have "y * 80 + x < 2000" using that by linarith
    ultimately show ?thesis by (simp add: algebra_simps)
  qed
  show ?thesis
    unfolding painted_def
  proof (intro conjI allI impI)
    fix y x :: nat assume "y < 25" "x < 80"
    then show "if x < length (row_of (w_newline w) y)
      then map (\<lambda>j. if j < 1920 then b ! (j + 80) else e) [0..<2000] ! (y * 80 + x) = row_of (w_newline w) y ! x
      else blank (map (\<lambda>j. if j < 1920 then b ! (j + 80) else e) [0..<2000] ! (y * 80 + x))"
      using paintedD(5,6) [OF p, of "y + 1" x] e assms(2) by (simp only: cell) (simp add: w_newline_def rows)
  qed (use assms paintedD(4) [OF p] in \<open>auto simp: w_newline_def dest: list.set_sel(2) [rotated]\<close>)
qed

text \<open>Writing one cell at the end of the current line.\<close>

lemma row_of_butlast: "w \<noteq> [] \<Longrightarrow> row_of (butlast w @ [l]) y = (if y = length w - 1 then l else row_of w y)"
  by (auto simp: row_of_def nth_append nth_butlast)

lemma cell_inj: "x < 80 \<Longrightarrow> x' < 80 \<Longrightarrow> (y * 80 + x = y' * 80 + x') = (y = y' \<and> x = (x' :: nat))"
proof
  assume "x < 80" "x' < 80" and eq: "y * 80 + x = y' * 80 + x'"
  then have "(y * 80 + x) div 80 = y" "(y' * 80 + x') div 80 = y'" by simp_all
  then have "y = y'" using eq by simp
  then show "y = y' \<and> x = x'" using eq by simp
qed simp

lemma painted_store:
  assumes p: "painted w b" and x: "x < 80"
    and l: "l = take x (last w) @ (if e' then [e] else [])" "x \<le> length (last w)" "length (last w) \<le> Suc x"
    and e: "e' \<or> blank e" "length (last w) = Suc x \<Longrightarrow> \<not> e'"
  shows "painted (butlast w @ [l]) (b[(length w - 1) * 80 + x := e])"
proof -
  let ?r = "length w - 1"
  note w = paintedD(2,3) [OF p]
  have r: "?r < 25" "row_of w ?r = last w" using w by (auto simp: row_of_def last_conv_nth)
  have len: "length l \<le> Suc x" using l x by simp
  show ?thesis
    unfolding painted_def
  proof (intro conjI allI impI)
    fix y x' :: nat assume y: "y < 25" and x': "x' < 80"
    have i: "(?r * 80 + x = y * 80 + x') = (?r = y \<and> x = x')" using cell_inj x x' by metis
    have "?r * 80 + x < length b" using r(1) x paintedD(1) [OF p] by linarith
    then show "if x' < length (row_of (butlast w @ [l]) y)
        then b[?r * 80 + x := e] ! (y * 80 + x') = row_of (butlast w @ [l]) y ! x'
        else blank (b[?r * 80 + x := e] ! (y * 80 + x'))"
      using paintedD(5,6) [OF p y, of x'] r x x' l e i len
      by (cases "y = ?r") (auto simp: row_of_butlast w nth_list_update nth_append)
  qed (use w l x paintedD(1,4) [OF p] in \<open>auto dest: in_set_butlastD\<close>)
qed

subsection \<open>The hardware cursor\<close>

text \<open>The registers of the CRT controller after a history: the index register at port 0x3d4
  selects the register that a write to port 0x3d5 sets.\<close>

fun crtc_index :: "history \<Rightarrow> u8" where
  "crtc_index (Out8 p v # h) = (if p = 0x3d4 then v else crtc_index h)"
| "crtc_index (_ # h) = crtc_index h"
| "crtc_index [] = 0"

fun crtc_reg :: "u8 \<Rightarrow> history \<Rightarrow> u8" where
  "crtc_reg r (Out8 p v # h) = (if p = 0x3d5 \<and> crtc_index h = r then v else crtc_reg r h)"
| "crtc_reg r (_ # h) = crtc_reg r h"
| "crtc_reg r [] = 0"

definition cursor_pos :: "history \<Rightarrow> u16" where
  "cursor_pos h = push_bit 8 (ucast (crtc_reg 0x0e h)) OR ucast (crtc_reg 0x0f h)"

definition cursor_shown :: "'z Tty_scheme \<Rightarrow> bool" where
  "cursor_shown s \<longleftrightarrow> cursor_pos (io_hist s) = ucast (terminal_row s * 80 + terminal_column s)"

lemma bytes_of_pos: "push_bit 8 (ucast (ucast (drop_bit 8 p AND 0xff) :: u8)) OR ucast (ucast (p AND 0xff) :: u8) = (p :: u16)"
proof -
  have mask: "(0xff :: u16) = mask 8" by (simp add: mask_eq_exp_minus_1)
  show ?thesis
  proof (rule bit_word_eqI)
    fix n assume "n < LENGTH(16)"
    then show "bit (push_bit 8 (ucast (ucast (drop_bit 8 p AND 0xff) :: u8)) OR ucast (ucast (p AND 0xff) :: u8) :: u16) n = bit p n"
      unfolding mask by (cases "n < 8") (auto simp: bit_simps)
  qed
qed

lemma wp_show_cursor:
  assumes "\<not> dlab (io_hist s)"
    and Q: "\<And>h. line_sent [] (io_hist s) h \<Longrightarrow> cursor_shown (s\<lparr>io_hist := h\<rparr>) \<Longrightarrow> Q () (s\<lparr>io_hist := h\<rparr>)"
  shows "wp show_cursor Q E s"
proof -
  let ?p = "ucast (terminal_row s * 80 + terminal_column s) :: u16"
  let ?h = "Out8 0x3d5 (ucast (drop_bit 8 ?p AND 0xff)) # Out8 0x3d4 0x0e # Out8 0x3d5 (ucast (?p AND 0xff)) #
      Out8 0x3d4 0x0f # io_hist s"
  have "line_sent [] (io_hist s) ?h" using assms(1) by (simp add: line_sent_def)
  moreover have "crtc_reg 0x0e ?h = ucast (drop_bit 8 ?p AND 0xff)" "crtc_reg 0x0f ?h = ucast (?p AND 0xff)" by simp_all
  then have "cursor_pos ?h = ?p" using bytes_of_pos [of ?p] by (simp only: cursor_pos_def)
  then have "cursor_shown (s\<lparr>io_hist := ?h\<rparr>)" by (simp add: cursor_shown_def del: crtc_reg.simps)
  ultimately have "Q () (s\<lparr>io_hist := ?h\<rparr>)" by (rule Q)
  then show ?thesis by (simp add: show_cursor_def update_cursor_def wp_simps Let_def)
qed

lemma polled_cursor: "polled p h h' \<Longrightarrow> cursor_pos h' = cursor_pos h"
proof -
  assume "polled p h h'"
  then have "crtc_index h' = crtc_index h \<and> (\<forall>r. crtc_reg r h' = crtc_reg r h)"
    by (rule polled_induct) simp_all
  then show ?thesis by (simp add: cursor_pos_def)
qed

subsection \<open>The operations on the window\<close>

definition shown :: "u16 list list \<Rightarrow> 'z Tty_scheme \<Rightarrow> bool" where
  "shown w s \<longleftrightarrow> painted w (terminal_buffer s) \<and> length (last w) < 80 \<and>
     terminal_row s = of_nat (length w - 1) \<and> terminal_column s = of_nat (length (last w))"

lemma of_nat_25: "n < 26 \<Longrightarrow> (of_nat n = (25 :: u32)) = (n = 25)"
proof -
  assume "n < 26"
  then show ?thesis by (simp add: word_unat_eq_iff unat_of_nat)
qed

lemma wp_next_row:
  assumes p: "painted w (terminal_buffer s)" and r: "terminal_row s = of_nat (length w - 1)"
    and Q: "\<And>b r. painted (w_newline w) b \<Longrightarrow> r = of_nat (length (w_newline w) - 1) \<Longrightarrow>
      Q () (s\<lparr>terminal_buffer := b, terminal_row := r\<rparr>)"
  shows "wp next_row Q E s"
proof -
  note w = paintedD(1,2,3) [OF p]
  then have row: "terminal_row s + 1 = of_nat (length w)" using r by (simp add: of_nat_diff Suc_leI)
  show ?thesis
  proof (cases "length w = 25")
    case True
    let ?b = "map (\<lambda>j. if j < 1920 then terminal_buffer s ! (j + 80) else vga_entry 0x20 (terminal_color s)) [0..<2000]"
    have "Q () (s\<lparr>terminal_buffer := ?b, terminal_row := 24\<rparr>)"
      using painted_newline_scroll [OF p True blank_entry] True by (intro Q) (simp_all add: w_newline_def)
    then have "Q () (s\<lparr>terminal_row := 25, terminal_buffer := ?b, terminal_row := 24\<rparr>)" by simp
    then have "wp terminal_scroll Q E (s\<lparr>terminal_row := 25\<rparr>)"
      by (intro wp_terminal_scroll) (use w in \<open>simp_all cong: if_cong\<close>)
    then show ?thesis using row True by (simp add: next_row_def wp_simps)
  next
    case False
    have "Q () (s\<lparr>terminal_buffer := terminal_buffer s, terminal_row := of_nat (length w)\<rparr>)"
      using painted_newline_room [OF p] w False by (intro Q) (simp_all add: w_newline_def)
    moreover have "(of_nat (length w) :: u32) \<noteq> 25" using of_nat_25 [of "length w"] False w by simp
    ultimately show ?thesis using row by (simp add: next_row_def wp_simps)
  qed
qed

text \<open>A state with the terminal's part replaced; every update of that part is one of these.\<close>

definition tty_at :: "'z Tty_scheme \<Rightarrow> history \<Rightarrow> u16 list \<Rightarrow> u32 \<Rightarrow> u32 \<Rightarrow> 'z Tty_scheme" where
  "tty_at s h b r c = s\<lparr>io_hist := h, terminal_buffer := b, terminal_row := r, terminal_column := c\<rparr>"

lemma tty_at_update [simp]:
  "(tty_at s h b r c)\<lparr>io_hist := h'\<rparr> = tty_at s h' b r c"
  "(tty_at s h b r c)\<lparr>terminal_buffer := b'\<rparr> = tty_at s h b' r c"
  "(tty_at s h b r c)\<lparr>terminal_row := r'\<rparr> = tty_at s h b r' c"
  "(tty_at s h b r c)\<lparr>terminal_column := c'\<rparr> = tty_at s h b r c'"
  "tty_at (tty_at s h b r c) h' b' r' c' = tty_at s h' b' r' c'"
  "tty_at (s\<lparr>terminal_column := x\<rparr>) h b r c = tty_at s h b r c"
  "io_hist (tty_at s h b r c) = h" "terminal_buffer (tty_at s h b r c) = b"
  "terminal_row (tty_at s h b r c) = r" "terminal_column (tty_at s h b r c) = c"
  "terminal_color (tty_at s h b r c) = terminal_color s"
  by (simp_all add: tty_at_def)

lemma tty_at_same: "s = tty_at s (io_hist s) (terminal_buffer s) (terminal_row s) (terminal_column s)"
  by (simp add: tty_at_def)

text \<open>\<open>wrote cs w s s'\<close>: from the state \<open>s\<close> that shows \<open>w\<close> the characters \<open>cs\<close> have been
  written: they are on the screen and on the serial line, and only the terminal has changed.\<close>

definition wrote :: "bytes \<Rightarrow> u16 list list \<Rightarrow> 'z Tty_scheme \<Rightarrow> 'z Tty_scheme \<Rightarrow> bool" where
  "wrote cs w s s' \<longleftrightarrow>
     (\<exists>h b r c. s' = tty_at s h b r c) \<and>
     shown (fold (w_char (terminal_color s)) cs w) s' \<and> line_sent cs (io_hist s) (io_hist s') \<and>
     (cs \<noteq> [] \<or> cursor_shown s \<longrightarrow> cursor_shown s')"

lemma wrote_trans:
  assumes "wrote cs w s s1" and "wrote ds (fold (w_char (terminal_color s)) cs w) s1 s2"
  shows "wrote (cs @ ds) w s s2"
proof -
  obtain h b r c where s1: "s1 = tty_at s h b r c" using assms(1) by (auto simp: wrote_def)
  obtain h' b' r' c' where "s2 = tty_at s1 h' b' r' c'" using assms(2) by (auto simp: wrote_def)
  then have "s2 = tty_at s h' b' r' c'" using s1 by simp
  moreover have "terminal_color s1 = terminal_color s" using s1 by simp
  moreover have "cs @ ds \<noteq> [] \<or> cursor_shown s \<longrightarrow> cursor_shown s2"
    using assms by (auto simp: wrote_def)
  ultimately show ?thesis
    using assms line_sent_trans unfolding wrote_def by fastforce
qed


lemma w_char_nonempty: "w \<noteq> [] \<Longrightarrow> w_char color c w \<noteq> []"
  by (simp add: w_char_def w_put_def w_newline_def Let_def)

lemma shownD:
  assumes "shown w s"
  shows "painted w (terminal_buffer s)" "w \<noteq> []" "length (last w) < 80" "length w \<le> 25"
    "terminal_row s = of_nat (length w - 1)" "terminal_column s = of_nat (length (last w))"
  using assms paintedD(2,3) by (auto simp: shown_def)

lemma shown_index:
  assumes "shown w s" and "x < 80"
  shows "unat (terminal_row s * 80 + of_nat x) = (length w - 1) * 80 + x"
proof -
  note w = shownD(2,4) [OF assms(1)]
  have eq: "terminal_row s * 80 + of_nat x = of_nat ((length w - 1) * 80 + x)"
    using shownD(5) [OF assms(1)] by simp
  have "(length w - 1) * 80 + x < 2000" using w(2) assms(2) by linarith
  then show ?thesis unfolding eq by (simp add: unat_of_nat del: of_nat_add of_nat_mult)
qed

text \<open>The state without its history: what the serial line does leaves it alone.\<close>

lemma wp_terminal_putentryat:
  assumes "uart_ok dev" "\<not> dlab (io_hist s)" and "shown w (s\<lparr>terminal_column := k\<rparr>)" "x < 80"
    and Q: "\<And>h. line_sent [c] (io_hist s) h \<Longrightarrow>
      Q () (tty_at s h ((terminal_buffer s)[(length w - 1) * 80 + x := vga_entry c color]) (terminal_row s) (terminal_column s))"
  shows "wp (terminal_putentryat dev c color (of_nat x) (terminal_row s)) Q E s"
proof -
  let ?b = "(terminal_buffer s)[(length w - 1) * 80 + x := vga_entry c color]"
  have "(length w - 1) * 80 + x < 2000" using shownD(4) [OF assms(3)] assms(4) by linarith
  then have "(length w - 1) * 80 + x < length (terminal_buffer s)"
    using paintedD(1) [OF shownD(1) [OF assms(3)]] by simp
  moreover have "s\<lparr>terminal_buffer := ?b\<rparr> = tty_at s (io_hist s) ?b (terminal_row s) (terminal_column s)"
    by (simp add: tty_at_def)
  moreover have "wp (serial_putchar dev c) Q E (tty_at s (io_hist s) ?b (terminal_row s) (terminal_column s))"
    by (rule wp_serial_putchar_sent [OF assms(1)]) (use assms(2) Q in simp_all)
  ultimately show ?thesis
    using shown_index [OF assms(3,4)] by (simp add: terminal_putentryat_def wp_simps)
qed

lemma cursor_after_putchar:
  assumes "polled p h h'" shows "cursor_pos (Out8 SERIAL_COM1 c # h') = cursor_pos h"
  using polled_cursor [OF assms] by (simp add: cursor_pos_def)

lemma wp_newline:
  assumes dev: "uart_ok dev" "\<not> dlab (io_hist s)" and w: "shown w s"
    and Q: "\<And>s'. wrote [0x0a] w s s' \<Longrightarrow> Q () s'"
  shows "wp (terminal_putchar dev 0x0a) Q E s"
proof -
  let ?c = "s\<lparr>terminal_column := 0\<rparr>"
  have "wp next_row (\<lambda>_. wp (seq show_cursor (\<lambda>_. serial_putchar dev 0x0a)) Q E) E ?c"
  proof (rule wp_next_row [of w], unfold wp_seq)
    fix b and r :: u32 assume b: "painted (w_newline w) b" "r = of_nat (length (w_newline w) - 1)"
    let ?s = "tty_at s (io_hist s) b r 0"
    have "wp show_cursor (\<lambda>_. wp (serial_putchar dev 0x0a) Q E) E ?s"
    proof (rule wp_show_cursor)
      fix h assume h: "line_sent [] (io_hist ?s) h" and cur: "cursor_shown (?s\<lparr>io_hist := h\<rparr>)"
      show "wp (serial_putchar dev 0x0a) Q E (?s\<lparr>io_hist := h\<rparr>)"
      proof (rule wp_serial_putchar [OF dev(1)], rule Q)
        fix h' assume h': "polled (SERIAL_COM1 + 5) (io_hist (?s\<lparr>io_hist := h\<rparr>)) h'" "showed_empty h'"
        let ?h = "Out8 SERIAL_COM1 0x0a # h'"
        have "line_sent [0x0a] (io_hist s) ?h"
          using h polled_registers [OF h'(1)] polled_ide [OF h'(1)] h'(2) by (simp add: line_sent_def)
        moreover have "cursor_shown (tty_at s ?h b r 0)"
          using cur cursor_after_putchar [of "SERIAL_COM1 + 5" h h'] h' by (simp add: cursor_shown_def)
        ultimately show "wrote [0x0a] w s (?s\<lparr>io_hist := h, io_hist := ?h\<rparr>)"
          using b unfolding wrote_def by (auto simp: w_char_def shown_def w_newline_def)
      qed
    qed (use dev(2) in simp)
    moreover have "?c\<lparr>terminal_buffer := b, terminal_row := r\<rparr> = ?s" by (simp add: tty_at_def)
    ultimately show "wp show_cursor (\<lambda>_. wp (serial_putchar dev 0x0a) Q E) E (?c\<lparr>terminal_buffer := b, terminal_row := r\<rparr>)"
      by simp
  qed (use shownD(1,5) [OF w] in simp_all)
  then show ?thesis by (simp add: terminal_putchar_def wp_seq_fun wp_modify)
qed


text \<open>A character that neither is a newline nor fills the line changes one cell.\<close>

definition one_cell :: "u8 \<Rightarrow> u16 list list \<Rightarrow> 'z Tty_scheme \<Rightarrow> 'z Tty_scheme \<Rightarrow> bool" where
  "one_cell c w s s' \<longleftrightarrow> c = 0x0a \<or> length (last w) = 79 \<or> terminal_buffer s' =
     (terminal_buffer s)[(length w - 1) * 80 + length (last w) := vga_entry c (terminal_color s)]"

lemma wp_terminal_putchar:
  assumes dev: "uart_ok dev" "\<not> dlab (io_hist s)" and w: "shown w s"
    and Q: "\<And>s'. wrote [c] w s s' \<Longrightarrow> one_cell c w s s' \<Longrightarrow> Q () s'"
  shows "wp (terminal_putchar dev c) Q E s"
proof (cases "c = 0x0a")
  case True
  then show ?thesis using wp_newline [OF dev w] Q by (simp add: one_cell_def)
next
  case False
  let ?x = "length (last w)" and ?e = "vga_entry c (terminal_color s)"
  let ?w = "butlast w @ [last w @ [?e]]"
  let ?b = "(terminal_buffer s)[(length w - 1) * 80 + ?x := ?e]"
  note sh = shownD [OF w]
  have p: "painted ?w ?b"
    using painted_store [OF sh(1,3), where l = "last w @ [?e]" and e' = True and e = ?e] by simp
  have rest: "wp (if c' = 80 then seq (modify (\<lambda>s. s\<lparr>terminal_column := 0\<rparr>)) (\<lambda>_. next_row) else ret ())
      (\<lambda>_. wp show_cursor Q E) E (tty_at s h ?b (terminal_row s) c')"
    if h: "line_sent [c] (io_hist s) h" and c': "c' = of_nat (Suc ?x)" for h c'
  proof -
    have d: "\<not> dlab h" using h by (simp add: line_sent_def)
    have fin: "wp show_cursor Q E (tty_at s h b r x)"
      if "shown (w_char (terminal_color s) c w) (tty_at s h b r x)" and b: "?x = 79 \<or> b = ?b" for b r x
    proof (rule wp_show_cursor)
      fix h' assume h': "line_sent [] (io_hist (tty_at s h b r x)) h'"
        and "cursor_shown ((tty_at s h b r x)\<lparr>io_hist := h'\<rparr>)"
      then show "Q () ((tty_at s h b r x)\<lparr>io_hist := h'\<rparr>)"
        using that line_sent_trans [OF h, of "[]" h'] b by (intro Q) (auto simp: wrote_def shown_def one_cell_def)
    qed (use d in simp)
    show ?thesis
    proof (cases "?x = 79")
      case True
      have wc: "w_char (terminal_color s) c w = w_newline ?w" using True False by (simp add: w_char_def w_put_def)
      have "wp next_row (\<lambda>_. wp show_cursor Q E) E (tty_at s h ?b (terminal_row s) 0)"
      proof (rule wp_next_row [of ?w])
        fix b and r :: u32 assume "painted (w_newline ?w) b" "r = of_nat (length (w_newline ?w) - 1)"
        then have "shown (w_char (terminal_color s) c w) (tty_at s h b r 0)"
          unfolding wc by (simp add: shown_def) (simp add: w_newline_def)
        then show "wp show_cursor Q E ((tty_at s h ?b (terminal_row s) 0)\<lparr>terminal_buffer := b, terminal_row := r\<rparr>)"
          by (simp add: fin True)
      qed (use p sh(2,5) in simp_all)
      then show ?thesis using True c' by (simp add: wp_simps)
    next
      case x: False
      then have "Suc ?x < 80" using sh(3) by simp
      then have "c' \<noteq> 80" using c' by (simp add: word_unat_eq_iff unat_of_nat del: of_nat_Suc)
      moreover have "wp show_cursor Q E (tty_at s h ?b (terminal_row s) c')"
        using p sh(2,5) False x c' \<open>Suc ?x < 80\<close> by (intro fin) (simp_all add: shown_def w_char_def w_put_def)
      ultimately show ?thesis by (simp add: wp_simps)
    qed
  qed
  have "shown w (s\<lparr>terminal_column := terminal_column s\<rparr>)" using w by simp
  then have "wp (terminal_putentryat dev c (terminal_color s) (of_nat ?x) (terminal_row s))
      (\<lambda>_. wp (seq (modify (\<lambda>s. s\<lparr>terminal_column := terminal_column s + 1\<rparr>)) (\<lambda>_.
        seq (reads terminal_column) (\<lambda>x.
        seq (if x = 80 then seq (modify (\<lambda>s. s\<lparr>terminal_column := 0\<rparr>)) (\<lambda>_. next_row) else ret ()) (\<lambda>_.
        show_cursor)))) Q E) E s"
  proof (rule wp_terminal_putentryat [OF dev _ sh(3)])
    fix h assume h: "line_sent [c] (io_hist s) h"
    have "terminal_column s + 1 = of_nat (Suc ?x)" using sh(6) by simp
    from rest [OF h this]
    show "wp (seq (modify (\<lambda>s. s\<lparr>terminal_column := terminal_column s + 1\<rparr>)) (\<lambda>_.
        seq (reads terminal_column) (\<lambda>x.
        seq (if x = 80 then seq (modify (\<lambda>s. s\<lparr>terminal_column := 0\<rparr>)) (\<lambda>_. next_row) else ret ()) (\<lambda>_.
        show_cursor)))) Q E (tty_at s h ?b (terminal_row s) (terminal_column s))"
      by (simp only: wp_seq_fun wp_modify wp_reads tty_at_update)
  qed
  then show ?thesis using False sh(6) by (simp add: terminal_putchar_def wp_seq_fun wp_reads)
qed


lemma wrote_refl: "shown w s \<Longrightarrow> \<not> dlab (io_hist s) \<Longrightarrow> wrote [] w s s"
  unfolding wrote_def using tty_at_same [of s] by (auto simp: line_sent_refl)

lemma wroteD:
  assumes "wrote cs w s s'"
  shows "shown (fold (w_char (terminal_color s)) cs w) s'" "\<not> dlab (io_hist s')"
    "terminal_color s' = terminal_color s" "transmitted (io_hist s') = transmitted (io_hist s) @ cs"
  using assms by (auto simp: wrote_def line_sent_def)

lemma wp_terminal_write:
  assumes dev: "uart_ok dev" "\<not> dlab (io_hist s)" and w: "shown w s" and n: "unat n \<le> length data"
    and Q: "\<And>s'. wrote (take (unat n) data) w s s' \<Longrightarrow> Q () s'"
  shows "wp (terminal_write dev data n) Q E s"
proof -
  have step: "terminal_write_step dev data n = (\<lambda>i. if i < n then seq (if unat i < length data
      then terminal_putchar dev (data ! unat i) else undef) (\<lambda>_. ret (Inl (i + 1))) else ret (Inr ()))"
    by (rule ext) (auto simp: terminal_write_step_def fun_eq_iff seq_def undef_def)
  show ?thesis
    unfolding terminal_write_def step
  proof (rule wp_for [where I = "\<lambda>k. wrote (take k data) w s"])
    fix i t assume i: "i < n" and I: "wrote (take (unat i) data) w s t"
    have bound: "unat i < length data" using i n by (simp add: word_less_nat_alt)
    have "wp (terminal_putchar dev (data ! unat i)) (\<lambda>_. wrote (take (Suc (unat i)) data) w s) E t"
      using wp_terminal_putchar [OF dev(1) wroteD(2,1) [OF I]] wrote_trans [OF I]
      by (simp add: take_Suc_conv_app_nth bound)
    then show "wp (if unat i < length data then terminal_putchar dev (data ! unat i) else undef)
        (\<lambda>_. wrote (take (Suc (unat i)) data) w s) E t"
      using bound by simp
  qed (use wrote_refl [OF w dev(2)] Q in simp_all)
qed

lemma wp_terminal_writestring:
  assumes "uart_ok dev" "\<not> dlab (io_hist s)" "shown w s" "length cs < 2 ^ 32"
    and Q: "\<And>s'. wrote cs w s s' \<Longrightarrow> Q () s'"
  shows "wp (terminal_writestring dev cs) Q E s"
  unfolding terminal_writestring_def
  by (rule wp_terminal_write [OF assms(1-3)]) (use assms(4) Q in \<open>simp_all add: unat_of_nat\<close>)

lemma wp_terminal_writestring_color:
  assumes "uart_ok dev" "\<not> dlab (io_hist s)" "shown w s" "length cs < 2 ^ 32"
    and Q: "\<And>s'. wrote cs w (s\<lparr>terminal_color := vga_entry_color fg bg\<rparr>) s' \<Longrightarrow>
      Q () (s'\<lparr>terminal_color := terminal_color s\<rparr>)"
  shows "wp (terminal_writestring_color dev cs fg bg) Q E s"
  unfolding terminal_writestring_color_def wp_seq_fun wp_reads wp_modify
  by (rule wp_terminal_writestring [OF assms(1), where w = w]) (use assms in \<open>simp_all add: shown_def\<close>)

lemma wp_terminal_putchar_color:
  assumes "uart_ok dev" "\<not> dlab (io_hist s)" "shown w s"
    and Q: "\<And>s'. wrote [c] w (s\<lparr>terminal_color := vga_entry_color fg bg\<rparr>) s' \<Longrightarrow>
      Q () (s'\<lparr>terminal_color := terminal_color s\<rparr>)"
  shows "wp (terminal_putchar_color dev c fg bg) Q E s"
  unfolding terminal_putchar_color_def wp_seq_fun wp_reads wp_modify
  by (rule wp_terminal_putchar [OF assms(1), where w = w]) (use assms in \<open>simp_all add: shown_def\<close>)

lemma wp_blank_rows:
  assumes Q: "Q () (with_cells s (\<lambda>_. vga_entry 0x20 (terminal_color s)))"
  shows "wp (loop blank_row_step 0) Q E (with_cells s f)"
proof (rule wp_loop [where m = "\<lambda>y _. 25 - y" and
    I = "\<lambda>y t. y \<le> 25 \<and> t = with_cells s (\<lambda>j. if j div 80 < y then vga_entry 0x20 (terminal_color s) else f j)"])
  let ?b = "vga_entry 0x20 (terminal_color s)"
  fix y t assume I: "y \<le> 25 \<and> t = with_cells s (\<lambda>j. if j div 80 < y then ?b else f j)"
  show "wp (blank_row_step y) (\<lambda>r s'. case r of
      Inl y' \<Rightarrow> (y' \<le> 25 \<and> s' = with_cells s (\<lambda>j. if j div 80 < y' then ?b else f j)) \<and> 25 - y' < 25 - y
    | Inr v \<Rightarrow> Q v s') E t"
  proof (cases "y < 25")
    case True
    have row: "(if j div 80 = y then ?b else if j div 80 < y then ?b else f j) = (if j div 80 < Suc y then ?b else f j)" for j
      by auto
    show ?thesis unfolding blank_row_step_def
      using True I by (simp add: wp_simps) (rule wp_blank_row, simp, simp add: row wp_simps)
  next
    case False
    then have "y = 25" using I by simp
    moreover have "with_cells s (\<lambda>j. if j div 80 < 25 then ?b else f j) = with_cells s (\<lambda>_. ?b)"
      by (rule with_cells_cong) (auto simp: div_less_iff_less_mult)
    ultimately show ?thesis using False I Q by (simp add: blank_row_step_def wp_simps)
  qed
qed simp

lemma painted_blank: "blank e \<Longrightarrow> painted [[]] (map (\<lambda>_. e) [0..<2000])"
proof -
  assume "blank e"
  moreover have "y * 80 + x < 2000" if "y < 25" "x < 80" for x y :: nat using that by linarith
  ultimately show ?thesis by (simp add: painted_def row_of_def)
qed

lemma wp_terminal_clear:
  assumes "length (terminal_buffer s) = 2000" "\<not> dlab (io_hist s)"
    and Q: "\<And>h b. line_sent [] (io_hist s) h \<Longrightarrow> shown [[]] (tty_at s h b 0 0) \<Longrightarrow> cursor_shown (tty_at s h b 0 0) \<Longrightarrow>
      Q () (tty_at s h b 0 0)"
  shows "wp terminal_clear Q E s"
proof -
  let ?b = "map (\<lambda>_. vga_entry 0x20 (terminal_color s)) [0..<2000]"
  let ?s = "tty_at s (io_hist s) (terminal_buffer s) 0 0"
  have "wp (loop blank_row_step 0) (\<lambda>_. wp show_cursor Q E) E (with_cells ?s ((!) (terminal_buffer s)))"
  proof (rule wp_blank_rows)
    have sh: "shown [[]] (tty_at s h ?b 0 0)" for h using painted_blank by (simp add: shown_def)
    have "wp show_cursor Q E (tty_at s (io_hist s) ?b 0 0)"
      by (rule wp_show_cursor) (use assms(2) in \<open>simp_all add: Q sh\<close>)
    then show "wp show_cursor Q E (with_cells ?s (\<lambda>_. vga_entry 0x20 (terminal_color ?s)))" by simp
  qed
  moreover have "with_cells ?s ((!) (terminal_buffer s)) = s\<lparr>terminal_row := 0, terminal_column := 0\<rparr>"
    using with_cells_same [of ?s] assms(1) by (simp add: tty_at_def)
  ultimately show ?thesis
    by (simp add: terminal_clear_def show_cursor_def wp_seq_fun wp_modify)
qed

lemma wp_terminal_initialize:
  assumes "length (terminal_buffer s) = 2000"
    and Q: "\<And>b. shown [[]] (tty_at (s\<lparr>terminal_color := 0x0f\<rparr>) (io_hist s) b 0 0) \<Longrightarrow>
      Q () (tty_at (s\<lparr>terminal_color := 0x0f\<rparr>) (io_hist s) b 0 0)"
  shows "wp terminal_initialize Q E s"
proof -
  let ?b = "map (\<lambda>_. vga_entry 0x20 0x0f) [0..<2000]"
  let ?s = "tty_at (s\<lparr>terminal_color := 0x0f\<rparr>) (io_hist s) (terminal_buffer s) 0 0"
  have "wp (loop blank_row_step 0) Q E (with_cells ?s ((!) (terminal_buffer s)))"
    using Q [of ?b] painted_blank by (intro wp_blank_rows) (simp add: shown_def)
  moreover have "with_cells ?s ((!) (terminal_buffer s)) =
      s\<lparr>terminal_row := 0, terminal_column := 0, terminal_color := 0x0f\<rparr>"
    using with_cells_same [of ?s] assms(1) by (cases s) (simp add: tty_at_def)
  ultimately show ?thesis
    by (simp add: terminal_initialize_def wp_seq_fun wp_modify vga_entry_color_def)
qed

text \<open>One character is taken back: the last cell of the current line becomes a space.\<close>

definition erased :: "u16 list list \<Rightarrow> 'z Tty_scheme \<Rightarrow> 'z Tty_scheme \<Rightarrow> bool" where
  "erased w s s' \<longleftrightarrow> (\<exists>h b r c. s' = tty_at s h b r c) \<and> shown (w_back w) s' \<and>
     line_sent [0x20] (io_hist s) (io_hist s') \<and> cursor_shown s' \<and>
     terminal_buffer s' = (terminal_buffer s)[(length w - 1) * 80 + (length (last w) - 1) := vga_entry 0x20 (terminal_color s)]"

lemma wp_terminal_backspace:
  assumes dev: "uart_ok dev" "\<not> dlab (io_hist s)" and w: "shown w s" and ne: "last w \<noteq> []"
    and Q: "\<And>s'. erased w s s' \<Longrightarrow> Q () s'"
  shows "wp (terminal_backspace dev) Q E s"
proof -
  let ?x = "length (last w) - 1" and ?e = "vga_entry 0x20 (terminal_color s)"
  let ?b = "(terminal_buffer s)[(length w - 1) * 80 + ?x := ?e]"
  let ?s = "s\<lparr>terminal_column := terminal_column s - 1\<rparr>"
  note sh = shownD [OF w]
  have col: "terminal_column s - 1 = of_nat ?x" using sh(6) ne by (simp add: of_nat_diff Suc_leI)
  have p: "painted (w_back w) ?b"
    using painted_store [OF sh(1), where l = "butlast (last w)" and e' = False and e = ?e and x = ?x] sh(3) ne
    by (simp add: w_back_def butlast_conv_take)
  have "?s\<lparr>terminal_column := terminal_column s\<rparr> = s" by simp
  then have "shown w (?s\<lparr>terminal_column := terminal_column s\<rparr>)" using w by simp
  then have "wp (terminal_putentryat dev 0x20 (terminal_color ?s) (of_nat ?x) (terminal_row ?s)) (\<lambda>_. wp show_cursor Q E) E ?s"
  proof (rule wp_terminal_putentryat [OF dev(1), rotated])
    fix h assume h: "line_sent [0x20] (io_hist ?s) h"
    have "wp show_cursor Q E (tty_at s h ?b (terminal_row s) (terminal_column s - 1))"
    proof (rule wp_show_cursor)
      let ?u = "tty_at s h ?b (terminal_row s) (terminal_column s - 1)"
      fix h' assume h': "line_sent [] (io_hist ?u) h'" and "cursor_shown (?u\<lparr>io_hist := h'\<rparr>)"
      then show "Q () (?u\<lparr>io_hist := h'\<rparr>)"
        using line_sent_trans [OF h, of "[]" h'] p col sh
        by (intro Q) (auto simp: erased_def shown_def w_back_def)
    qed (use h in \<open>simp add: line_sent_def\<close>)
    then show "wp show_cursor Q E (tty_at ?s h ((terminal_buffer ?s)[(length w - 1) * 80 + ?x := vga_entry 0x20 (terminal_color ?s)])
        (terminal_row ?s) (terminal_column ?s))" by simp
  qed (use dev(2) sh(3) in simp_all)
  then show ?thesis using col by (simp add: terminal_backspace_def wp_seq_fun wp_reads wp_modify)
qed

subsection \<open>The screen shows the end of all that was written\<close>

text \<open>The lines of the whole text, unbounded, and the last 25 of them.\<close>

definition log_char :: "u8 \<Rightarrow> u8 \<Rightarrow> u16 list list \<Rightarrow> u16 list list" where
  "log_char color c ls =
     (if c = 0x0a then ls @ [[]]
      else let l = last ls @ [vga_entry c color] in butlast ls @ (if length l = 80 then [l, []] else [l]))"

definition view :: "u16 list list \<Rightarrow> u16 list list" where
  "view ls = drop (length ls - 25) ls"

lemma view_snoc: "view (ls @ [l]) = (if length (view ls) = 25 then tl (view ls) else view ls) @ [l]"
proof (cases "25 \<le> length ls")
  case True
  then have "length (ls @ [l]) - 25 = Suc (length ls - 25)" by simp
  then show ?thesis using True by (simp add: view_def drop_Suc tl_drop del: length_append)
qed (auto simp: view_def)

lemma view_last: "ls \<noteq> [] \<Longrightarrow> last (view ls) = last ls" "ls \<noteq> [] \<Longrightarrow> butlast (view ls) @ [l] = view (butlast ls @ [l])"
  by (auto simp: view_def last_drop drop_butlast [symmetric])

lemma view_char: "ls \<noteq> [] \<Longrightarrow> view (log_char color c ls) = w_char color c (view ls)"
proof (cases "c = 0x0a")
  case False
  assume ls: "ls \<noteq> []"
  let ?l = "last ls @ [vga_entry c color]"
  have "view (butlast ls @ [?l, []]) = w_newline (view (butlast ls @ [?l]))"
    using view_snoc [of "butlast ls @ [?l]" "[]"] by (simp add: w_newline_def)
  then show ?thesis using False ls by (simp add: log_char_def w_char_def w_put_def view_last Let_def)
qed (simp add: log_char_def w_char_def w_newline_def view_snoc)

lemma log_char_nonempty [simp]: "log_char color c ls \<noteq> []"
  by (simp add: log_char_def Let_def)

lemma view_log: "ls \<noteq> [] \<Longrightarrow> view (fold (log_char color) cs ls) = fold (w_char color) cs (view ls)"
  by (induction cs arbitrary: ls) (simp_all add: view_char)

text \<open>C34: \<open>terminal_write\<close> terminates. If the screen showed the end of the text written so far,
  as lines of at most 80 cells with the current one last, it does so after the call, with the
  new text in the current colour and the cursor behind it; and the text went out on the serial line.\<close>

theorem terminal_write_refines:
  assumes "uart_ok dev" and "\<not> dlab (io_hist s)" and "ls \<noteq> []" and "shown (view ls) s" and "unat n \<le> length data"
  shows "wp (terminal_write dev data n) (\<lambda>_ s'.
      shown (view (fold (log_char (terminal_color s)) (take (unat n) data) ls)) s' \<and>
      transmitted (io_hist s') = transmitted (io_hist s) @ take (unat n) data \<and>
      (n \<noteq> 0 \<longrightarrow> cursor_shown s')) (\<lambda>_ _. False) s"
  by (rule wp_terminal_write [OF assms(1,2,4,5)])
    (use assms(3,5) in \<open>auto simp: wrote_def view_log line_sent_def word_unat_eq_iff\<close>)

definition tty_sample :: Tty where
  "tty_sample = \<lparr>io_hist = [], terminal_row = 0, terminal_column = 0, terminal_color = 0x0f,
     terminal_buffer = map (\<lambda>_. vga_entry 0x20 0x0f) [0..<2000]\<rparr>"

lemma tty_sample_shown: "shown [[]] tty_sample" "\<not> dlab (io_hist tty_sample)" "terminal_color tty_sample = 0x0f"
  using painted_blank [OF blank_entry, of "0x0f"] by (simp_all add: shown_def tty_sample_def)

lemma terminal_write_refines_witness:
  "wp (terminal_write uart_sample [0x48, 0x69, 0x0a, 0x21] 4) (\<lambda>_ s'.
      shown [[0x0f48, 0x0f69], [0x0f21]] s' \<and> transmitted (io_hist s') = [0x48, 0x69, 0x0a, 0x21]) (\<lambda>_ _. False) tty_sample"
proof -
  have "shown (view [[]]) tty_sample" using tty_sample_shown by (simp add: view_def)
  from terminal_write_refines [OF uart_sample_ok tty_sample_shown(2) _ this, of 4 "[0x48, 0x69, 0x0a, 0x21]"]
  show ?thesis
    by (rule wp_conseq) (simp_all add: view_def log_char_def tty_sample_def vga_entry_def push_bit_eq_mult)
qed

text \<open>C35: where a character other than a newline, written before column 79, is followed by
  \<open>terminal_backspace\<close>, the window, the cursor and the whole state of the terminal are as they
  were, except that the character's one cell is now a space in the current colour; the serial
  line has been sent the character and a space.\<close>

theorem terminal_backspace_undoes:
  assumes "uart_ok dev" and "\<not> dlab (io_hist s)" and "shown w s" and "length (last w) < 79" and "c \<noteq> 0x0a"
  shows "wp (seq (terminal_putchar dev c) (\<lambda>_. terminal_backspace dev)) (\<lambda>_ s'.
      shown w s' \<and> cursor_shown s' \<and> (\<exists>h. line_sent [c, 0x20] (io_hist s) h \<and>
        s' = tty_at s h ((terminal_buffer s)[(length w - 1) * 80 + length (last w) := vga_entry 0x20 (terminal_color s)])
          (terminal_row s) (terminal_column s)))
      (\<lambda>_ _. False) s"
  unfolding wp_seq
proof (rule wp_terminal_putchar [OF assms(1-3)])
  fix s1 assume s1: "wrote [c] w s s1" and cell: "one_cell c w s s1"
  let ?w = "butlast w @ [last w @ [vga_entry c (terminal_color s)]]"
  let ?b = "(terminal_buffer s)[(length w - 1) * 80 + length (last w) := vga_entry 0x20 (terminal_color s)]"
  have sh: "shown ?w s1" using wroteD(1) [OF s1] assms(4,5) by (simp add: w_char_def w_put_def)
  obtain h1 b1 r1 c1 where at1: "s1 = tty_at s h1 b1 r1 c1" using s1 by (auto simp: wrote_def)
  show "wp (terminal_backspace dev) (\<lambda>_ s'. shown w s' \<and> cursor_shown s' \<and> (\<exists>h. line_sent [c, 0x20] (io_hist s) h \<and>
        s' = tty_at s h ?b (terminal_row s) (terminal_column s))) (\<lambda>_ _. False) s1"
  proof (rule wp_terminal_backspace [OF assms(1) wroteD(2) [OF s1] sh])
    fix s' assume e: "erased ?w s1 s'"
    then have w: "shown w s'" "cursor_shown s'"
      using shownD(2) [OF assms(3)] by (simp_all add: erased_def w_back_def)
    obtain h b r k where at: "s' = tty_at s1 h b r k" using e by (auto simp: erased_def)
    have "b = ?b"
      using e at at1 cell assms(4,5) shownD(2) [OF assms(3)] by (simp add: erased_def one_cell_def)
    moreover have "r = terminal_row s" "k = terminal_column s"
      using w(1) assms(3) by (simp_all add: at shown_def)
    moreover have "line_sent [c, 0x20] (io_hist s) h"
      using line_sent_trans [of "[c]" "io_hist s" "io_hist s1" "[0x20]" h] s1 e
      by (simp add: wrote_def erased_def at)
    ultimately show "shown w s' \<and> cursor_shown s' \<and> (\<exists>h. line_sent [c, 0x20] (io_hist s) h \<and>
        s' = tty_at s h ?b (terminal_row s) (terminal_column s))"
      using w at at1 by auto
  qed simp
qed

lemma terminal_backspace_undoes_witness:
  "wp (seq (terminal_putchar uart_sample 0x41) (\<lambda>_. terminal_backspace uart_sample)) (\<lambda>_ s'. shown [[]] s' \<and>
      terminal_buffer s' = (terminal_buffer tty_sample)[0 := 0x0f20]) (\<lambda>_ _. False) tty_sample"
  by (rule wp_conseq [OF terminal_backspace_undoes [OF uart_sample_ok tty_sample_shown(2,1)]])
    (auto simp: tty_sample_def vga_entry_def push_bit_eq_mult)

text \<open>At the top left corner \<open>terminal_backspace\<close> stores outside the screen: the column wraps.\<close>

lemma terminal_backspace_home:
  "length (terminal_buffer s) = 2000 \<Longrightarrow> terminal_row s = 0 \<Longrightarrow> terminal_column s = 0 \<Longrightarrow>
   terminal_backspace dev s = None"
  by (simp add: terminal_backspace_def seq_def modify_def reads_def terminal_putentryat_def store_cell_def
      unsigned_minus_1_eq_mask mask_eq_exp_minus_1)

end
