(* ===== verification/Printf.thy ===== *)
theory Printf
  imports Tty
begin

section \<open>Formatted output (libc/stdio)\<close>

text \<open>
  A C string is the list of its characters before the terminating zero, so the character a
  pointer into the format points at is the head of the rest of the format, and the zero is the
  empty list. The variable arguments are a list; taking an argument that is not there, or of
  another kind, is \<open>undef\<close>, as are a signed overflow and a store past a local buffer.
\<close>

subsection \<open>The code\<close>

datatype va_arg = VInt u32 | VStr "bytes option"

abbreviation (input) INT_MAX :: int where "INT_MAX \<equiv> 0x7fffffff"
abbreviation (input) INT_MIN :: int where "INT_MIN \<equiv> - 0x80000000"
abbreviation (input) EOF :: int where "EOF \<equiv> - 1"

definition putchar :: "device \<Rightarrow> int \<Rightarrow> ('z Tty_scheme, int) cm" where
  "putchar dev ic = seq (terminal_write dev [word_of_int ic] 1) (\<lambda>_. ret ic)"

definition print_step :: "device \<Rightarrow> bytes \<Rightarrow> nat \<Rightarrow> nat \<Rightarrow> ('z Tty_scheme, nat + bool) cm" where
  "print_step dev data len i =
     (if i < len then
        if i < length data then
          seq (putchar dev (uint (data ! i))) (\<lambda>r.
          if r = EOF then ret (Inr False) else ret (Inl (i + 1)))
        else undef
      else ret (Inr True))"

definition print :: "device \<Rightarrow> bytes \<Rightarrow> nat \<Rightarrow> ('z Tty_scheme, bool) cm" where
  "print dev data len = loop (print_step dev data len) 0"

definition va_int :: "va_arg list \<Rightarrow> (u32 \<times> va_arg list) option" where
  "va_int args = (case args of VInt v # rest \<Rightarrow> Some (v, rest) | _ \<Rightarrow> None)"

definition va_str :: "va_arg list \<Rightarrow> (bytes option \<times> va_arg list) option" where
  "va_str args = (case args of VStr v # rest \<Rightarrow> Some (v, rest) | _ \<Rightarrow> None)"

definition is_digit :: "u8 \<Rightarrow> bool" where
  "is_digit c \<longleftrightarrow> 0x30 \<le> c \<and> c \<le> 0x39"

fun read_precision :: "int \<Rightarrow> bytes \<Rightarrow> (int \<times> bytes) option" where
  "read_precision acc [] = Some (acc, [])"
| "read_precision acc (c # f) =
     (if is_digit c then
        let p = acc * 10 + (uint c - 0x30) in
        if p \<le> INT_MAX then read_precision p f else None
      else Some (acc, c # f))"

text \<open>The optional precision: it, the rest of the format, the rest of the arguments.\<close>

definition precision :: "bytes \<Rightarrow> va_arg list \<Rightarrow> (int \<times> bytes \<times> va_arg list) option" where
  "precision f args = (case f of [] \<Rightarrow> Some (- 1, f, args)
     | c # g \<Rightarrow>
         if c = 0x2e then
           (if g \<noteq> [] \<and> hd g = 0x2a then
              (case va_int args of None \<Rightarrow> None
               | Some (v, rest) \<Rightarrow> Some (if 0 \<le> sint v then sint v else - 1, tl g, rest))
            else
              (case read_precision 0 g of None \<Rightarrow> None
               | Some (p, h) \<Rightarrow> Some (p, h, args)))
         else Some (- 1, f, args))"

text \<open>\<open>while (num > 0) { buf[i++] = digit(num % base); num /= base; }\<close> for a buffer of
  \<open>cap\<close> bytes, with the case of zero before it.\<close>

definition hex_digits :: bytes where
  "hex_digits = [0x30, 0x31, 0x32, 0x33, 0x34, 0x35, 0x36, 0x37, 0x38, 0x39, 0x61, 0x62, 0x63, 0x64, 0x65, 0x66]"

definition dec_digit :: "nat \<Rightarrow> u8" where
  "dec_digit d = 0x30 + of_nat d"

definition hex_digit :: "nat \<Rightarrow> u8" where
  "hex_digit d = hex_digits ! d"

definition digit_step :: "(nat \<Rightarrow> u8) \<Rightarrow> nat \<Rightarrow> nat \<Rightarrow> nat \<times> bytes \<Rightarrow> ('s, nat \<times> bytes + bytes) cm" where
  "digit_step digit base cap = (\<lambda>(num, buf).
     if 0 < num then
       if length buf < cap then ret (Inl (num div base, buf @ [digit (num mod base)])) else undef
     else ret (Inr buf))"

definition digits :: "(nat \<Rightarrow> u8) \<Rightarrow> nat \<Rightarrow> nat \<Rightarrow> nat \<Rightarrow> ('s, bytes) cm" where
  "digits digit base cap num =
     (if num = 0 then ret [0x30] else loop (digit_step digit base cap) (num, []))"

text \<open>The loop that prints the buffer backwards; \<open>None\<close> is the early return of -1.\<close>

definition print_back_step :: "device \<Rightarrow> bytes \<Rightarrow> nat \<times> int \<Rightarrow> ('z Tty_scheme, nat \<times> int + int option) cm" where
  "print_back_step dev buf = (\<lambda>(j, written).
     if 0 < j then
       seq (print dev [buf ! (j - 1)] 1) (\<lambda>ok.
       if \<not> ok then ret (Inr None)
       else if written < INT_MAX then ret (Inl (j - 1, written + 1)) else undef)
     else ret (Inr (Some written)))"

definition print_back :: "device \<Rightarrow> bytes \<Rightarrow> int \<Rightarrow> ('z Tty_scheme, int option) cm" where
  "print_back dev buf written = loop (print_back_step dev buf) (length buf, written)"

text \<open>What a branch of the format loop ends with: \<open>return -1\<close>, or the next round.\<close>

definition go_on :: "bytes \<Rightarrow> va_arg list \<Rightarrow> int option \<Rightarrow> ('s, (bytes \<times> va_arg list \<times> int) + int) cm" where
  "go_on f args w = (case w of None \<Rightarrow> ret (Inr (- 1)) | Some written \<Rightarrow> ret (Inl (f, args, written)))"

definition print_chunk :: "device \<Rightarrow> bytes \<Rightarrow> nat \<Rightarrow> int \<Rightarrow> ('z Tty_scheme, int option) cm" where
  "print_chunk dev data len written =
     (if INT_MAX - written < int len then ret None
      else seq (print dev data len) (\<lambda>ok. if ok then ret (Some (written + int len)) else ret None))"

definition conv_c :: "device \<Rightarrow> va_arg list \<Rightarrow> int \<Rightarrow> ('z Tty_scheme, va_arg list \<times> int option) cm" where
  "conv_c dev args written = (case va_int args of None \<Rightarrow> undef
     | Some (v, rest) \<Rightarrow>
         if INT_MAX - written = 0 then ret (rest, None)
         else seq (print dev [ucast v] 1) (\<lambda>ok. ret (rest, if ok then Some (written + 1) else None)))"

definition conv_s :: "device \<Rightarrow> int \<Rightarrow> va_arg list \<Rightarrow> int \<Rightarrow> ('z Tty_scheme, va_arg list \<times> int option) cm" where
  "conv_s dev prec args written = (case va_str args of None \<Rightarrow> undef
     | Some (v, rest) \<Rightarrow>
         let str = (case v of None \<Rightarrow> [0x28, 0x6e, 0x75, 0x6c, 0x6c, 0x29] | Some cs \<Rightarrow> cs);
             len = (if 0 \<le> prec then min (length str) (nat prec) else length str) in
         seq (print_chunk dev str len written) (\<lambda>w. ret (rest, w)))"

definition conv_d :: "device \<Rightarrow> va_arg list \<Rightarrow> int \<Rightarrow> ('z Tty_scheme, va_arg list \<times> int option) cm" where
  "conv_d dev args written = (case va_int args of None \<Rightarrow> undef
     | Some (v, rest) \<Rightarrow>
         let num = sint v in
         if num = INT_MIN then undef
         else
           seq (digits dec_digit 10 12 (nat \<bar>num\<bar>)) (\<lambda>buf.
           seq (if num < 0 then (if length buf < 12 then ret (buf @ [0x2d]) else undef) else ret buf) (\<lambda>buf.
           if INT_MAX - written < int (length buf) then ret (rest, None)
           else seq (print_back dev buf written) (\<lambda>w. ret (rest, w)))))"

definition conv_u :: "device \<Rightarrow> va_arg list \<Rightarrow> int \<Rightarrow> ('z Tty_scheme, va_arg list \<times> int option) cm" where
  "conv_u dev args written = (case va_int args of None \<Rightarrow> undef
     | Some (v, rest) \<Rightarrow>
         seq (digits dec_digit 10 11 (unat v)) (\<lambda>buf.
         if INT_MAX - written < int (length buf) then ret (rest, None)
         else seq (print_back dev buf written) (\<lambda>w. ret (rest, w))))"

definition conv_x :: "device \<Rightarrow> va_arg list \<Rightarrow> int \<Rightarrow> ('z Tty_scheme, va_arg list \<times> int option) cm" where
  "conv_x dev args written = (case va_int args of None \<Rightarrow> undef
     | Some (v, rest) \<Rightarrow>
         seq (digits hex_digit 16 9 (unat v)) (\<lambda>buf.
         seq (print_back dev buf written) (\<lambda>w. ret (rest, w))))"

text \<open>The letter of the conversion; any other prints the rest of the format as it is.\<close>

definition conversion :: "device \<Rightarrow> bytes \<Rightarrow> int \<Rightarrow> bytes \<Rightarrow> va_arg list \<Rightarrow> int \<Rightarrow>
    ('z Tty_scheme, (bytes \<times> va_arg list \<times> int) + int) cm" where
  "conversion dev format_begun_at prec format args written =
     (let k = (if format = [] then 0 else hd format) in
      if k = 0x63 then seq (conv_c dev args written) (\<lambda>(args, w). go_on (tl format) args w)
      else if k = 0x73 then seq (conv_s dev prec args written) (\<lambda>(args, w). go_on (tl format) args w)
      else if k = 0x64 \<or> k = 0x69 then seq (conv_d dev args written) (\<lambda>(args, w). go_on (tl format) args w)
      else if k = 0x75 then seq (conv_u dev args written) (\<lambda>(args, w). go_on (tl format) args w)
      else if k = 0x78 then seq (conv_x dev args written) (\<lambda>(args, w). go_on (tl format) args w)
      else seq (print_chunk dev format_begun_at (length format_begun_at) written) (go_on [] args))"

definition printf_step :: "device \<Rightarrow> bytes \<times> va_arg list \<times> int \<Rightarrow>
    ('z Tty_scheme, (bytes \<times> va_arg list \<times> int) + int) cm" where
  "printf_step dev = (\<lambda>(format, args, written). case format of [] \<Rightarrow> ret (Inr written)
     | c # f \<Rightarrow>
         if c \<noteq> 0x25 \<or> (f \<noteq> [] \<and> hd f = 0x25) then
           let chunk = (if c = 0x25 then f else format);
               amount = 1 + length (takeWhile (\<lambda>d. d \<noteq> 0x25) (tl chunk)) in
           seq (print_chunk dev chunk amount written) (go_on (drop amount chunk) args)
         else
           (case precision f args of None \<Rightarrow> undef
            | Some (prec, g, args) \<Rightarrow> conversion dev format prec g args written))"

definition printf :: "device \<Rightarrow> bytes \<Rightarrow> va_arg list \<Rightarrow> ('z Tty_scheme, int) cm" where
  "printf dev format args = loop (printf_step dev) (format, args, 0)"

definition puts :: "device \<Rightarrow> bytes \<Rightarrow> ('z Tty_scheme, int) cm" where
  "puts dev str = printf dev [0x25, 0x73, 0x0a] [VStr (Some str)]"

subsection \<open>Numerals\<close>

text \<open>The digits of a number, the last first, and the number that a string of digits denotes.\<close>

fun ldigits :: "nat \<Rightarrow> nat \<Rightarrow> nat list" where
  "ldigits b n = (if n = 0 \<or> b < 2 then [] else (n mod b) # ldigits b (n div b))"

declare ldigits.simps [simp del]

definition numeral_text :: "(nat \<Rightarrow> u8) \<Rightarrow> nat \<Rightarrow> nat \<Rightarrow> bytes" where
  "numeral_text digit b n = (if n = 0 then [0x30] else rev (map digit (ldigits b n)))"

definition int_text :: "int \<Rightarrow> bytes" where
  "int_text i = (if i < 0 then [0x2d] else []) @ numeral_text dec_digit 10 (nat \<bar>i\<bar>)"

definition digit_value :: "u8 \<Rightarrow> nat" where
  "digit_value c = (if is_digit c then unat c - 0x30 else unat c - 0x57)"

definition read_numeral :: "nat \<Rightarrow> bytes \<Rightarrow> nat" where
  "read_numeral b cs = foldl (\<lambda>a c. a * b + digit_value c) 0 cs"

definition read_int :: "bytes \<Rightarrow> int" where
  "read_int cs = (if cs \<noteq> [] \<and> hd cs = 0x2d then - int (read_numeral 10 (tl cs)) else int (read_numeral 10 cs))"

lemma ldigits_less: "d \<in> set (ldigits b n) \<Longrightarrow> d < b"
  by (induction b n rule: ldigits.induct) (subst (asm) (2) ldigits.simps, auto split: if_splits)

lemma ldigits_value: "2 \<le> b \<Longrightarrow> foldr (\<lambda>d a. a * b + d) (ldigits b n) 0 = n"
proof (induction b n rule: ldigits.induct)
  case (1 b n)
  then show ?case by (subst ldigits.simps) (simp add: mult.commute)
qed

lemma ldigits_last: "ldigits b n \<noteq> [] \<Longrightarrow> last (ldigits b n) \<noteq> 0"
proof (induction b n rule: ldigits.induct)
  case (1 b n)
  show ?case
  proof (cases "n < b")
    case True
    then show ?thesis using 1(2) by (subst (asm) ldigits.simps, subst ldigits.simps) (auto simp: ldigits.simps split: if_splits)
  next
    case False
    have n: "\<not> (n = 0 \<or> b < 2)" using 1(2) by (subst (asm) ldigits.simps) (auto split: if_splits)
    then have "n div b \<noteq> 0" using False by (simp add: div_eq_0_iff)
    then have "ldigits b (n div b) \<noteq> []" using n by (subst ldigits.simps) simp
    then show ?thesis using 1(1) n by (subst ldigits.simps) simp
  qed
qed

lemma ldigits_length: "2 \<le> b \<Longrightarrow> n < b ^ k \<Longrightarrow> length (ldigits b n) \<le> k"
proof (induction k arbitrary: n)
  case (Suc k)
  have "n div b < b ^ k" using Suc.prems by (simp add: less_mult_imp_div_less mult.commute)
  then show ?case using Suc.IH [of "n div b"] Suc.prems(1) by (subst ldigits.simps) simp
qed (simp add: ldigits.simps)

lemma dec_digit: "d < 10 \<Longrightarrow> is_digit (dec_digit d) \<and> digit_value (dec_digit d) = d"
proof -
  assume "d < 10"
  then have "d \<in> {0, 1, 2, 3, 4, 5, 6, 7, 8, 9}" by auto
  then show ?thesis by (auto simp: digit_value_def dec_digit_def is_digit_def)
qed

lemma digit_value_hex: "d < 16 \<Longrightarrow> digit_value (hex_digit d) = d"
proof -
  assume "d < 16"
  then have "d \<in> {0, 1, 2, 3, 4, 5, 6, 7, 8, 9, 10, 11, 12, 13, 14, 15}" by simp presburger
  then show ?thesis by (auto simp: digit_value_def hex_digit_def hex_digits_def is_digit_def)
qed

lemma read_numeral_text:
  assumes "2 \<le> b" and "\<And>d. d < b \<Longrightarrow> digit_value (digit d) = d"
  shows "read_numeral b (numeral_text digit b n) = n"
proof (cases "n = 0")
  case True
  then show ?thesis by (simp add: read_numeral_def numeral_text_def digit_value_def is_digit_def)
next
  case False
  have "foldr (\<lambda>c a. a * b + digit_value c) (map digit ds) 0 = foldr (\<lambda>d a. a * b + d) ds 0"
    if "\<And>d. d \<in> set ds \<Longrightarrow> d < b" for ds
    using that by (induction ds) (simp_all add: assms(2))
  then show ?thesis using False ldigits_less ldigits_value [OF assms(1)]
    by (simp add: read_numeral_def numeral_text_def foldl_conv_foldr)
qed

lemma ldigits_nonempty: "n \<noteq> 0 \<Longrightarrow> 2 \<le> b \<Longrightarrow> ldigits b n \<noteq> []"
  by (subst ldigits.simps) simp

lemma read_int_text: "read_int (int_text i) = i"
proof -
  have dec: "read_numeral 10 (numeral_text dec_digit 10 n) = n" for n
    by (rule read_numeral_text) (simp_all add: dec_digit)
  have "hd (numeral_text dec_digit 10 n) \<noteq> 0x2d" for n
  proof (cases "n = 0")
    case False
    then have ne: "ldigits 10 n \<noteq> []" by (simp add: ldigits_nonempty)
    then have "last (ldigits 10 n) < 10" using ldigits_less by (meson last_in_set)
    then have "is_digit (dec_digit (last (ldigits 10 n)))" by (simp add: dec_digit)
    then show ?thesis using False ne by (auto simp: numeral_text_def hd_rev last_map is_digit_def)
  qed (simp add: numeral_text_def)
  moreover have "numeral_text dec_digit 10 n \<noteq> []" for n
    by (simp add: numeral_text_def ldigits_nonempty)
  ultimately show ?thesis by (simp add: read_int_def int_text_def dec)
qed

subsection \<open>What printf writes\<close>

text \<open>The text that a format and its arguments stand for; \<open>None\<close> when the call is undefined.\<close>

definition with_text :: "bytes \<Rightarrow> bytes option \<Rightarrow> bytes option" where
  "with_text cs r = map_option ((@) cs) r"

definition str_text :: "int \<Rightarrow> bytes option \<Rightarrow> bytes" where
  "str_text prec v = (let cs = (case v of None \<Rightarrow> [0x28, 0x6e, 0x75, 0x6c, 0x6c, 0x29] | Some cs \<Rightarrow> cs) in
     if 0 \<le> prec then take (nat prec) cs else cs)"

text \<open>One conversion: the text and the arguments left, \<open>Some None\<close> for an unknown letter.\<close>

definition conv_text :: "u8 \<Rightarrow> int \<Rightarrow> va_arg list \<Rightarrow> (bytes \<times> va_arg list) option option" where
  "conv_text k prec args =
     (if k = 0x63 then map_option (\<lambda>(v, rest). Some ([ucast v], rest)) (va_int args)
      else if k = 0x73 then map_option (\<lambda>(v, rest). Some (str_text prec v, rest)) (va_str args)
      else if k = 0x64 \<or> k = 0x69 then
        (case va_int args of None \<Rightarrow> None
         | Some (v, rest) \<Rightarrow> if sint v = INT_MIN then None else Some (Some (int_text (sint v), rest)))
      else if k = 0x75 then map_option (\<lambda>(v, rest). Some (numeral_text dec_digit 10 (unat v), rest)) (va_int args)
      else if k = 0x78 then map_option (\<lambda>(v, rest). Some (numeral_text hex_digit 16 (unat v), rest)) (va_int args)
      else Some None)"

lemma read_precision_length: "read_precision p f = Some (q, g) \<Longrightarrow> length g \<le> length f"
  by (induction p f rule: read_precision.induct) (auto simp: Let_def split: if_splits)

lemma precision_length: "precision f args = Some (p, g, rest) \<Longrightarrow> length g \<le> length f"
  using read_precision_length
  by (fastforce simp: precision_def split: list.splits if_splits option.splits prod.splits)

function format_text :: "bytes \<Rightarrow> va_arg list \<Rightarrow> bytes option" where
  "format_text [] args = Some []"
| "format_text (c # f) args =
     (if c \<noteq> 0x25 then with_text [c] (format_text f args)
      else if f \<noteq> [] \<and> hd f = 0x25 then with_text [0x25] (format_text (tl f) args)
      else (case precision f args of None \<Rightarrow> None
        | Some (prec, g, as) \<Rightarrow>
            (case conv_text (if g = [] then 0 else hd g) prec as of None \<Rightarrow> None
             | Some None \<Rightarrow> Some (c # f)
             | Some (Some (t, rest)) \<Rightarrow> with_text t (format_text (tl g) rest))))"
  by pat_completeness auto
termination
  by (relation "measure (\<lambda>(f, _). length f)") (auto dest!: precision_length)

lemma with_text_simps [simp]: "with_text [] r = r" "with_text cs (with_text ds r) = with_text (cs @ ds) r"
    "with_text cs (Some ds) = Some (cs @ ds)" "with_text cs None = None"
  by (cases r; simp add: with_text_def)+

lemma with_text_Some: "with_text cs r = Some out \<longleftrightarrow> (\<exists>ds. r = Some ds \<and> out = cs @ ds)"
  by (cases r) auto

lemma format_text_literal:
  "0x25 \<notin> set cs \<Longrightarrow> format_text (cs @ f) args = with_text cs (format_text f args)"
  by (induction cs) simp_all

lemma wp_putchar:
  assumes dev: "uart_ok dev" "\<not> dlab (io_hist s)" and w: "shown w s"
    and Q: "\<And>s'. wrote [word_of_int ic] w s s' \<Longrightarrow> Q ic s'"
  shows "wp (putchar dev ic) Q E s"
  unfolding putchar_def wp_seq_fun
  by (rule wp_terminal_write [OF dev w]) (use Q in \<open>simp_all add: wp_simps\<close>)

lemma wp_print:
  assumes dev: "uart_ok dev" "\<not> dlab (io_hist s)" and w: "shown w s" and n: "n \<le> length data"
    and Q: "\<And>s'. wrote (take n data) w s s' \<Longrightarrow> Q True s'"
  shows "wp (print dev data n) Q E s"
  unfolding print_def
proof (rule wp_loop [where I = "\<lambda>i t. i \<le> n \<and> wrote (take i data) w s t" and m = "\<lambda>i _. n - i"])
  fix i t assume I: "i \<le> n \<and> wrote (take i data) w s t"
  show "wp (print_step dev data n i) (\<lambda>y s'. case y of
      Inl i' \<Rightarrow> (i' \<le> n \<and> wrote (take i' data) w s s') \<and> n - i' < n - i | Inr v \<Rightarrow> Q v s') E t"
  proof (cases "i < n")
    case True
    have "wp (putchar dev (uint (data ! i))) (\<lambda>r s'. r \<noteq> - 1 \<and> wrote (take (Suc i) data) w s s') E t"
    proof (rule wp_putchar [OF dev(1) wroteD(2,1) [OF conjunct2 [OF I]]])
      fix s' assume s': "wrote [word_of_int (uint (data ! i))] (fold (w_char (terminal_color s)) (take i data) w) t s'"
      have "uint (data ! i) \<noteq> - 1" using uint_ge_0 [of "data ! i"] by linarith
      moreover have "wrote (take (Suc i) data) w s s'"
        using wrote_trans [OF conjunct2 [OF I] s'] True n by (simp add: take_Suc_conv_app_nth)
      ultimately show "uint (data ! i) \<noteq> - 1 \<and> wrote (take (Suc i) data) w s s'" ..
    qed
    then show ?thesis using True n
      by (simp add: print_step_def wp_seq_fun wp_if) (erule wp_conseq; auto simp: wp_simps)
  next
    case False
    then show ?thesis using I Q by (auto simp: print_step_def wp_simps)
  qed
qed (use wrote_refl [OF w dev(2)] in simp)


text \<open>A round of the format loop that writes \<open>t\<close>, counted in \<open>k\<close>, or returns -1.\<close>

lemma wp_print_chunk:
  assumes dev: "uart_ok dev" "\<not> dlab (io_hist s)" and w: "shown w s" and n: "n \<le> length data"
    and k: "k + int n \<le> INT_MAX"
    and Q: "\<And>s'. wrote (take n data) w s s' \<Longrightarrow> Q (Some (k + int n)) s'"
  shows "wp (print_chunk dev data n k) Q E s"
proof -
  have "wp (print dev data n) (\<lambda>ok. wp (if ok then ret (Some (k + int n)) else ret None) Q E) E s"
    by (rule wp_print [OF dev w n]) (simp add: wp_simps Q)
  then show ?thesis using k by (simp add: print_chunk_def wp_seq_fun wp_if)
qed

lemma wp_digits:
  assumes b: "2 \<le> b" and n: "n < b ^ cap" "0 < cap"
    and Q: "Q (rev (numeral_text digit b n)) s"
  shows "wp (digits digit b cap n) Q E s"
proof (cases "n = 0")
  case False
  have "wp (loop (digit_step digit b cap) (n, [])) Q E s"
  proof (rule wp_loop [where I = "\<lambda>(m, buf) t. t = s \<and> buf @ map digit (ldigits b m) = map digit (ldigits b n)"
        and m = "\<lambda>(m, buf) _. m"], clarsimp split del: if_split)
    fix m buf assume I: "buf @ map digit (ldigits b m) = map digit (ldigits b n)"
    show "wp (digit_step digit b cap (m, buf)) (\<lambda>y s'. case y of
        Inl x' \<Rightarrow> (case x' of (m, buf) \<Rightarrow> \<lambda>t. t = s \<and> buf @ map digit (ldigits b m) = map digit (ldigits b n)) s' \<and>
          (case x' of (m, buf) \<Rightarrow> \<lambda>_. m) s' < m
      | Inr v \<Rightarrow> Q v s') E s"
    proof (cases "m = 0")
      case True
      then have "buf = map digit (ldigits b n)" using I by (simp add: ldigits.simps)
      then show ?thesis using True Q False by (simp add: digit_step_def wp_simps numeral_text_def)
    next
      case m: False
      then have l: "ldigits b m = (m mod b) # ldigits b (m div b)" using b by (subst ldigits.simps) simp
      have "length buf + length (ldigits b m) = length (ldigits b n)" using arg_cong [OF I, of length] by simp
      then have "length buf < cap" using ldigits_length [OF b n(1)] by (simp add: l)
      then show ?thesis using m I b l by (simp add: digit_step_def wp_simps)
    qed
  qed simp
  then show ?thesis using False by (simp add: digits_def)
qed (use Q in \<open>simp add: digits_def wp_simps numeral_text_def\<close>)

lemma wp_print_back:
  assumes dev: "uart_ok dev" "\<not> dlab (io_hist s)" and w: "shown w s"
    and k: "k + int (length buf) \<le> INT_MAX"
    and Q: "\<And>s'. wrote (rev buf) w s s' \<Longrightarrow> Q (Some (k + int (length buf))) s'"
  shows "wp (print_back dev buf k) Q E s"
  unfolding print_back_def
proof (rule wp_loop [where m = "\<lambda>(j, _) _. j" and I = "\<lambda>(j, k') t. j \<le> length buf \<and>
      k' = k + int (length buf - j) \<and> wrote (rev (drop j buf)) w s t"])
  fix x t
  let ?I = "\<lambda>(j, k') t. j \<le> length buf \<and> k' = k + int (length buf - j) \<and> wrote (rev (drop j buf)) w s t"
  assume I: "?I x t"
  obtain j k' where x: "x = (j, k')" by (cases x)
  show "wp (print_back_step dev buf x) (\<lambda>y s'. case y of
      Inl x' \<Rightarrow> ?I x' s' \<and> (case x' of (j, _) \<Rightarrow> \<lambda>_. j) s' < (case x of (j, _) \<Rightarrow> \<lambda>_. j) t | Inr v \<Rightarrow> Q v s') E t"
  proof (cases "j = 0")
    case True
    then show ?thesis using x I Q by (auto simp: print_back_step_def wp_simps)
  next
    case False
    have j: "j \<le> length buf" and kk: "k' = k + int (length buf - j)" and wr: "wrote (rev (drop j buf)) w s t"
      using I x by simp_all
    have "drop (j - 1) buf = buf ! (j - 1) # drop j buf" using False j Cons_nth_drop_Suc [of "j - 1" buf] by simp
    then have "rev (drop (j - 1) buf) = rev (drop j buf) @ [buf ! (j - 1)]" by simp
    then have "wp (print dev [buf ! (j - 1)] 1) (\<lambda>ok s'. ok \<and> wrote (rev (drop (j - 1) buf)) w s s') E t"
      using wp_print [OF dev(1) wroteD(2,1) [OF wr], of 1 "[buf ! (j - 1)]"] wrote_trans [OF wr] by simp
    moreover have "k' < INT_MAX" "k' + 1 = k + int (length buf - (j - 1))" using kk k j False by (simp_all add: of_nat_diff)
    ultimately show ?thesis using False j x
      by (simp add: print_back_step_def wp_seq_fun wp_if) (erule wp_conseq; auto simp: wp_simps)
  qed
qed (use wrote_refl [OF w dev(2)] in simp)

text \<open>A conversion writes its text and hands on the other arguments.\<close>

lemma wp_conv_c:
  assumes dev: "uart_ok dev" "\<not> dlab (io_hist s)" and w: "shown w s"
    and a: "va_int args = Some (v, rest)" and k: "k + 1 \<le> INT_MAX"
    and Q: "\<And>s'. wrote [ucast v] w s s' \<Longrightarrow> Q (rest, Some (k + 1)) s'"
  shows "wp (conv_c dev args k) Q E s"
proof -
  have "wp (print dev [ucast v] 1) (\<lambda>ok. wp (ret (rest, if ok then Some (k + 1) else None)) Q E) E s"
    by (rule wp_print [OF dev w]) (simp_all add: wp_simps Q)
  then show ?thesis using a k by (simp add: conv_c_def wp_seq_fun wp_if)
qed

lemma wp_conv_s:
  assumes dev: "uart_ok dev" "\<not> dlab (io_hist s)" and w: "shown w s"
    and a: "va_str args = Some (v, rest)" and k: "k + int (length (str_text p v)) \<le> INT_MAX"
    and Q: "\<And>s'. wrote (str_text p v) w s s' \<Longrightarrow> Q (rest, Some (k + int (length (str_text p v)))) s'"
  shows "wp (conv_s dev p args k) Q E s"
proof -
  let ?str = "case v of None \<Rightarrow> [0x28, 0x6e, 0x75, 0x6c, 0x6c, 0x29] | Some cs \<Rightarrow> cs"
  let ?n = "if 0 \<le> p then min (length ?str) (nat p) else length ?str"
  have t: "take ?n ?str = str_text p v" "length (str_text p v) = ?n" "?n \<le> length ?str"
    by (simp_all add: str_text_def Let_def min_def)
  have "wp (print_chunk dev ?str ?n k) (\<lambda>w. wp (ret (rest, w)) Q E) E s"
    by (rule wp_print_chunk [OF dev w t(3)]) (use k Q t in \<open>simp_all add: wp_simps\<close>)
  then show ?thesis using a unfolding conv_s_def by (simp only: option.case prod.case Let_def wp_seq_fun)
qed

lemma wp_conv_d:
  assumes dev: "uart_ok dev" "\<not> dlab (io_hist s)" and w: "shown w s"
    and a: "va_int args = Some (v, rest)" and v: "sint v \<noteq> INT_MIN"
    and k: "k + int (length (int_text (sint v))) \<le> INT_MAX"
    and Q: "\<And>s'. wrote (int_text (sint v)) w s s' \<Longrightarrow> Q (rest, Some (k + int (length (int_text (sint v))))) s'"
  shows "wp (conv_d dev args k) Q E s"
proof -
  let ?n = "nat \<bar>sint v\<bar>"
  let ?t = "numeral_text dec_digit 10 ?n"
  let ?buf = "rev ?t @ (if sint v < 0 then [0x2d] else [])"
  have t: "rev ?buf = int_text (sint v)" "length ?buf = length (int_text (sint v))"
    by (simp_all add: int_text_def)
  have "wp (print_back dev ?buf k) (\<lambda>w. wp (ret (rest, w)) Q E) E s"
    by (rule wp_print_back [OF dev w]) (use k Q t in \<open>simp_all only: wp_simps\<close>)
  moreover have n: "?n < 10 ^ 10" using sint_lt [of v] sint_ge [of v] by simp
  have "length (ldigits 10 ?n) \<le> 10" using n by (intro ldigits_length) simp_all
  then have "length ?t < 12" by (simp add: numeral_text_def)
  ultimately have "wp (seq (if sint v < 0 then (if length (rev ?t) < 12 then ret (rev ?t @ [0x2d]) else undef) else ret (rev ?t)) (\<lambda>buf.
      if INT_MAX - k < int (length buf) then ret (rest, None)
      else seq (print_back dev buf k) (\<lambda>w. ret (rest, w)))) Q E s"
    using k t(2) by (cases "sint v < 0") (simp_all add: wp_simps wp_seq_fun)
  then have "wp (digits dec_digit 10 12 ?n) (\<lambda>buf. wp (seq (if sint v < 0 then (if length buf < 12 then ret (buf @ [0x2d]) else undef) else ret buf) (\<lambda>buf.
      if INT_MAX - k < int (length buf) then ret (rest, None)
      else seq (print_back dev buf k) (\<lambda>w. ret (rest, w)))) Q E) E s"
    using n by (intro wp_digits) simp_all
  then show ?thesis using a v by (simp add: conv_d_def wp_seq_fun Let_def)
qed

lemma wp_conv_u:
  assumes dev: "uart_ok dev" "\<not> dlab (io_hist s)" and w: "shown w s"
    and a: "va_int args = Some (v, rest)" and k: "k + int (length (numeral_text dec_digit 10 (unat v))) \<le> INT_MAX"
    and Q: "\<And>s'. wrote (numeral_text dec_digit 10 (unat v)) w s s' \<Longrightarrow>
      Q (rest, Some (k + int (length (numeral_text dec_digit 10 (unat v))))) s'"
  shows "wp (conv_u dev args k) Q E s"
proof -
  let ?t = "numeral_text dec_digit 10 (unat v)"
  have "wp (print_back dev (rev ?t) k) (\<lambda>w. wp (ret (rest, w)) Q E) E s"
    by (rule wp_print_back [OF dev w]) (use k Q in \<open>simp_all add: wp_simps\<close>)
  then have "wp (if INT_MAX - k < int (length (rev ?t)) then ret (rest, None)
      else seq (print_back dev (rev ?t) k) (\<lambda>w. ret (rest, w))) Q E s"
    using k by (simp add: wp_seq_fun)
  then have "wp (digits dec_digit 10 11 (unat v)) (\<lambda>buf. wp (if INT_MAX - k < int (length buf) then ret (rest, None)
      else seq (print_back dev buf k) (\<lambda>w. ret (rest, w))) Q E) E s"
    using u32_less [of v] by (intro wp_digits) simp_all
  then show ?thesis using a by (simp add: conv_u_def wp_seq_fun)
qed

lemma wp_conv_x:
  assumes dev: "uart_ok dev" "\<not> dlab (io_hist s)" and w: "shown w s"
    and a: "va_int args = Some (v, rest)" and k: "k + int (length (numeral_text hex_digit 16 (unat v))) \<le> INT_MAX"
    and Q: "\<And>s'. wrote (numeral_text hex_digit 16 (unat v)) w s s' \<Longrightarrow>
      Q (rest, Some (k + int (length (numeral_text hex_digit 16 (unat v))))) s'"
  shows "wp (conv_x dev args k) Q E s"
proof -
  let ?t = "numeral_text hex_digit 16 (unat v)"
  have "wp (print_back dev (rev ?t) k) (\<lambda>w. wp (ret (rest, w)) Q E) E s"
    by (rule wp_print_back [OF dev w]) (use k Q in \<open>simp_all add: wp_simps\<close>)
  then have "wp (digits hex_digit 16 9 (unat v)) (\<lambda>buf. wp (seq (print_back dev buf k) (\<lambda>w. ret (rest, w))) Q E) E s"
    using u32_less [of v] by (intro wp_digits) (simp_all add: wp_seq_fun)
  then show ?thesis using a by (simp add: conv_x_def wp_seq_fun)
qed


lemma wp_conversion:
  assumes dev: "uart_ok dev" "\<not> dlab (io_hist s)" and w: "shown w s"
    and t: "conv_text (if g = [] then 0 else hd g) p args = Some (Some (t, rest))"
    and k: "k + int (length t) \<le> INT_MAX"
    and Q: "\<And>s'. wrote t w s s' \<Longrightarrow> wp (go_on (tl g) rest (Some (k + int (length t)))) Q E s'"
  shows "wp (conversion dev f p g args k) Q E s"
proof -
  let ?k = "if g = [] then 0 else hd g"
  let ?R = "\<lambda>x. wp (case x of (args, w) \<Rightarrow> go_on (tl g) args w) Q E"
  have R: "wrote t w s s' \<Longrightarrow> ?R (rest, Some (k + int (length t))) s'" for s' using Q by simp
  consider "?k = 0x63" | "?k = 0x73" | "?k = 0x64 \<or> ?k = 0x69" | "?k = 0x75" | "?k = 0x78"
    using t unfolding conv_text_def by (auto split: if_splits)
  then show ?thesis
  proof cases
    case 1
    then obtain v where "va_int args = Some (v, rest)" "t = [ucast v]" using t by (auto simp: conv_text_def)
    then have "wp (conv_c dev args k) ?R E s" using k R by (intro wp_conv_c [OF dev w]) simp_all
    then show ?thesis using 1 by (simp add: conversion_def Let_def wp_seq_fun)
  next
    case 2
    then obtain v where "va_str args = Some (v, rest)" "t = str_text p v" using t by (auto simp: conv_text_def)
    then have "wp (conv_s dev p args k) ?R E s" using k R by (intro wp_conv_s [OF dev w]) simp_all
    then show ?thesis using 2 by (simp add: conversion_def Let_def wp_seq_fun)
  next
    case 3
    then obtain v where "va_int args = Some (v, rest)" "sint v \<noteq> INT_MIN" "t = int_text (sint v)"
      using t by (auto simp: conv_text_def split: option.splits if_splits)
    then have "wp (conv_d dev args k) ?R E s" using k R by (intro wp_conv_d [OF dev w]) simp_all
    then show ?thesis using 3 by (auto simp add: conversion_def Let_def wp_seq_fun)
  next
    case 4
    then obtain v where "va_int args = Some (v, rest)" "t = numeral_text dec_digit 10 (unat v)"
      using t by (auto simp: conv_text_def)
    then have "wp (conv_u dev args k) ?R E s" using k R by (intro wp_conv_u [OF dev w]) simp_all
    then show ?thesis using 4 by (simp add: conversion_def Let_def wp_seq_fun)
  next
    case 5
    then obtain v where "va_int args = Some (v, rest)" "t = numeral_text hex_digit 16 (unat v)"
      using t by (auto simp: conv_text_def)
    then have "wp (conv_x dev args k) ?R E s" using k R by (intro wp_conv_x [OF dev w]) simp_all
    then show ?thesis using 5 by (simp add: conversion_def Let_def wp_seq_fun)
  qed
qed

lemma wp_unknown:
  assumes "conv_text (if g = [] then 0 else hd g) p args = Some None"
    and "wp (print_chunk dev f (length f) k) (\<lambda>w. wp (go_on [] args w) Q E) E s"
  shows "wp (conversion dev f p g args k) Q E s"
proof -
  let ?k = "if g = [] then 0 else hd g"
  have "?k \<noteq> 0x63" "?k \<noteq> 0x73" "\<not> (?k = 0x64 \<or> ?k = 0x69)" "?k \<noteq> 0x75" "?k \<noteq> 0x78"
    using assms(1) unfolding conv_text_def by (auto split: if_splits option.splits)
  then show ?thesis using assms(2) by (simp only: conversion_def Let_def if_False wp_seq_fun)
qed

lemma go_on_Some: "go_on f args (Some k) = ret (Inl (f, args, k))"
  by (simp add: go_on_def)

lemma chunk_split:
  "take (1 + length (takeWhile P (tl (d # g)))) (d # g) = d # takeWhile P g"
  "drop (1 + length (takeWhile P (tl (d # g)))) (d # g) = dropWhile P g"
  by (simp_all add: takeWhile_eq_take [symmetric] dropWhile_eq_drop)

lemma wp_printf_loop:
  assumes dev: "uart_ok dev"
  shows "format_text f args = Some out \<Longrightarrow> \<not> dlab (io_hist s) \<Longrightarrow> shown w s \<Longrightarrow>
    k + int (length out) \<le> INT_MAX \<Longrightarrow> (\<And>s'. wrote out w s s' \<Longrightarrow> Q (k + int (length out)) s') \<Longrightarrow>
    wp (loop (printf_step dev) (f, args, k)) Q E s"
proof (induction "length f" arbitrary: f args out s w k rule: less_induct)
  case less
  note line = less.prems(2) and w = less.prems(3)
  let ?next = "\<lambda>y. wp (case y of Inl x' \<Rightarrow> loop (printf_step dev) x' | Inr v \<Rightarrow> ret v) Q E"
  show ?case
  proof (cases f)
    case Nil
    then show ?thesis using less.prems wrote_refl [OF w line]
      by (subst loop_unfold) (simp add: printf_step_def wp_simps)
  next
    case (Cons c f')
    have next_: "wp (go_on g rest (Some (k + int (length t)))) ?next E s1"
      if "wrote t w s s1" "format_text g rest = Some out'" "out = t @ out'" "length g < length f" for t g rest out' s1
    proof -
      have "wp (loop (printf_step dev) (g, rest, k + int (length t))) Q E s1"
      proof (rule less.hyps [OF that(4,2) wroteD(2,1) [OF that(1)]])
        fix s' assume "wrote out' (fold (w_char (terminal_color s)) t w) s1 s'"
        from wrote_trans [OF that(1) this] show "Q (k + int (length t) + int (length out')) s'"
          using less.prems(5) [of s'] that(3) by (simp add: add.assoc)
      qed (use less.prems(4) that(3) in simp)
      then show ?thesis by (simp add: go_on_Some wp_simps)
    qed
    have "wp (printf_step dev (f, args, k)) ?next E s"
    proof (cases "c \<noteq> 0x25 \<or> (f' \<noteq> [] \<and> hd f' = 0x25)")
      case True
      then obtain d g where g: "(if c = 0x25 then f' else f) = d # g" "length g < length f"
        and t: "format_text f args = with_text [d] (format_text g args)"
        using Cons by (cases "c = 0x25"; cases f') auto
      let ?P = "\<lambda>d :: u8. d \<noteq> 0x25"
      have "0x25 \<notin> set (takeWhile ?P g)" by (auto dest: set_takeWhileD)
      from format_text_literal [OF this, of "dropWhile ?P g" args] t
      have "format_text f args = with_text (d # takeWhile ?P g) (format_text (dropWhile ?P g) args)" by simp
      with less.prems(1) obtain out' where out': "format_text (dropWhile ?P g) args = Some out'"
        "out = (d # takeWhile ?P g) @ out'" by (auto simp: with_text_Some)
      have n: "1 + length (takeWhile ?P (tl (d # g))) \<le> length (d # g)"
        using length_takeWhile_le [of ?P g] by simp
      have "wp (print_chunk dev (d # g) (1 + length (takeWhile ?P (tl (d # g)))) k)
          (\<lambda>w. wp (go_on (drop (1 + length (takeWhile ?P (tl (d # g)))) (d # g)) args w) ?next E) E s"
        unfolding chunk_split(2)
      proof (rule wp_print_chunk [OF dev line w n])
        show "k + int (1 + length (takeWhile ?P (tl (d # g)))) \<le> INT_MAX" using less.prems(4) out'(2) by simp
        fix s1 assume "wrote (take (1 + length (takeWhile ?P (tl (d # g)))) (d # g)) w s s1"
        then have "wrote (d # takeWhile ?P g) w s s1" by (simp only: chunk_split)
        from next_ [OF this out'] show "wp (go_on (dropWhile ?P g) args (Some (k + int (1 + length (takeWhile ?P (tl (d # g))))))) ?next E s1"
          using g(2) length_dropWhile_le [of ?P g] by simp
      qed
      then show ?thesis unfolding printf_step_def using True g(1) Cons
        by (simp only: prod.case list.case if_True Let_def wp_seq_fun)
    next
      case False
      then have c: "c = 0x25" "\<not> (f' \<noteq> [] \<and> hd f' = 0x25)" by simp_all
      obtain p g as where pr: "precision f' args = Some (p, g, as)"
        using less.prems(1) Cons c by (auto split: option.splits)
      let ?k = "if g = [] then 0 else hd g"
      have step: "printf_step dev (f, args, k) = conversion dev f p g as k"
        using Cons c pr by (cases "f' = []") (simp_all add: printf_step_def)
      show ?thesis
      proof (cases "conv_text ?k p as")
        case None
        then show ?thesis using less.prems(1) Cons c pr by simp
      next
        case (Some r)
        show ?thesis
        proof (cases r)
          case None
          then have out: "out = f" using less.prems(1) Cons c pr Some by simp
          have "wp (print_chunk dev f (length f) k) (\<lambda>w. wp (go_on [] as w) ?next E) E s"
          proof (rule wp_print_chunk [OF dev line w order_refl])
            show "k + int (length f) \<le> INT_MAX" using less.prems(4) out by simp
            fix s1 assume "wrote (take (length f) f) w s s1"
            then have "wrote f w s s1" by simp
            from next_ [OF this, of "[]" as "[]"] out Cons
            show "wp (go_on [] as (Some (k + int (length f)))) ?next E s1" by simp
          qed
          then have "wp (conversion dev f p g as k) ?next E s" using Some None by (intro wp_unknown) simp_all
          then show ?thesis unfolding step .
        next
          case (Some r')
          then obtain t rest where r: "conv_text ?k p as = Some (Some (t, rest))"
            using \<open>conv_text ?k p as = Some r\<close> by (cases r') auto
          obtain out' where out': "format_text (tl g) rest = Some out'" "out = t @ out'"
            using less.prems(1) Cons c pr r by (auto simp: with_text_Some)
          have g: "g \<noteq> []" using r by (auto simp: conv_text_def split: if_splits)
          have room: "k + int (length t) \<le> INT_MAX" using less.prems(4) out'(2) by simp
          have "length (tl g) < length f" using g precision_length [OF pr] Cons by (cases g) auto
          from wp_conversion [OF dev line w r room next_ [OF _ out' this]]
          show ?thesis unfolding step .
        qed
      qed
    qed
    then show ?thesis by (subst loop_unfold) (simp add: wp_seq_fun)
  qed
qed

subsection \<open>Properties\<close>

lemma wp_printf:
  assumes "uart_ok dev" "\<not> dlab (io_hist s)" "shown w s"
    and "format_text f args = Some out" "int (length out) \<le> INT_MAX"
    and Q: "\<And>s'. wrote out w s s' \<Longrightarrow> Q (int (length out)) s'"
  shows "wp (printf dev f args) Q E s"
  unfolding printf_def by (rule wp_printf_loop [OF assms(1,4,2,3)]) (use assms(5) Q in simp_all)

text \<open>C36: a call of \<open>printf\<close> whose format and arguments stand for the text \<open>out\<close>, up to 2 GiB
  long, terminates, stays inside its digit buffers, writes exactly \<open>out\<close> to the screen and to the serial
  line, and returns its length. The text of a call is undefined only for a missing or wrong
  argument, a precision above \<open>INT_MAX\<close>, and \<open>%d\<close> of the smallest integer.\<close>

theorem printf_prints:
  assumes "uart_ok dev" and "\<not> dlab (io_hist s)" and "shown w s"
    and "format_text format args = Some out" and "length out < 2 ^ 31"
  shows "wp (printf dev format args) (\<lambda>r s'. r = int (length out) \<and>
      shown (fold (w_char (terminal_color s)) out w) s' \<and>
      transmitted (io_hist s') = transmitted (io_hist s) @ out) (\<lambda>_ _. False) s"
  by (rule wp_printf [OF assms(1-4)]) (use assms(5) wroteD in auto)

lemma printf_prints_witness:
  "wp (printf uart_sample [0x25, 0x2e, 0x32, 0x73, 0x3d, 0x25, 0x64, 0x25, 0x25] [VStr (Some [0x61, 0x62, 0x63]), VInt (- 42)])
     (\<lambda>r s'. r = 7 \<and> transmitted (io_hist s') = [0x61, 0x62, 0x3d, 0x2d, 0x34, 0x32, 0x25]) (\<lambda>_ _. False) tty_sample"
proof -
  have "int_text (- 42) = [0x2d, 0x34, 0x32]"
    by (simp add: int_text_def numeral_text_def ldigits.simps dec_digit_def)
  then have "format_text [0x25, 0x2e, 0x32, 0x73, 0x3d, 0x25, 0x64, 0x25, 0x25] [VStr (Some [0x61, 0x62, 0x63]), VInt (- 42)] =
      Some [0x61, 0x62, 0x3d, 0x2d, 0x34, 0x32, 0x25]"
    by (simp add: precision_def is_digit_def conv_text_def va_int_def va_str_def str_text_def)
  from printf_prints [OF uart_sample_ok tty_sample_shown(2,1) this] show ?thesis
    by (rule wp_conseq) (simp_all add: tty_sample_def)
qed

text \<open>C37: numbers survive printing: the text that \<open>%d\<close>, \<open>%u\<close> or \<open>%x\<close> makes of a word, read as a
  decimal or hexadecimal numeral, is the value of the word, for every word but the smallest
  integer under \<open>%d\<close>; and no numeral starts with a superfluous zero.\<close>

theorem printf_number_roundtrip:
  assumes "uart_ok dev" and "\<not> dlab (io_hist s)" and "shown w s" and "sint v \<noteq> INT_MIN"
  shows "\<exists>d u x.
    wp (printf dev [0x25, 0x64] [VInt v]) (\<lambda>_ s'. transmitted (io_hist s') = transmitted (io_hist s) @ d) (\<lambda>_ _. False) s \<and>
    wp (printf dev [0x25, 0x75] [VInt v]) (\<lambda>_ s'. transmitted (io_hist s') = transmitted (io_hist s) @ u) (\<lambda>_ _. False) s \<and>
    wp (printf dev [0x25, 0x78] [VInt v]) (\<lambda>_ s'. transmitted (io_hist s') = transmitted (io_hist s) @ x) (\<lambda>_ _. False) s \<and>
    read_int d = sint v \<and> read_numeral 10 u = unat v \<and> read_numeral 16 x = unat v \<and>
    (v \<noteq> 0 \<longrightarrow> hd u \<noteq> 0x30 \<and> hd x \<noteq> 0x30)"
proof (intro exI conjI)
  let ?n = "unat v"
  have len: "int (length (numeral_text digit b ?n)) \<le> INT_MAX" if "2 \<le> b" for digit b
  proof -
    have "?n < b ^ 32" using u32_less [of v] power_mono [OF that, of 32] by simp
    from ldigits_length [OF that this] show ?thesis by (simp add: numeral_text_def)
  qed
  have "nat \<bar>sint v\<bar> < 10 ^ 10" using sint_lt [of v] sint_ge [of v] by simp
  then have "length (ldigits 10 (nat \<bar>sint v\<bar>)) \<le> 10" by (intro ldigits_length) simp_all
  then have dlen: "int (length (int_text (sint v))) \<le> INT_MAX"
    by (cases "sint v < 0") (auto simp: int_text_def numeral_text_def)
  show "wp (printf dev [0x25, 0x64] [VInt v]) (\<lambda>_ s'. transmitted (io_hist s') = transmitted (io_hist s) @ int_text (sint v)) (\<lambda>_ _. False) s"
    by (rule wp_printf [OF assms(1-3) _ dlen])
      (use assms(4) wroteD(4) in \<open>auto simp: precision_def conv_text_def va_int_def\<close>)
  show "wp (printf dev [0x25, 0x75] [VInt v]) (\<lambda>_ s'. transmitted (io_hist s') = transmitted (io_hist s) @ numeral_text dec_digit 10 ?n) (\<lambda>_ _. False) s"
    by (rule wp_printf [OF assms(1-3) _ len])
      (use wroteD(4) in \<open>auto simp: precision_def conv_text_def va_int_def\<close>)
  show "wp (printf dev [0x25, 0x78] [VInt v]) (\<lambda>_ s'. transmitted (io_hist s') = transmitted (io_hist s) @ numeral_text hex_digit 16 ?n) (\<lambda>_ _. False) s"
    by (rule wp_printf [OF assms(1-3) _ len])
      (use wroteD(4) in \<open>auto simp: precision_def conv_text_def va_int_def\<close>)
  show "read_int (int_text (sint v)) = sint v" by (rule read_int_text)
  show "read_numeral 10 (numeral_text dec_digit 10 ?n) = ?n" "read_numeral 16 (numeral_text hex_digit 16 ?n) = ?n"
    by (rule read_numeral_text; simp add: dec_digit digit_value_hex)+
next
  have first: "hd (numeral_text digit b n) \<noteq> 0x30"
    if "2 \<le> b" "n \<noteq> 0" "\<And>d. d < b \<Longrightarrow> digit_value (digit d) = d" for digit b n
  proof -
    note l = ldigits_nonempty [OF that(2,1)]
    have "last (ldigits b n) < b" using ldigits_less last_in_set [OF l] by blast
    from that(3) [OF this] ldigits_last [OF l] have "digit_value (digit (last (ldigits b n))) \<noteq> 0" by simp
    then have "digit (last (ldigits b n)) \<noteq> 0x30" by (auto simp: digit_value_def is_digit_def)
    then show ?thesis using l that(2) by (simp add: numeral_text_def hd_rev last_map)
  qed
  show "v \<noteq> 0 \<longrightarrow> hd (numeral_text dec_digit 10 (unat v)) \<noteq> 0x30 \<and> hd (numeral_text hex_digit 16 (unat v)) \<noteq> 0x30"
  proof (intro impI conjI)
    assume "v \<noteq> 0"
    then have "unat v \<noteq> 0" by (simp only: unat_eq_0 not_False_eq_True)
    then show "hd (numeral_text dec_digit 10 (unat v)) \<noteq> 0x30" "hd (numeral_text hex_digit 16 (unat v)) \<noteq> 0x30"
      by (intro first; simp add: dec_digit digit_value_hex)+
  qed
qed

lemma printf_number_roundtrip_witness:
  "\<exists>d. wp (printf uart_sample [0x25, 0x64] [VInt (- 42)]) (\<lambda>_ s'. transmitted (io_hist s') = d) (\<lambda>_ _. False) tty_sample \<and>
     read_int d = - 42"
proof -
  have "sint (- 42 :: u32) = - 42" by simp
  then show ?thesis
    using printf_number_roundtrip [OF uart_sample_ok tty_sample_shown(2,1), of "- 42"] by (auto simp: tty_sample_def)
qed

text \<open>\<open>printf("%d")\<close> of the smallest integer negates it, which overflows.\<close>

lemma printf_int_min: "printf dev [0x25, 0x64] [VInt 0x80000000] s = None"
  by (simp add: printf_def loop.simps printf_step_def precision_def conversion_def conv_d_def va_int_def undef_def seq_def)

end
