(* ===== verification/Keyboard.thy ===== *)
theory Keyboard
  imports Interfaces
begin

unbundle bit_operations_syntax

section \<open>The keyboard driver (driver/keyboard.c)\<close>

text \<open>
  The interrupt handler turns scancodes into characters and puts them into a ring buffer of
  256 bytes; \<open>keyboard_getchar\<close> takes them out. A \<open>char\<close> is its byte.
\<close>

subsection \<open>The code\<close>

record Kbd =
  kb_buffer :: bytes
  kb_read :: u32
  kb_write :: u32
  kb_shift :: bool

definition scancode_to_ascii :: bytes where
  "scancode_to_ascii =
    [0, 0, 0x31, 0x32, 0x33, 0x34, 0x35, 0x36, 0x37, 0x38, 0x39, 0x30, 0x2d, 0x3d, 0x8,
     0x9, 0x71, 0x77, 0x65, 0x72, 0x74, 0x79, 0x75, 0x69, 0x6f, 0x70, 0x5b, 0x5d, 0xa, 0,
     0x61, 0x73, 0x64, 0x66, 0x67, 0x68, 0x6a, 0x6b, 0x6c, 0x3b, 0x27, 0x60, 0, 0x5c, 0x7a,
     0x78, 0x63, 0x76, 0x62, 0x6e, 0x6d, 0x2c, 0x2e, 0x2f, 0, 0x2a, 0, 0x20]"

definition scancode_to_ascii_shifted :: bytes where
  "scancode_to_ascii_shifted =
    [0, 0, 0x21, 0x40, 0x23, 0x24, 0x25, 0x5e, 0x26, 0x2a, 0x28, 0x29, 0x5f, 0x2b, 0x8,
     0x9, 0x51, 0x57, 0x45, 0x52, 0x54, 0x59, 0x55, 0x49, 0x4f, 0x50, 0x7b, 0x7d, 0xa, 0,
     0x41, 0x53, 0x44, 0x46, 0x47, 0x48, 0x4a, 0x4b, 0x4c, 0x3a, 0x22, 0x7e, 0, 0x7c, 0x5a,
     0x58, 0x43, 0x56, 0x42, 0x4e, 0x4d, 0x3c, 0x3e, 0x3f, 0, 0x2a, 0, 0x20]"

definition kb_ascii :: "bool \<Rightarrow> u8 \<Rightarrow> u8" where
  "kb_ascii shift k = (if unat k < length scancode_to_ascii then
     (if shift then scancode_to_ascii_shifted ! unat k else scancode_to_ascii ! unat k) else 0)"

definition kb_put :: "u8 \<Rightarrow> Kbd \<Rightarrow> Kbd" where
  "kb_put c s = (let next_write = (kb_write s + 1) mod 256 in
     if next_write \<noteq> kb_read s then
       s\<lparr>kb_buffer := (kb_buffer s)[unat (kb_write s) := c], kb_write := next_write\<rparr>
     else s)"

definition keyboard_irq_handler :: "u8 \<Rightarrow> Kbd \<Rightarrow> Kbd" where
  "keyboard_irq_handler scancode s =
     (if scancode = 0x2a \<or> scancode = 0x36 then s\<lparr>kb_shift := True\<rparr>
      else if scancode = 0xaa \<or> scancode = 0xb6 then s\<lparr>kb_shift := False\<rparr>
      else if scancode AND 0x80 = 0 then
        (let ascii = kb_ascii (kb_shift s) scancode in if ascii \<noteq> 0 then kb_put ascii s else s)
      else s)"

definition keyboard_init_irq :: "Kbd \<Rightarrow> Kbd" where
  "keyboard_init_irq s = s\<lparr>kb_read := 0, kb_write := 0\<rparr>"

text \<open>\<open>None\<close>: the loop of \<open>keyboard_getchar\<close> halts until the next interrupt.\<close>

definition keyboard_getchar :: "Kbd \<Rightarrow> (u8 \<times> Kbd) option" where
  "keyboard_getchar s = (if kb_read s = kb_write s then None
     else Some (kb_buffer s ! unat (kb_read s), s\<lparr>kb_read := (kb_read s + 1) mod 256\<rparr>))"

subsection \<open>The ring buffer is a FIFO of 255 characters\<close>

definition kb_inv :: "Kbd \<Rightarrow> bool" where
  "kb_inv s \<longleftrightarrow> length (kb_buffer s) = 256 \<and> kb_read s < 256 \<and> kb_write s < 256"

text \<open>The indices in use, from the oldest on, and the characters there.\<close>

definition kb_count :: "Kbd \<Rightarrow> nat" where
  "kb_count s = (256 + unat (kb_write s) - unat (kb_read s)) mod 256"

definition kb_chars :: "Kbd \<Rightarrow> bytes" where
  "kb_chars s = map (\<lambda>i. kb_buffer s ! ((unat (kb_read s) + i) mod 256)) [0..<kb_count s]"

lemma length_kb_chars [simp]: "length (kb_chars s) = kb_count s"
  by (simp add: kb_chars_def)

lemma kb_succ: "x < 256 \<Longrightarrow> unat ((x + 1) mod 256 :: u32) = (unat x + 1) mod 256"
proof -
  assume "x < 256"
  then have "unat x < 256" by (simp add: word_less_nat_alt)
  then have "unat (x + 1) = unat x + 1" by (simp add: unat_word_ariths)
  then show ?thesis by (simp add: unat_mod)
qed

lemma kb_succ_less: "(x + 1) mod 256 < (256 :: u32)"
  by (simp add: word_less_nat_alt unat_mod)

lemma kb_invD:
  assumes "kb_inv s"
  shows "length (kb_buffer s) = 256" "unat (kb_read s) < 256" "unat (kb_write s) < 256"
  using assms by (auto simp: kb_inv_def word_less_nat_alt)

lemma ring_count: "r < 256 \<Longrightarrow> w < 256 \<Longrightarrow>
  (256 + w - r) mod 256 = (if r \<le> w then w - r else 256 + w - r)" for r w :: nat
  by (cases "r \<le> w") (simp_all add: mod_if)

lemma ring_add: "r < 256 \<Longrightarrow> i < 256 \<Longrightarrow> (r + i) mod 256 = (if r + i < 256 then r + i else r + i - 256)"
  for r i :: nat
  by (simp add: mod_if)

lemma ring_Suc: "r < 256 \<Longrightarrow> Suc r mod 256 = (if r = 255 then 0 else Suc r)"
  by (simp add: mod_if)

lemma kb_count_eq: "kb_inv s \<Longrightarrow> kb_count s = (if unat (kb_read s) \<le> unat (kb_write s)
    then unat (kb_write s) - unat (kb_read s) else 256 + unat (kb_write s) - unat (kb_read s))"
  using kb_invD [of s] by (simp only: kb_count_def ring_count)

lemma kb_full_iff:
  assumes "kb_inv s"
  shows "((kb_write s + 1) mod 256 = kb_read s) = (kb_count s = 255)"
proof -
  have "((kb_write s + 1) mod 256 = kb_read s) = ((unat (kb_write s) + 1) mod 256 = unat (kb_read s))"
    using assms kb_succ [of "kb_write s"] by (simp add: kb_inv_def word_unat_eq_iff)
  then show ?thesis
    using kb_invD [OF assms] kb_count_eq [OF assms] by (auto simp: ring_add ring_Suc split: if_splits)
qed

lemma kb_empty_iff:
  assumes "kb_inv s"
  shows "(kb_read s = kb_write s) = (kb_count s = 0)"
  using kb_invD [OF assms] kb_count_eq [OF assms] by (auto simp: word_unat_eq_iff split: if_splits)

lemma kb_count_less: "kb_count s < 256"
  by (simp add: kb_count_def)

lemma kb_put_inv: "kb_inv s \<Longrightarrow> kb_inv (kb_put c s)"
  by (auto simp: kb_inv_def kb_put_def Let_def kb_succ_less)

lemma kb_put_chars:
  assumes inv: "kb_inv s"
  shows "kb_chars (kb_put c s) = (if length (kb_chars s) < 255 then kb_chars s @ [c] else kb_chars s)"
proof (cases "kb_count s = 255")
  case True
  then show ?thesis using kb_full_iff [OF inv] by (simp add: kb_put_def)
next
  case False
  note b = kb_invD [OF inv]
  have less: "kb_count s < 255" using False kb_count_less [of s] by simp
  let ?t = "s\<lparr>kb_buffer := (kb_buffer s)[unat (kb_write s) := c], kb_write := (kb_write s + 1) mod 256\<rparr>"
  have put: "kb_put c s = ?t" using False kb_full_iff [OF inv] by (simp add: kb_put_def)
  then have tinv: "kb_inv ?t" using kb_put_inv [OF inv, of c] by simp
  have w: "unat ((kb_write s + 1) mod 256) = (unat (kb_write s) + 1) mod 256"
    using inv by (simp add: kb_inv_def kb_succ)
  have cnt: "kb_count ?t = Suc (kb_count s)"
    using less b kb_count_eq [OF inv] kb_count_eq [OF tinv] w
    by (auto simp: ring_add ring_Suc split: if_splits)
  have pos: "(unat (kb_read s) + i) mod 256 = unat (kb_write s) \<longleftrightarrow> i = kb_count s" if "i \<le> kb_count s" for i
    using that less b kb_count_eq [OF inv] by (auto simp: ring_add ring_Suc split: if_splits)
  have other: "unat (kb_write s) \<noteq> (unat (kb_read s) + i) mod 256" if "i < kb_count s" for i
    using pos [of i] that by auto
  have upt: "[0..<Suc (kb_count s)] = [0..<kb_count s] @ [kb_count s]" by simp
  have "kb_chars ?t = map (\<lambda>i. (kb_buffer s)[unat (kb_write s) := c] ! ((unat (kb_read s) + i) mod 256))
      ([0..<kb_count s] @ [kb_count s])"
    by (simp only: kb_chars_def cnt upt) simp
  also have "\<dots> = kb_chars s @ [c]"
    using pos [of "kb_count s"] other b by (simp add: kb_chars_def)
  finally show ?thesis using less put by simp
qed

lemma kb_getchar_empty: "kb_inv s \<Longrightarrow> kb_chars s = [] \<Longrightarrow> keyboard_getchar s = None"
  by (simp add: keyboard_getchar_def kb_empty_iff kb_chars_def)

lemma kb_getchar_some:
  assumes inv: "kb_inv s" and chars: "kb_chars s = x # xs"
  shows "\<exists>s'. keyboard_getchar s = Some (x, s') \<and> kb_inv s' \<and> kb_chars s' = xs"
proof -
  note b = kb_invD [OF inv]
  have len: "kb_count s = Suc (length xs)" using chars length_kb_chars [of s] by simp
  let ?t = "s\<lparr>kb_read := (kb_read s + 1) mod 256\<rparr>"
  have tinv: "kb_inv ?t" using inv by (simp add: kb_inv_def kb_succ_less)
  have r: "unat ((kb_read s + 1) mod 256) = (unat (kb_read s) + 1) mod 256"
    using inv by (simp add: kb_inv_def kb_succ)
  have cnt: "kb_count ?t = length xs"
    using len b kb_count_eq [OF inv] kb_count_eq [OF tinv] r
    by (auto simp: ring_add ring_Suc split: if_splits)
  have nth: "kb_chars s ! i = kb_buffer s ! ((unat (kb_read s) + i) mod 256)" if "i < kb_count s" for i
    using that by (simp add: kb_chars_def)
  have "kb_chars ?t = xs"
  proof (rule nth_equalityI)
    fix i assume "i < length (kb_chars ?t)"
    then have i: "i < length xs" by (simp add: cnt)
    have "kb_chars ?t ! i = kb_buffer s ! (((unat (kb_read s) + 1) mod 256 + i) mod 256)"
      using i cnt r by (simp add: kb_chars_def)
    also have "\<dots> = kb_chars s ! Suc i"
      using nth [of "Suc i"] i len by (simp add: mod_add_left_eq)
    finally show "kb_chars ?t ! i = xs ! i" by (simp add: chars)
  qed (simp add: cnt)
  moreover have "x = kb_buffer s ! unat (kb_read s)"
    using nth [of 0] chars len b by simp
  ultimately show ?thesis
    using tinv len kb_empty_iff [OF inv] by (simp add: keyboard_getchar_def)
qed

interpretation kb: bounded_fifo kb_inv kb_chars kb_put keyboard_getchar 255
proof
  show "length (kb_chars s) \<le> 255" for s :: Kbd
    using kb_count_less [of s] by simp
qed (simp_all add: kb_put_inv kb_put_chars kb_getchar_empty kb_getchar_some)

subsection \<open>From scancodes to text\<close>

text \<open>What the scancodes say, given the state of the shift key: the characters typed.\<close>

definition kb_decode :: "bool \<Rightarrow> u8 \<Rightarrow> bytes" where
  "kb_decode shift k = (if k = 0x2a \<or> k = 0x36 \<or> k = 0xaa \<or> k = 0xb6 \<or> k AND 0x80 \<noteq> 0 \<or> kb_ascii shift k = 0
     then [] else [kb_ascii shift k])"

definition kb_shift_after :: "bool \<Rightarrow> u8 \<Rightarrow> bool" where
  "kb_shift_after shift k = (if k = 0x2a \<or> k = 0x36 then True
     else if k = 0xaa \<or> k = 0xb6 then False else shift)"

primrec kb_text :: "bool \<Rightarrow> u8 list \<Rightarrow> bytes" where
  "kb_text shift [] = []"
| "kb_text shift (k # ks) = kb_decode shift k @ kb_text (kb_shift_after shift k) ks"

lemma kb_put_shift [simp]: "kb_shift (kb_put c s) = kb_shift s"
  by (simp add: kb_put_def Let_def)

lemma kb_inv_shift [simp]: "kb_inv (s\<lparr>kb_shift := b\<rparr>) = kb_inv s" "kb_chars (s\<lparr>kb_shift := b\<rparr>) = kb_chars s"
  by (simp_all add: kb_inv_def kb_chars_def kb_count_def)

lemma kb_irq_shift: "kb_shift (keyboard_irq_handler k s) = kb_shift_after (kb_shift s) k"
  by (simp add: keyboard_irq_handler_def kb_shift_after_def Let_def)

lemma kb_irq_inv: "kb_inv s \<Longrightarrow> kb_inv (keyboard_irq_handler k s)"
  by (simp add: keyboard_irq_handler_def kb_put_inv Let_def)

lemma kb_irq_chars:
  "kb_inv s \<Longrightarrow> kb_chars (keyboard_irq_handler k s) =
     kb_chars s @ (if length (kb_chars s) < 255 then kb_decode (kb_shift s) k else [])"
  by (auto simp: keyboard_irq_handler_def kb_decode_def kb_put_chars Let_def)

lemma kb_decode_length: "length (kb_decode shift k) \<le> 1"
  by (simp add: kb_decode_def)

lemma kb_irqs_chars:
  "kb_inv s \<Longrightarrow> length (kb_chars s) + length (kb_text (kb_shift s) ks) \<le> 255 \<Longrightarrow>
   kb_inv (fold keyboard_irq_handler ks s) \<and>
   kb_chars (fold keyboard_irq_handler ks s) = kb_chars s @ kb_text (kb_shift s) ks"
proof (induction ks arbitrary: s)
  case (Cons k ks)
  have "kb_chars (keyboard_irq_handler k s) = kb_chars s @ kb_decode (kb_shift s) k"
    using Cons.prems by (cases "kb_decode (kb_shift s) k") (auto simp: kb_irq_chars)
  then show ?case
    using Cons.IH [of "keyboard_irq_handler k s"] Cons.prems by (simp add: kb_irq_inv kb_irq_shift)
qed simp

subsection \<open>The handler interrupts the reader\<close>

text \<open>
  \<open>keyboard_getchar\<close> is not atomic: an interrupt may come between any two of its accesses to
  the buffer. \<open>kb_pc\<close> is where the reader stands: it polls, it has seen a character, it has
  loaded the character and not yet moved \<open>buffer_read\<close>. \<open>got\<close> are the characters it has
  returned. The history of the keys is kept beside the driver and never read back from it:
  \<open>shift_down\<close> says whether a shift key is held, \<open>kept\<close> collects the characters the scancodes
  stand for, those aside that are typed while 255 characters are waiting to be read.
\<close>

datatype kb_pc = Poll | Load | Advance u8

record Kb_sys =
  sys_kbd :: Kbd
  sys_pc :: kb_pc
  got :: bytes
  kept :: bytes
  shift_down :: bool

inductive kb_step :: "Kb_sys \<Rightarrow> Kb_sys \<Rightarrow> bool" where
  irq: "kb_step S (S\<lparr>sys_kbd := keyboard_irq_handler k (sys_kbd S),
     kept := kept S @ (if length (kept S) - length (got S) < 255 then kb_decode (shift_down S) k else []),
     shift_down := kb_shift_after (shift_down S) k\<rparr>)"
| poll: "sys_pc S = Poll \<Longrightarrow> kb_read (sys_kbd S) \<noteq> kb_write (sys_kbd S) \<Longrightarrow> kb_step S (S\<lparr>sys_pc := Load\<rparr>)"
| load: "sys_pc S = Load \<Longrightarrow>
     kb_step S (S\<lparr>sys_pc := Advance (kb_buffer (sys_kbd S) ! unat (kb_read (sys_kbd S)))\<rparr>)"
| advance: "sys_pc S = Advance c \<Longrightarrow>
     kb_step S (S\<lparr>sys_pc := Poll, got := got S @ [c],
       sys_kbd := (sys_kbd S)\<lparr>kb_read := (kb_read (sys_kbd S) + 1) mod 256\<rparr>\<rparr>)"

inductive_cases kb_stepE: "kb_step S S'"

definition kb_sys_inv :: "Kb_sys \<Rightarrow> bool" where
  "kb_sys_inv S \<longleftrightarrow> kb_inv (sys_kbd S) \<and> got S @ kb_chars (sys_kbd S) = kept S \<and>
     kb_shift (sys_kbd S) = shift_down S \<and>
     (case sys_pc S of Poll \<Rightarrow> True | Load \<Rightarrow> kb_chars (sys_kbd S) \<noteq> []
      | Advance c \<Rightarrow> kb_chars (sys_kbd S) \<noteq> [] \<and> hd (kb_chars (sys_kbd S)) = c)"

lemma kb_getchar_head:
  assumes "kb_inv s" and "kb_chars s \<noteq> []"
  shows "hd (kb_chars s) = kb_buffer s ! unat (kb_read s)"
    and "kb_inv (s\<lparr>kb_read := (kb_read s + 1) mod 256\<rparr>)"
    and "kb_chars (s\<lparr>kb_read := (kb_read s + 1) mod 256\<rparr>) = tl (kb_chars s)"
proof -
  obtain x xs where "kb_chars s = x # xs" using assms(2) by (cases "kb_chars s") auto
  with kb_getchar_some [OF assms(1) this] show
    "hd (kb_chars s) = kb_buffer s ! unat (kb_read s)"
    "kb_inv (s\<lparr>kb_read := (kb_read s + 1) mod 256\<rparr>)"
    "kb_chars (s\<lparr>kb_read := (kb_read s + 1) mod 256\<rparr>) = tl (kb_chars s)"
    by (auto simp: keyboard_getchar_def split: if_splits)
qed

lemma kb_step_inv:
  assumes "kb_step S S'" and inv: "kb_sys_inv S"
  shows "kb_sys_inv S'"
  using assms(1)
proof (rule kb_stepE)
  fix k
  assume S': "S' = S\<lparr>sys_kbd := keyboard_irq_handler k (sys_kbd S),
     kept := kept S @ (if length (kept S) - length (got S) < 255 then kb_decode (shift_down S) k else []),
     shift_down := kb_shift_after (shift_down S) k\<rparr>"
  have kept: "got S @ kb_chars (sys_kbd S) = kept S" and ok: "kb_inv (sys_kbd S)"
    and shift: "kb_shift (sys_kbd S) = shift_down S"
    using inv by (simp_all add: kb_sys_inv_def)
  have "length (kept S) - length (got S) = length (kb_chars (sys_kbd S))"
    by (simp add: kept [symmetric])
  then have "kb_chars (keyboard_irq_handler k (sys_kbd S)) = kb_chars (sys_kbd S) @
      (if length (kept S) - length (got S) < 255 then kb_decode (shift_down S) k else [])"
    using kb_irq_chars [OF ok, of k] by (simp add: shift)
  then show ?thesis
    using inv S' shift by (auto simp: kb_sys_inv_def kb_irq_inv kb_irq_shift split: kb_pc.splits)
next
  assume "S' = S\<lparr>sys_pc := Load\<rparr>" "kb_read (sys_kbd S) \<noteq> kb_write (sys_kbd S)"
  then show ?thesis
    using inv kb_empty_iff [of "sys_kbd S"] by (auto simp: kb_sys_inv_def kb_chars_def)
next
  assume "S' = S\<lparr>sys_pc := Advance (kb_buffer (sys_kbd S) ! unat (kb_read (sys_kbd S)))\<rparr>" "sys_pc S = Load"
  then show ?thesis
    using inv kb_getchar_head [of "sys_kbd S"] by (simp add: kb_sys_inv_def)
next
  fix c
  assume "S' = S\<lparr>sys_pc := Poll, got := got S @ [c],
       sys_kbd := (sys_kbd S)\<lparr>kb_read := (kb_read (sys_kbd S) + 1) mod 256\<rparr>\<rparr>" "sys_pc S = Advance c"
  then show ?thesis
    using inv kb_getchar_head [of "sys_kbd S"] by (cases "kb_chars (sys_kbd S)") (auto simp: kb_sys_inv_def)
qed

definition kb_start :: "Kbd \<Rightarrow> Kb_sys" where
  "kb_start s = \<lparr>sys_kbd = keyboard_init_irq s, sys_pc = Poll, got = [], kept = [],
     shift_down = kb_shift s\<rparr>"

lemma kb_init_inv: "length (kb_buffer s) = 256 \<Longrightarrow> kb_inv (keyboard_init_irq s) \<and> kb_chars (keyboard_init_irq s) = []"
  by (simp add: keyboard_init_irq_def kb_inv_def kb_chars_def kb_count_def)

lemma kb_reach_inv: "kb_step\<^sup>*\<^sup>* (kb_start s) S \<Longrightarrow> length (kb_buffer s) = 256 \<Longrightarrow> kb_sys_inv S"
proof (induction rule: rtranclp_induct)
  case base
  then show ?case using kb_init_inv [of s] by (simp add: kb_sys_inv_def kb_start_def keyboard_init_irq_def)
qed (simp add: kb_step_inv)

subsection \<open>The properties\<close>

text \<open>
  The ring buffer is a bounded FIFO, seen from any sequence of stores and reads: what has
  been read, followed by what is still buffered, is what was there and what was stored, in
  order, and complete as long as no more than 255 characters have to be kept.
\<close>

theorem keyboard_buffer_fifo:
  assumes "kb_inv s" and "length (kb_chars s) + length (enqueued ops) \<le> 255"
  shows "fst (kb.run ops s) @ kb_chars (snd (kb.run ops s)) = kb_chars s @ enqueued ops"
  using assms by (rule kb.run_lossless)

definition kb_sample :: Kbd where
  "kb_sample = \<lparr>kb_buffer = replicate 256 0, kb_read = 255, kb_write = 255, kb_shift = False\<rparr>"

lemma kb_sample_inv: "kb_inv kb_sample" "kb_chars kb_sample = []" "length (kb_buffer kb_sample) = 256"
  by (simp_all add: kb_sample_def kb_inv_def kb_chars_def kb_count_def)

lemma keyboard_buffer_fifo_witness:
  "fst (kb.run [Enq 65, Deq, Enq 66, Enq 67] kb_sample) @
     kb_chars (snd (kb.run [Enq 65, Deq, Enq 66, Enq 67] kb_sample)) = [65, 66, 67]"
  using keyboard_buffer_fifo [OF kb_sample_inv(1), of "[Enq 65, Deq, Enq 66, Enq 67]"]
  by (simp add: kb_sample_inv(2))

text \<open>
  Typed text reads back. Handling the scancodes \<open>ks\<close> leaves in the buffer, behind what
  was there, exactly the characters \<open>ks\<close> stand for, as long as they fit.
\<close>

theorem keyboard_text_buffered:
  assumes "kb_inv s" and "length (kb_chars s) + length (kb_text (kb_shift s) ks) \<le> 255"
  shows "kb_chars (fold keyboard_irq_handler ks s) = kb_chars s @ kb_text (kb_shift s) ks"
  using kb_irqs_chars [OF assms] by simp

lemma keyboard_text_buffered_witness:
  "kb_chars (fold keyboard_irq_handler [0x2a, 0x23, 0xa3, 0xaa, 0x17, 0x97] kb_sample) = [0x48, 0x69]"
proof -
  have "kb_text (kb_shift kb_sample) [0x2a, 0x23, 0xa3, 0xaa, 0x17, 0x97] = [0x48, 0x69]"
    by (simp add: kb_sample_def kb_decode_def kb_shift_after_def kb_ascii_def scancode_to_ascii_def
        scancode_to_ascii_shifted_def)
  then show ?thesis
    using keyboard_text_buffered [OF kb_sample_inv(1), of "[0x2a, 0x23, 0xa3, 0xaa, 0x17, 0x97]"]
    by (simp add: kb_sample_inv(2))
qed

text \<open>
  C29: \<open>keyboard_getchar\<close> is correct under interrupts. Wherever the handler interrupts the
  reader, what the reader has returned, followed by what is in the ring buffer, is exactly the
  text the scancodes so far stand for, in order, none lost and none twice; only a character
  typed while 255 characters are waiting to be read is dropped.
\<close>

theorem keyboard_reader_interrupted:
  assumes "length (kb_buffer s) = 256" and "kb_step\<^sup>*\<^sup>* (kb_start s) S"
  shows "got S @ kb_chars (sys_kbd S) = kept S"
  using kb_reach_inv [OF assms(2,1)] by (simp add: kb_sys_inv_def)

text \<open>Shift is pressed, then \<open>h\<close>: the history holds \<open>H\<close>, and the ring buffer too.\<close>

lemma keyboard_reader_interrupted_witness:
  "\<exists>S. kb_step\<^sup>*\<^sup>* (kb_start kb_sample) S \<and> kept S = [0x48] \<and> got S @ kb_chars (sys_kbd S) = [0x48]"
proof -
  let ?S0 = "kb_start kb_sample"
  let ?S1 = "?S0\<lparr>sys_kbd := keyboard_irq_handler 0x2a (sys_kbd ?S0), kept := kept ?S0 @
    (if length (kept ?S0) - length (got ?S0) < 255 then kb_decode (shift_down ?S0) 0x2a else []),
    shift_down := kb_shift_after (shift_down ?S0) 0x2a\<rparr>"
  let ?S2 = "?S1\<lparr>sys_kbd := keyboard_irq_handler 0x23 (sys_kbd ?S1), kept := kept ?S1 @
    (if length (kept ?S1) - length (got ?S1) < 255 then kb_decode (shift_down ?S1) 0x23 else []),
    shift_down := kb_shift_after (shift_down ?S1) 0x23\<rparr>"
  have "kb_step ?S0 ?S1" "kb_step ?S1 ?S2" by (rule kb_step.irq)+
  then have reach: "kb_step\<^sup>*\<^sup>* ?S0 ?S2"
    by (rule converse_rtranclp_into_rtranclp [OF _ r_into_rtranclp])
  have kept: "kept ?S2 = [0x48]"
    by (simp add: kb_start_def kb_decode_def kb_shift_after_def kb_ascii_def scancode_to_ascii_def
        kb_sample_def scancode_to_ascii_shifted_def)
  show ?thesis
    using keyboard_reader_interrupted [OF kb_sample_inv(3) reach] reach kept
    by (intro exI [of _ ?S2]) (simp only: simp_thms)
qed

end
