(* ===== verification/Interrupts.thy ===== *)
theory Interrupts
  imports Tty Keyboard
begin

unbundle bit_operations_syntax

section \<open>Interrupts and the timer (kernel/idt.c, driver/timer.c)\<close>

text \<open>
  The interrupt table, the handlers registered for the vectors, and the two devices that use
  them. The handlers of the kernel are the constructors of \<open>isr\<close>; \<open>call\<close> runs one. The
  addresses of the assembly entry stubs \<open>isr0\<close> to \<open>irq15\<close> are the parameter \<open>stub\<close>,
  those of the static tables the parameter \<open>idt_adr\<close>; what \<open>idt_flush\<close> does is to load the
  register \<open>idtr\<close>. An access past the handler table is \<open>undef\<close>.
\<close>

subsection \<open>The code\<close>

datatype isr = Timer_callback | Keyboard_irq_handler

record idt_entry =
  ie_base_low :: u16
  ie_selector :: u16
  ie_zero :: u8
  ie_flags :: u8
  ie_base_high :: u16

record Kernel = Tty +
  tick_count :: u32
  k_kbd :: Kbd
  idt_entries :: "idt_entry list"
  interrupt_handlers :: "isr option list"
  idtr :: "(u16 \<times> u32) option"

definition null_gate :: idt_entry where
  "null_gate = \<lparr>ie_base_low = 0, ie_selector = 0, ie_zero = 0, ie_flags = 0, ie_base_high = 0\<rparr>"

definition pic_remap :: "('z Io_scheme, unit) cm" where
  "pic_remap =
     seq (outb 0x20 0x11) (\<lambda>_. seq (outb 0xa0 0x11) (\<lambda>_.
     seq (outb 0x21 0x20) (\<lambda>_. seq (outb 0xa1 0x28) (\<lambda>_.
     seq (outb 0x21 0x04) (\<lambda>_. seq (outb 0xa1 0x02) (\<lambda>_.
     seq (outb 0x21 0x01) (\<lambda>_. seq (outb 0xa1 0x01) (\<lambda>_.
     seq (outb 0x21 0x00) (\<lambda>_. outb 0xa1 0x00)))))))))"

definition idt_set_gate :: "u8 \<Rightarrow> u32 \<Rightarrow> u16 \<Rightarrow> u8 \<Rightarrow> ('z Kernel_scheme, unit) cm" where
  "idt_set_gate num base sel flags = modify (\<lambda>s. s\<lparr>idt_entries := (idt_entries s)[unat num :=
     \<lparr>ie_base_low = ucast (base AND 0xffff), ie_selector = sel, ie_zero = 0, ie_flags = flags,
      ie_base_high = ucast (drop_bit 16 base AND 0xffff)\<rparr>]\<rparr>)"

text \<open>The calls of \<open>idt_set_gate\<close> for the vectors of the list, in order.\<close>

primrec set_gates :: "(nat \<Rightarrow> u32) \<Rightarrow> nat list \<Rightarrow> ('z Kernel_scheme, unit) cm" where
  "set_gates stub [] = ret ()"
| "set_gates stub (i # is) =
     seq (idt_set_gate (of_nat i) (stub i) 0x08 0x8e) (\<lambda>_. set_gates stub is)"

definition idt_init :: "(nat \<Rightarrow> u32) \<Rightarrow> u32 \<Rightarrow> ('z Kernel_scheme, unit) cm" where
  "idt_init stub idt_adr =
     seq (modify (\<lambda>s. s\<lparr>idt_entries := replicate 256 null_gate,
       interrupt_handlers := replicate 256 None\<rparr>)) (\<lambda>_.
     seq pic_remap (\<lambda>_.
     seq (set_gates stub [0..<48]) (\<lambda>_.
     modify (\<lambda>s. s\<lparr>idtr := Some (8 * 256 - 1, idt_adr)\<rparr>))))"

definition register_interrupt_handler :: "u8 \<Rightarrow> isr \<Rightarrow> ('z Kernel_scheme, unit) cm" where
  "register_interrupt_handler n handler =
     modify (\<lambda>s. s\<lparr>interrupt_handlers := (interrupt_handlers s)[unat n := Some handler]\<rparr>)"

definition timer_callback :: "('z Kernel_scheme, unit) cm" where
  "timer_callback = modify (\<lambda>s. s\<lparr>tick_count := tick_count s + 1\<rparr>)"

text \<open>The keyboard's handler with its read of the data port.\<close>

definition keyboard_isr :: "device \<Rightarrow> ('z Kernel_scheme, unit) cm" where
  "keyboard_isr dev = seq (inb dev 0x60) (\<lambda>scancode.
     modify (\<lambda>s. s\<lparr>k_kbd := keyboard_irq_handler scancode (k_kbd s)\<rparr>))"

primrec call :: "device \<Rightarrow> isr \<Rightarrow> ('z Kernel_scheme, unit) cm" where
  "call dev Timer_callback = timer_callback"
| "call dev Keyboard_irq_handler = keyboard_isr dev"

definition isr_handler :: "device \<Rightarrow> u32 \<Rightarrow> ('z Kernel_scheme, unit) cm" where
  "isr_handler dev int_no = seq (reads interrupt_handlers) (\<lambda>handlers.
     if unat int_no < length handlers then
       (case handlers ! unat int_no of None \<Rightarrow> ret () | Some handler \<Rightarrow> call dev handler)
     else undef)"

definition irq_handler :: "device \<Rightarrow> u32 \<Rightarrow> ('z Kernel_scheme, unit) cm" where
  "irq_handler dev int_no =
     seq (if 40 \<le> int_no then outb 0xa0 0x20 else ret ()) (\<lambda>_.
     seq (outb 0x20 0x20) (\<lambda>_.
     isr_handler dev int_no))"

definition timer_init :: "u32 \<Rightarrow> ('z Kernel_scheme, unit) cm" where
  "timer_init frequency =
     seq (register_interrupt_handler 32 Timer_callback) (\<lambda>_.
     if frequency = 0 then undef
     else
       let divisor = 1193180 div frequency in
       seq (outb 0x43 0x36) (\<lambda>_.
       seq (outb 0x40 (ucast (divisor AND 0xff))) (\<lambda>_.
       outb 0x40 (ucast (drop_bit 8 divisor AND 0xff)))))"

definition timer_get_ticks :: "('z Kernel_scheme, u32) cm" where
  "timer_get_ticks = reads tick_count"

definition keyboard_init :: "('z Kernel_scheme, unit) cm" where
  "keyboard_init =
     seq (modify (\<lambda>s. s\<lparr>k_kbd := keyboard_init_irq (k_kbd s)\<rparr>)) (\<lambda>_.
     register_interrupt_handler 33 Keyboard_irq_handler)"

text \<open>
  \<open>timer_wait\<close> runs with interrupts enabled, so they come between any two of its
  instructions. A schedule lists, in order, the vectors served before the first test of
  \<open>tick_count\<close>, and for the \<open>i\<close>-th round those served between the test and \<open>hlt\<close>, the one
  that ends \<open>hlt\<close>, and those served after it and before the next test. The handlers do not
  interrupt each other: the gates are interrupt gates.
\<close>

record irq_schedule =
  at_start :: "u32 list"
  before_hlt :: "nat \<Rightarrow> u32 list"
  wakes :: "nat \<Rightarrow> u32"
  after_wake :: "nat \<Rightarrow> u32 list"

primrec take_irqs :: "device \<Rightarrow> u32 list \<Rightarrow> ('z Kernel_scheme, unit) cm" where
  "take_irqs dev [] = ret ()"
| "take_irqs dev (n # ns) = seq (irq_handler dev n) (\<lambda>_. take_irqs dev ns)"

definition timer_wait_step :: "device \<Rightarrow> irq_schedule \<Rightarrow> u32 \<Rightarrow> nat \<Rightarrow> ('z Kernel_scheme, nat + unit) cm" where
  "timer_wait_step dev sch target i = seq (reads tick_count) (\<lambda>t.
     if t < target then
       seq (take_irqs dev (before_hlt sch i)) (\<lambda>_.
       seq (irq_handler dev (wakes sch i)) (\<lambda>_.
       seq (take_irqs dev (after_wake sch i)) (\<lambda>_. ret (Inl (i + 1)))))
     else ret (Inr ()))"

definition timer_wait :: "device \<Rightarrow> irq_schedule \<Rightarrow> u32 \<Rightarrow> ('z Kernel_scheme, unit) cm" where
  "timer_wait dev sch ticks = seq (reads tick_count) (\<lambda>t.
     seq (take_irqs dev (at_start sch)) (\<lambda>_.
     loop (timer_wait_step dev sch (t + ticks)) 0))"

subsection \<open>The table\<close>

definition gate_base :: "idt_entry \<Rightarrow> u32" where
  "gate_base e = ucast (ie_base_low e) OR push_bit 16 (ucast (ie_base_high e))"

lemma gate_base_set:
  "gate_base \<lparr>ie_base_low = ucast (base AND 0xffff), ie_selector = sel, ie_zero = z, ie_flags = fl,
     ie_base_high = ucast (drop_bit 16 base AND 0xffff)\<rparr> = base"
proof -
  have mask: "(0xffff :: u32) = mask 16" by (simp add: mask_eq_exp_minus_1)
  show ?thesis
    unfolding gate_base_def mask idt_entry.simps
  proof (rule bit_word_eqI)
    fix n assume "n < LENGTH(32)"
    then show "bit (ucast (ucast (base AND mask 16) :: u16) OR push_bit 16 (ucast (ucast (drop_bit 16 base AND mask 16) :: u16)) :: u32) n =
        bit base n"
      by (cases "n < 16") (auto simp: bit_simps)
  qed
qed

definition gates_ok :: "(nat \<Rightarrow> u32) \<Rightarrow> idt_entry list \<Rightarrow> nat \<Rightarrow> bool" where
  "gates_ok stub es n \<longleftrightarrow> length es = 256 \<and>
     (\<forall>i < 256. if i < n then gate_base (es ! i) = stub i \<and> ie_selector (es ! i) = 0x08 \<and>
        ie_flags (es ! i) = 0x8e \<and> ie_zero (es ! i) = 0 else es ! i = null_gate)"

lemma wp_set_gates:
  assumes "n \<le> 48" and "gates_ok stub (idt_entries s) n"
    and Q: "\<And>es. gates_ok stub es 48 \<Longrightarrow> Q () (s\<lparr>idt_entries := es\<rparr>)"
  shows "wp (set_gates stub [n..<48]) Q E s"
  using assms
proof (induction "48 - n" arbitrary: n s)
  case 0
  then show ?case using 0(4) [of "idt_entries s"] by (simp add: wp_simps)
next
  case (Suc k)
  let ?e = "\<lparr>ie_base_low = ucast (stub n AND 0xffff), ie_selector = 0x08, ie_zero = 0, ie_flags = 0x8e,
      ie_base_high = ucast (drop_bit 16 (stub n) AND 0xffff)\<rparr>"
  have n: "n < 48" using Suc(2) by simp
  then have num: "unat (of_nat n :: u8) = n" by (simp add: unat_of_nat)
  have "gates_ok stub ((idt_entries s)[n := ?e]) (Suc n)"
    using Suc.prems(2) n gate_base_set [of "stub n"] by (auto simp: gates_ok_def nth_list_update less_Suc_eq)
  then have "wp (set_gates stub [Suc n..<48]) Q E (s\<lparr>idt_entries := (idt_entries s)[n := ?e]\<rparr>)"
    using Suc(2) n Suc.prems(3) by (intro Suc(1)) simp_all
  then show ?case using n num by (simp add: upt_conv_Cons wp_simps idt_set_gate_def)
qed

lemma pic_remap_same:
  assumes "\<And>h. \<not> dlab (io_hist s) \<longrightarrow> line_sent [] (io_hist s) h \<Longrightarrow> Q () (s\<lparr>io_hist := h\<rparr>)"
  shows "wp pic_remap Q E s"
  using assms by (simp add: pic_remap_def wp_simps line_sent_def)

subsection \<open>Dispatch\<close>

definition handlers_ok :: "'z Kernel_scheme \<Rightarrow> bool" where
  "handlers_ok s \<longleftrightarrow> interrupt_handlers s =
     (replicate 256 None)[32 := Some Timer_callback, 33 := Some Keyboard_irq_handler]"

definition eoi :: "u32 \<Rightarrow> history \<Rightarrow> history" where
  "eoi n h = Out8 0x20 0x20 # (if 40 \<le> n then Out8 0xa0 0x20 # h else h)"

text \<open>What the interrupt \<open>n\<close> leaves of the kernel's state.\<close>

definition after_irq :: "device \<Rightarrow> u32 \<Rightarrow> 'z Kernel_scheme \<Rightarrow> 'z Kernel_scheme" where
  "after_irq dev n s = (let h = eoi n (io_hist s); k = ucast (dev h 0x60) in
     if n = 32 then s\<lparr>io_hist := h, tick_count := tick_count s + 1\<rparr>
     else if n = 33 then s\<lparr>io_hist := In8 0x60 k # h, k_kbd := keyboard_irq_handler k (k_kbd s)\<rparr>
     else s\<lparr>io_hist := h\<rparr>)"

lemma wp_irq_handler:
  assumes h: "handlers_ok s" and n: "n < 256" and Q: "Q () (after_irq dev n s)"
  shows "wp (irq_handler dev n) Q E s"
proof -
  let ?s = "s\<lparr>io_hist := eoi n (io_hist s)\<rparr>"
  have u: "unat n < 256" "(unat n = 32) = (n = 32)" "(unat n = 33) = (n = 33)"
    using n by (simp_all add: word_less_nat_alt word_unat_eq_iff)
  have "interrupt_handlers s ! unat n = (if n = 32 then Some Timer_callback
      else if n = 33 then Some Keyboard_irq_handler else None)" "length (interrupt_handlers s) = 256"
    using h u by (auto simp: handlers_ok_def nth_list_update)
  then have "wp (isr_handler dev n) Q E ?s"
    using Q u by (auto simp: isr_handler_def wp_simps after_irq_def timer_callback_def keyboard_isr_def Let_def)
  then show ?thesis by (cases "40 \<le> n") (simp_all add: irq_handler_def wp_simps eoi_def)
qed

lemma after_irq_handlers [simp]: "handlers_ok (after_irq dev n s) = handlers_ok s"
  by (simp add: after_irq_def handlers_ok_def Let_def)

subsection \<open>Waiting\<close>

text \<open>The interrupts of round \<open>i\<close>, and the timer interrupts served before the test of round \<open>k\<close>.\<close>

definition round_irqs :: "irq_schedule \<Rightarrow> nat \<Rightarrow> u32 list" where
  "round_irqs sch i = before_hlt sch i @ wakes sch i # after_wake sch i"

primrec ticks_in :: "irq_schedule \<Rightarrow> nat \<Rightarrow> nat" where
  "ticks_in sch 0 = count_list (at_start sch) 32"
| "ticks_in sch (Suc i) = ticks_in sch i + count_list (round_irqs sch i) 32"

definition schedule_ok :: "irq_schedule \<Rightarrow> bool" where
  "schedule_ok sch \<longleftrightarrow> (\<forall>n \<in> set (at_start sch). n < 256) \<and> (\<forall>i. \<forall>n \<in> set (round_irqs sch i). n < 256) \<and>
     (\<forall>i. \<exists>j \<ge> i. 32 \<in> set (round_irqs sch j))"

text \<open>At most \<open>b\<close> timer interrupts between two tests.\<close>

definition ticks_per_round :: "irq_schedule \<Rightarrow> nat \<Rightarrow> bool" where
  "ticks_per_round sch b \<longleftrightarrow> count_list (at_start sch) 32 \<le> b \<and> (\<forall>i. count_list (round_irqs sch i) 32 \<le> b)"

lemma ticks_mono: "i \<le> j \<Longrightarrow> ticks_in sch i \<le> ticks_in sch j"
  by (induction j) (auto simp: le_Suc_eq)

lemma ticks_reached:
  assumes "schedule_ok sch"
  shows "\<exists>k. n \<le> ticks_in sch k"
proof (induction n)
  case 0
  then show ?case by simp
next
  case (Suc n)
  then obtain k where k: "n \<le> ticks_in sch k" by blast
  obtain j where j: "k \<le> j" "32 \<in> set (round_irqs sch j)"
    using assms unfolding schedule_ok_def by blast
  have "count_list (round_irqs sch j) 32 \<noteq> 0" using j(2) by (simp add: count_list_0_iff)
  then have "Suc n \<le> ticks_in sch (Suc j)" using k ticks_mono [OF j(1), of sch] by simp
  then show ?case by blast
qed

lemma after_irq_tick: "tick_count (after_irq dev n s) = tick_count s + (if n = 32 then 1 else 0)"
  by (simp add: after_irq_def Let_def)

lemma wp_take_irqs:
  assumes "handlers_ok s" and "\<forall>n \<in> set ns. n < 256"
    and "unat (tick_count s) + count_list ns 32 < 2 ^ 32"
    and "\<And>s'. handlers_ok s' \<Longrightarrow> unat (tick_count s') = unat (tick_count s) + count_list ns 32 \<Longrightarrow> Q () s'"
  shows "wp (take_irqs dev ns) Q E s"
  using assms
proof (induction ns arbitrary: s)
  case (Cons n ns)
  let ?u = "after_irq dev n s"
  have tick: "unat (tick_count ?u) = unat (tick_count s) + (if n = 32 then 1 else 0)"
    using Cons.prems(3) by (simp add: after_irq_tick unat_word_ariths split: if_splits)
  have "wp (take_irqs dev ns) Q E ?u"
    using Cons.prems tick by (intro Cons.IH) (auto split: if_splits)
  then show ?case using Cons.prems(1,2) by (auto simp: wp_simps intro!: wp_irq_handler)
qed (simp add: wp_simps)

lemma seq_assoc: "seq (seq m f) g = seq m (\<lambda>x. seq (f x) g)"
  by (rule ext) (simp add: seq_def split: option.split prod.split sum.split)

lemma seq_ret: "seq (ret x) f = f x"
  by (rule ext) (simp add: seq_def ret_def)

lemma take_irqs_append: "take_irqs dev (ns @ ms) = seq (take_irqs dev ns) (\<lambda>_. take_irqs dev ms)"
  by (induction ns) (simp_all add: seq_assoc seq_ret)

lemma wp_timer_round: "tick_count s < target \<Longrightarrow> wp (timer_wait_step dev sch target i) Q E s =
    wp (take_irqs dev (round_irqs sch i)) (\<lambda>_. Q (Inl (i + 1))) E s"
  unfolding timer_wait_step_def round_irqs_def take_irqs_append take_irqs.simps wp_seq_fun wp_reads wp_ret
  by (simp only: if_True) (simp only: wp_seq_fun, simp only: wp_ret)

lemma wp_round_irqs:
  assumes h: "handlers_ok s" and sch: "schedule_ok sch"
    and t: "unat (tick_count s) + count_list (round_irqs sch i) 32 < 2 ^ 32"
    and Q: "\<And>s'. handlers_ok s' \<Longrightarrow>
      unat (tick_count s') = unat (tick_count s) + count_list (round_irqs sch i) 32 \<Longrightarrow> Q (Inl (i + 1)) s'"
    and less: "tick_count s < target"
  shows "wp (timer_wait_step dev sch target i) Q E s"
proof -
  have v: "\<forall>n \<in> set (round_irqs sch i). n < 256" using sch by (simp add: schedule_ok_def)
  have "wp (take_irqs dev (round_irqs sch i)) (\<lambda>_. Q (Inl (i + 1))) E s"
    by (rule wp_take_irqs [OF h v t]) (rule Q)
  then show ?thesis by (simp only: wp_timer_round [OF less])
qed

text \<open>The number of ticks that have passed when \<open>timer_wait\<close> returns, before the test of round \<open>k\<close>.\<close>

definition waited :: "irq_schedule \<Rightarrow> nat \<Rightarrow> nat \<Rightarrow> nat \<Rightarrow> bool" where
  "waited sch ticks k n \<longleftrightarrow> n = ticks_in sch k \<and> ticks \<le> n \<and> (\<forall>j < k. ticks_in sch j < ticks)"

lemma wp_timer_wait_loop:
  fixes s :: "'z Kernel_scheme"
  assumes h: "handlers_ok s" and sch: "schedule_ok sch" and b: "ticks_per_round sch b"
    and start: "unat (tick_count s) = t + ticks_in sch 0"
    and room: "t + ticks + b \<le> 2 ^ 32" and target: "unat target = t + ticks"
    and Q: "\<And>s' k. waited sch ticks k (unat (tick_count s') - t) \<Longrightarrow> t \<le> unat (tick_count s') \<Longrightarrow> Q () s'"
  shows "wp (loop (timer_wait_step dev sch target) 0) Q E s"
proof -
  obtain k where k: "ticks \<le> ticks_in sch k" using ticks_reached [OF sch] by blast
  show ?thesis
  proof (rule wp_loop [where m = "\<lambda>i _. k - i" and
      I = "\<lambda>i u. (\<forall>j < i. ticks_in sch j < ticks) \<and> handlers_ok u \<and> unat (tick_count u) = t + ticks_in sch i"])
    fix i :: nat and u :: "'z Kernel_scheme"
    assume I: "(\<forall>j < i. ticks_in sch j < ticks) \<and> handlers_ok u \<and> unat (tick_count u) = t + ticks_in sch i"
    show "wp (timer_wait_step dev sch target i) (\<lambda>y s'. case y of
        Inl i' \<Rightarrow> ((\<forall>j < i'. ticks_in sch j < ticks) \<and> handlers_ok s' \<and> unat (tick_count s') = t + ticks_in sch i') \<and>
          k - i' < k - i
      | Inr v \<Rightarrow> Q v s') E u"
    proof (cases "tick_count u < target")
      case less: True
      then have l: "ticks_in sch i < ticks" using I target by (simp add: word_less_nat_alt)
      then have i: "i < k" using k ticks_mono [of k i sch] by (cases "i < k") auto
      have "count_list (round_irqs sch i) 32 \<le> b" using b by (simp add: ticks_per_round_def)
      then have "unat (tick_count u) + count_list (round_irqs sch i) 32 < 2 ^ 32" using I l room by simp
      then show ?thesis
        using I l i less by (intro wp_round_irqs [OF _ sch]) (auto simp: less_Suc_eq)
    next
      case False
      then have "waited sch ticks i (unat (tick_count u) - t)"
        using I target by (simp add: waited_def word_less_nat_alt)
      then show ?thesis using False I Q by (simp add: timer_wait_step_def wp_simps)
    qed
  qed (use h start in simp)
qed

lemma wp_timer_wait:
  fixes s :: "'z Kernel_scheme"
  assumes h: "handlers_ok s" and sch: "schedule_ok sch" and b: "ticks_per_round sch b"
    and t: "unat (tick_count s) + b < 2 ^ 32"
    and room: "unat (tick_count s) + unat ticks + b \<le> 2 ^ 32 \<or> 2 ^ 32 \<le> unat (tick_count s) + unat ticks"
    and Q: "\<And>s' k n. unat (tick_count s') = unat (tick_count s) + n \<Longrightarrow>
      (if unat (tick_count s) + unat ticks < 2 ^ 32 then waited sch (unat ticks) k n else n = ticks_in sch 0) \<Longrightarrow> Q () s'"
  shows "wp (timer_wait dev sch ticks) Q E s"
proof -
  let ?t = "tick_count s"
  have b0: "count_list (at_start sch) 32 \<le> b" using b by (simp add: ticks_per_round_def)
  have "wp (take_irqs dev (at_start sch)) (\<lambda>_. wp (loop (timer_wait_step dev sch (?t + ticks)) 0) Q E) E s"
  proof (rule wp_take_irqs [OF h])
    fix u :: "'z Kernel_scheme"
    assume u: "handlers_ok u" "unat (tick_count u) = unat ?t + count_list (at_start sch) 32"
    show "wp (loop (timer_wait_step dev sch (?t + ticks)) 0) Q E u"
    proof (cases "unat ?t + unat ticks < 2 ^ 32")
      case True
      then have sum: "unat (?t + ticks) = unat ?t + unat ticks" by (simp add: unat_word_ariths)
      show ?thesis
      proof (rule wp_timer_wait_loop [OF u(1) sch b _ _ sum])
        show "Q () s'" if "waited sch (unat ticks) k (unat (tick_count s') - unat ?t)" "unat ?t \<le> unat (tick_count s')" for s' k
          using Q [of s' "unat (tick_count s') - unat ?t" k] that True by simp
      qed (use u room True in simp_all)
    next
      case False
      then have "unat (?t + ticks) < unat ?t" using u32_less [of ?t] u32_less [of ticks]
        by (simp add: unat_word_ariths mod_if) arith
      then have "\<not> tick_count u < ?t + ticks" using u(2) by (simp add: word_less_nat_alt)
      then show ?thesis using False Q [of u "ticks_in sch 0"] u(2)
        by (simp add: loop_unfold timer_wait_step_def wp_simps)
    qed
  qed (use sch b0 t in \<open>auto simp: schedule_ok_def\<close>)
  then show ?thesis by (simp add: timer_wait_def wp_simps)
qed

subsection \<open>Properties\<close>

text \<open>The reload value of the timer chip's channel 0: the last two bytes written to it, the low one first.\<close>

fun pit_bytes :: "history \<Rightarrow> bytes" where
  "pit_bytes (Out8 p v # h) = (if p = 0x40 then v # pit_bytes h else pit_bytes h)"
| "pit_bytes (_ # h) = pit_bytes h"
| "pit_bytes [] = []"

definition pit_reload :: "history \<Rightarrow> nat" where
  "pit_reload h = (case pit_bytes h of hi # lo # _ \<Rightarrow> unat hi * 256 + unat lo | _ \<Rightarrow> 0)"

lemma reload_bytes:
  "unat (ucast (drop_bit 8 d AND 0xff) :: u8) * 256 + unat (ucast (d AND 0xff) :: u8) = unat (d :: u32) mod 65536"
proof -
  have mask: "(0xff :: u32) = mask 8" by (simp add: mask_eq_exp_minus_1)
  have b: "unat (ucast (e AND 0xff) :: u8) = unat (e :: u32) mod 256" for e
  proof -
    have "(ucast (e AND 0xff) :: u8) = ucast e"
      unfolding mask by (rule bit_word_eqI) (auto simp: bit_simps)
    then show ?thesis by (simp add: unsigned_ucast_eq take_bit_eq_mod)
  qed
  have "unat (drop_bit 8 d) = unat d div 256" by (simp add: drop_bit_eq_div unat_div)
  moreover have "unat d mod 65536 = (unat d div 256 mod 256) * 256 + unat d mod 256"
    using mod_mult2_eq [of "unat d" 256 256] by simp
  ultimately show ?thesis by (simp only: b)
qed

text \<open>C38: after \<open>idt_init\<close>, \<open>timer_init\<close> and the keyboard's initialisation, as \<open>kmain\<close> calls
  them, each of the 48 vectors leads to its stub through a present 32-bit interrupt gate of
  the kernel's code segment, all others are null gates, the processor has the table, exactly
  the timer and the keyboard have handlers, and the timer chip counts down from the divisor
  modulo 2^16.\<close>

theorem interrupt_setup:
  assumes "frequency \<noteq> 0"
  shows "wp (seq (idt_init stub adr) (\<lambda>_. seq (timer_init frequency) (\<lambda>_. keyboard_init))) (\<lambda>_ s'.
      gates_ok stub (idt_entries s') 48 \<and> idtr s' = Some (2047, adr) \<and> handlers_ok s' \<and>
      kb_chars (k_kbd s') = [] \<and> tick_count s' = tick_count s \<and>
      pit_reload (io_hist s') = 1193180 div unat frequency mod 65536) (\<lambda>_ _. False) s"
proof -
  have start: "gates_ok stub (replicate 256 null_gate) 0" by (simp add: gates_ok_def)
  have kb: "kb_chars (keyboard_init_irq k) = []" for k
    by (simp add: keyboard_init_irq_def kb_chars_def kb_count_def)
  have "unat ((1193180 :: u32) div frequency) = 1193180 div unat frequency" by (simp add: unat_div)
  then have pit: "unat (ucast (drop_bit 8 (1193180 div frequency) AND 0xff) :: u8) * 256 +
      unat (ucast ((1193180 div frequency) AND 0xff) :: u8) = 1193180 div unat frequency mod 65536"
    using reload_bytes [of "1193180 div frequency"] by simp
  show ?thesis
    unfolding idt_init_def wp_seq_fun wp_modify
    by (rule pic_remap_same, rule wp_set_gates [of 0])
      (use assms start pit in \<open>simp_all add: wp_simps wp_modify timer_init_def Let_def
        register_interrupt_handler_def keyboard_init_def handlers_ok_def kb pit_reload_def\<close>)
qed


text \<open>C39: once the handlers are registered, each hardware interrupt is acknowledged at the
  interrupt controllers before its handler runs, the timer's advances the tick count by one, the
  keyboard's handles the scancode read from the keyboard, and the other vectors change nothing
  else. No vector leads out of the handler table.\<close>

theorem irq_dispatch:
  assumes "handlers_ok s" and "n < 256"
  shows "wp (irq_handler dev n) (\<lambda>_ s'. handlers_ok s' \<and>
      tick_count s' = tick_count s + (if n = 32 then 1 else 0) \<and>
      k_kbd s' = (if n = 33 then keyboard_irq_handler (ucast (dev (eoi n (io_hist s)) 0x60)) (k_kbd s) else k_kbd s) \<and>
      (\<exists>reads. io_hist s' = reads @ eoi n (io_hist s) \<and> (n \<noteq> 33 \<longrightarrow> reads = []))) (\<lambda>_ _. False) s"
  by (rule wp_irq_handler [OF assms]) (use assms(1) in \<open>auto simp: after_irq_def Let_def handlers_ok_def\<close>)

text \<open>
  C40: \<open>timer_wait\<close> returns if timer interrupts keep coming, wherever they and other
  interrupts come. It returns before the first test of \<open>tick_count\<close> at which at least \<open>ticks\<close>
  timer interrupts have been served; as an interrupt between the test and \<open>hlt\<close> does not end
  \<open>hlt\<close>, these can be more than \<open>ticks\<close>, but by less than \<open>b\<close>, where \<open>b\<close> bounds the timer
  interrupts between two tests. When the target passes 2^32 it returns at the first test.
  Stated for a tick count that does not itself pass 2^32 meanwhile.
\<close>

theorem timer_wait_returns:
  assumes "handlers_ok s" and "schedule_ok sch" and "ticks_per_round sch b"
    and "unat (tick_count s) + b < 2 ^ 32"
    and "unat (tick_count s) + unat ticks + b \<le> 2 ^ 32 \<or> 2 ^ 32 \<le> unat (tick_count s) + unat ticks"
  shows "wp (timer_wait dev sch ticks) (\<lambda>_ s'. \<exists>k n. unat (tick_count s') = unat (tick_count s) + n \<and>
      n = ticks_in sch k \<and>
      (if unat (tick_count s) + unat ticks < 2 ^ 32
       then unat ticks \<le> n \<and> (\<forall>j < k. ticks_in sch j < unat ticks) \<and> (0 < k \<longrightarrow> n < unat ticks + b)
       else k = 0)) (\<lambda>_ _. False) s"
proof (rule wp_timer_wait [OF assms])
  fix s' :: "'a Kernel_scheme" and k n
  assume n: "unat (tick_count s') = unat (tick_count s) + n"
    "if unat (tick_count s) + unat ticks < 2 ^ 32 then waited sch (unat ticks) k n else n = ticks_in sch 0"
  have "n < unat ticks + b" if k: "0 < k" and w: "waited sch (unat ticks) k n"
  proof -
    obtain j where "k = Suc j" using gr0_implies_Suc [OF k] by blast
    moreover have "count_list (round_irqs sch j) 32 \<le> b" using assms(3) by (simp add: ticks_per_round_def)
    ultimately show ?thesis using w by (force simp: waited_def)
  qed
  note late = this
  show "\<exists>k n. unat (tick_count s') = unat (tick_count s) + n \<and> n = ticks_in sch k \<and>
      (if unat (tick_count s) + unat ticks < 2 ^ 32
       then unat ticks \<le> n \<and> (\<forall>j < k. ticks_in sch j < unat ticks) \<and> (0 < k \<longrightarrow> n < unat ticks + b)
       else k = 0)"
  proof (cases "unat (tick_count s) + unat ticks < 2 ^ 32")
    case True
    then have "waited sch (unat ticks) k n" using n(2) by simp
    then show ?thesis using n(1) True late unfolding waited_def by (simp only: if_True) blast
  next
    case False
    then show ?thesis using n by auto
  qed
qed

definition kernel_sample :: Kernel where
  "kernel_sample = \<lparr>io_hist = [], terminal_row = 0, terminal_column = 0, terminal_color = 0x0f,
     terminal_buffer = map (\<lambda>_. vga_entry 0x20 0x0f) [0..<2000], tick_count = 0xfffffff0, k_kbd = kb_sample,
     idt_entries = [], interrupt_handlers = (replicate 256 None)[32 := Some Timer_callback, 33 := Some Keyboard_irq_handler],
     idtr = None\<rparr>"

lemma kernel_sample_ok: "handlers_ok kernel_sample" "tick_count kernel_sample = 0xfffffff0"
  by (simp_all add: handlers_ok_def kernel_sample_def)

lemma interrupt_setup_witness:
  "wp (seq (idt_init (\<lambda>i. of_nat (0x100000 + 16 * i)) 0x200000) (\<lambda>_. seq (timer_init 100) (\<lambda>_. keyboard_init))) (\<lambda>_ s'.
      gate_base (idt_entries s' ! 33) = 0x100210 \<and> pit_reload (io_hist s') = 11931) (\<lambda>_ _. False) kernel_sample"
  by (rule wp_conseq [OF interrupt_setup]) (auto simp: gates_ok_def)

lemma irq_dispatch_witness:
  "wp (irq_handler (\<lambda>_ _. 0x1e) 33) (\<lambda>_ s'. kb_chars (k_kbd s') = kb_chars (keyboard_irq_handler 0x1e kb_sample) \<and>
      tick_count s' = 0xfffffff0) (\<lambda>_ _. False) kernel_sample"
  by (rule wp_conseq [OF irq_dispatch [OF kernel_sample_ok(1)]]) (simp_all add: kernel_sample_def)

text \<open>
  A wait of one tick, whose tick comes between the test and \<open>hlt\<close>: the wake-up is lost, and
  \<open>timer_wait\<close> sleeps on until the second timer interrupt, a key being pressed in between.
\<close>

definition late_schedule :: irq_schedule where
  "late_schedule = \<lparr>at_start = [], before_hlt = (\<lambda>_. [32]), wakes = (\<lambda>_. 32), after_wake = (\<lambda>_. [33])\<rparr>"

lemma late_schedule_ok: "schedule_ok late_schedule" "ticks_per_round late_schedule 2"
  by (auto simp: schedule_ok_def ticks_per_round_def round_irqs_def late_schedule_def)

lemma late_ticks: "ticks_in late_schedule k = 2 * k"
  by (induction k) (simp_all add: round_irqs_def late_schedule_def)

lemma timer_wait_lost_wakeup:
  "wp (timer_wait uart_sample late_schedule 1) (\<lambda>_ s'. tick_count s' = 0xfffffff2) (\<lambda>_ _. False) kernel_sample"
proof (rule wp_timer_wait [OF kernel_sample_ok(1) late_schedule_ok])
  fix s' :: Kernel and k n
  assume n: "unat (tick_count s') = unat (tick_count kernel_sample) + n"
    "if unat (tick_count kernel_sample) + unat (1 :: u32) < 2 ^ 32
     then waited late_schedule (unat (1 :: u32)) k n else n = ticks_in late_schedule 0"
  then have w: "waited late_schedule 1 k n" by (simp add: kernel_sample_ok)
  then have "k \<noteq> 0" "\<not> 1 < k" by (auto simp: waited_def late_ticks dest: spec [of _ 1])
  then have "n = 2" using w by (cases "k = 1") (auto simp: waited_def late_ticks round_irqs_def late_schedule_def)
  then show "tick_count s' = 0xfffffff2" using n(1) by (simp add: kernel_sample_ok word_unat_eq_iff)
qed (simp_all add: kernel_sample_ok)

lemma timer_wait_returns_witness:
  "wp (timer_wait uart_sample late_schedule 5) (\<lambda>_ s'. unat (tick_count s') < 0xfffffff0 + 7) (\<lambda>_ _. False) kernel_sample"
proof -
  have "\<not> 5 \<le> ticks_in late_schedule 0" by (simp add: late_schedule_def)
  then show ?thesis
    by (intro wp_conseq [OF timer_wait_returns [OF kernel_sample_ok(1) late_schedule_ok]])
      (auto simp: kernel_sample_ok intro: gr0I split: if_splits)
qed

end
