(* ===== verification/Ata.thy ===== *)
theory Ata
  imports Printf Interrupts
begin

unbundle bit_operations_syntax

section \<open>The ATA disk driver (driver/ata.c)\<close>

text \<open>
  Programmed I/O over the ports of the primary bus. A transfer takes the caller's buffer as a
  list and, for a read, returns the buffer as the transfer leaves it; an access past the
  buffer is \<open>undef\<close>. Both functions always return 0.
\<close>

subsection \<open>The code\<close>

record Ata = Kernel +
  ata_base :: u16

definition ata_wait_bsy_step :: "device \<Rightarrow> unit \<Rightarrow> ('z Ata_scheme, unit + unit) cm" where
  "ata_wait_bsy_step dev _ = seq (reads ata_base) (\<lambda>base. seq (inb dev (base + 7)) (\<lambda>v.
     if v AND 0x80 \<noteq> 0 then ret (Inl ()) else ret (Inr ())))"

definition ata_wait_bsy :: "device \<Rightarrow> ('z Ata_scheme, unit) cm" where
  "ata_wait_bsy dev = loop (ata_wait_bsy_step dev) ()"

definition ata_wait_drq_step :: "device \<Rightarrow> unit \<Rightarrow> ('z Ata_scheme, unit + unit) cm" where
  "ata_wait_drq_step dev _ = seq (reads ata_base) (\<lambda>base. seq (inb dev (base + 7)) (\<lambda>v.
     if v AND 0x08 = 0 then ret (Inl ()) else ret (Inr ())))"

definition ata_wait_drq :: "device \<Rightarrow> ('z Ata_scheme, unit) cm" where
  "ata_wait_drq dev = loop (ata_wait_drq_step dev) ()"

definition ata_init :: "device \<Rightarrow> ('z Ata_scheme, unit) cm" where
  "ata_init dev =
     seq (modify (\<lambda>s. s\<lparr>ata_base := 0x1f0\<rparr>)) (\<lambda>_.
     seq (reads ata_base) (\<lambda>base.
     seq (printf dev
       [0x5b, 0x41, 0x54, 0x41, 0x5d, 0x20, 0x50, 0x72, 0x69, 0x6d, 0x61, 0x72, 0x79, 0x20, 0x62, 0x75, 0x73, 0x20,
        0x69, 0x6e, 0x69, 0x74, 0x69, 0x61, 0x6c, 0x69, 0x7a, 0x65, 0x64, 0x20, 0x61, 0x74, 0x20, 0x30, 0x78,
        0x25, 0x78, 0x0a] [VInt (ucast base)]) (\<lambda>_. ret ())))"

text \<open>The command registers, written before both kinds of transfer.\<close>

definition ata_command :: "u32 \<Rightarrow> u8 \<Rightarrow> u8 \<Rightarrow> ('z Ata_scheme, unit) cm" where
  "ata_command lba sector_count command = seq (reads ata_base) (\<lambda>base.
     seq (outb (base + 6) (ucast (0xe0 OR (drop_bit 24 lba AND 0x0f)))) (\<lambda>_.
     seq (outb (base + 2) sector_count) (\<lambda>_.
     seq (outb (base + 3) (ucast lba)) (\<lambda>_.
     seq (outb (base + 4) (ucast (drop_bit 8 lba))) (\<lambda>_.
     seq (outb (base + 5) (ucast (drop_bit 16 lba))) (\<lambda>_.
     outb (base + 7) command))))))"

text \<open>One word of sector \<open>i\<close>: two stores into the buffer, or two loads from it.\<close>

definition read_word_step :: "device \<Rightarrow> nat \<Rightarrow> nat \<times> bytes \<Rightarrow> ('z Ata_scheme, nat \<times> bytes + bytes) cm" where
  "read_word_step dev i = (\<lambda>(j, buffer).
     if j < 256 then
       seq (reads ata_base) (\<lambda>base.
       seq (inw dev (base + 0)) (\<lambda>data.
       if i * 512 + j * 2 + 1 < length buffer then
         ret (Inl (j + 1, buffer[i * 512 + j * 2 := ucast data, i * 512 + j * 2 + 1 := ucast (drop_bit 8 data)]))
       else undef))
     else ret (Inr buffer))"

definition read_sector_step :: "device \<Rightarrow> u8 \<Rightarrow> u8 \<times> bytes \<Rightarrow> ('z Ata_scheme, u8 \<times> bytes + bytes) cm" where
  "read_sector_step dev sector_count = (\<lambda>(i, buffer).
     if i < sector_count then
       seq (ata_wait_bsy dev) (\<lambda>_.
       seq (ata_wait_drq dev) (\<lambda>_.
       seq (loop (read_word_step dev (unat i)) (0, buffer)) (\<lambda>buffer.
       ret (Inl (i + 1, buffer)))))
     else ret (Inr buffer))"

definition ata_read_sectors :: "device \<Rightarrow> u32 \<Rightarrow> u8 \<Rightarrow> bytes \<Rightarrow> ('z Ata_scheme, int \<times> bytes) cm" where
  "ata_read_sectors dev lba sector_count buffer =
     seq (ata_wait_bsy dev) (\<lambda>_.
     seq (ata_command lba sector_count 0x20) (\<lambda>_.
     seq (loop (read_sector_step dev sector_count) (0, buffer)) (\<lambda>buffer.
     ret (0, buffer))))"

definition write_word_step :: "nat \<Rightarrow> bytes \<Rightarrow> nat \<Rightarrow> ('z Ata_scheme, nat + unit) cm" where
  "write_word_step i buffer j =
     (if j < 256 then
        if i * 512 + j * 2 + 1 < length buffer then
          seq (reads ata_base) (\<lambda>base.
          seq (outw (base + 0) (ucast (buffer ! (i * 512 + j * 2)) OR push_bit 8 (ucast (buffer ! (i * 512 + j * 2 + 1))))) (\<lambda>_.
          ret (Inl (j + 1))))
        else undef
      else ret (Inr ()))"

definition write_sector_step :: "device \<Rightarrow> u8 \<Rightarrow> bytes \<Rightarrow> u8 \<Rightarrow> ('z Ata_scheme, u8 + unit) cm" where
  "write_sector_step dev sector_count buffer i =
     (if i < sector_count then
        seq (ata_wait_bsy dev) (\<lambda>_.
        seq (ata_wait_drq dev) (\<lambda>_.
        seq (loop (write_word_step (unat i) buffer) 0) (\<lambda>_.
        ret (Inl (i + 1)))))
      else ret (Inr ()))"

definition ata_write_sectors :: "device \<Rightarrow> u32 \<Rightarrow> u8 \<Rightarrow> bytes \<Rightarrow> ('z Ata_scheme, int) cm" where
  "ata_write_sectors dev lba sector_count buffer =
     seq (ata_wait_bsy dev) (\<lambda>_.
     seq (ata_command lba sector_count 0x30) (\<lambda>_.
     seq (loop (write_sector_step dev sector_count buffer) 0) (\<lambda>_.
     ret 0)))"

text \<open>The callbacks that \<open>kmain\<close> hands to the file system (kernel/kernel.c).\<close>

definition fat_read_sector :: "device \<Rightarrow> bytes \<Rightarrow> u32 \<Rightarrow> ('z Ata_scheme, bool \<times> bytes) cm" where
  "fat_read_sector dev buf sect = seq (ata_read_sectors dev sect 1 buf) (\<lambda>(r, buf). ret (r = 0, buf))"

definition fat_write_sector :: "device \<Rightarrow> bytes \<Rightarrow> u32 \<Rightarrow> ('z Ata_scheme, bool) cm" where
  "fat_write_sector dev buf sect = seq (ata_write_sectors dev sect 1 buf) (\<lambda>r. ret (r = 0))"

subsection \<open>The disk behind the ports\<close>

text \<open>
  What an ATA disk in 28-bit LBA mode keeps: the command registers, the transfer it is in (the
  sector, how many sectors are left with this one, the words of this one so far), and its sectors.
\<close>

datatype ata_mode = Idle | Reading u32 nat nat | Writing u32 nat "u16 list"

record ata_disk =
  d_count :: u8
  d_lo :: u8
  d_mid :: u8
  d_hi :: u8
  d_drive :: u8
  d_mode :: ata_mode
  d_sectors :: "u32 \<Rightarrow> u16 list"

definition d_lba :: "ata_disk \<Rightarrow> u32" where
  "d_lba d = ucast (d_lo d) OR push_bit 8 (ucast (d_mid d)) OR push_bit 16 (ucast (d_hi d)) OR
     push_bit 24 (ucast (d_drive d) AND 0x0f)"

definition d_total :: "ata_disk \<Rightarrow> nat" where
  "d_total d = (if d_count d = 0 then 256 else unat (d_count d))"

definition reading :: "u32 \<Rightarrow> nat \<Rightarrow> ata_mode" where
  "reading l n = (if n = 0 then Idle else Reading l n 0)"

definition writing :: "u32 \<Rightarrow> nat \<Rightarrow> ata_mode" where
  "writing l n = (if n = 0 then Idle else Writing l n [])"

definition d_command :: "u8 \<Rightarrow> ata_disk \<Rightarrow> ata_disk" where
  "d_command c d =
     (if c = 0x20 then d\<lparr>d_mode := reading (d_lba d) (d_total d)\<rparr>
      else if c = 0x30 then d\<lparr>d_mode := writing (d_lba d) (d_total d)\<rparr>
      else d)"

definition d_take :: "ata_disk \<Rightarrow> ata_disk" where
  "d_take d = (case d_mode d of
       Reading l n k \<Rightarrow> d\<lparr>d_mode := (if k = 255 then reading (l + 1) (n - 1) else Reading l n (k + 1))\<rparr>
     | _ \<Rightarrow> d)"

definition d_give :: "u16 \<Rightarrow> ata_disk \<Rightarrow> ata_disk" where
  "d_give w d = (case d_mode d of
       Writing l n ws \<Rightarrow>
         if length ws = 255 then d\<lparr>d_mode := writing (l + 1) (n - 1), d_sectors := (d_sectors d)(l := ws @ [w])\<rparr>
         else d\<lparr>d_mode := Writing l n (ws @ [w])\<rparr>
     | _ \<Rightarrow> d)"

fun d_event :: "port_event \<Rightarrow> ata_disk \<Rightarrow> ata_disk" where
  "d_event (Out8 p v) d =
     (if p = 0x1f2 then d\<lparr>d_count := v\<rparr> else if p = 0x1f3 then d\<lparr>d_lo := v\<rparr>
      else if p = 0x1f4 then d\<lparr>d_mid := v\<rparr> else if p = 0x1f5 then d\<lparr>d_hi := v\<rparr>
      else if p = 0x1f6 then d\<lparr>d_drive := v\<rparr> else if p = 0x1f7 then d_command v d else d)"
| "d_event (In16 p v) d = (if p = 0x1f0 then d_take d else d)"
| "d_event (Out16 p v) d = (if p = 0x1f0 then d_give v d else d)"
| "d_event (In8 p v) d = d"

definition disk_after :: "ata_disk \<Rightarrow> history \<Rightarrow> ata_disk" where
  "disk_after d0 h = foldr d_event h d0"

text \<open>
  The device \<open>dev\<close> behaves as such a disk: it does not stay busy, it raises DRQ in the data
  phase, and its data port shows the word to be read.
\<close>

definition ata_ok :: "device \<Rightarrow> ata_disk \<Rightarrow> bool" where
  "ata_ok dev d0 \<longleftrightarrow> (\<forall>h. shows_value dev 0x1f7 (\<lambda>v. v AND 0x80 = 0) h \<and>
     (d_mode (disk_after d0 h) \<noteq> Idle \<longrightarrow> shows_value dev 0x1f7 (\<lambda>v. v AND 0x08 \<noteq> 0) h) \<and>
     (\<forall>l n k. d_mode (disk_after d0 h) = Reading l n k \<longrightarrow>
        dev h 0x1f0 = d_sectors (disk_after d0 h) l ! k))"

lemma disk_after_simps [simp]:
  "disk_after d0 (e # h) = d_event e (disk_after d0 h)" "disk_after d0 [] = d0"
  by (simp_all add: disk_after_def)

text \<open>What the serial line has seen: the driver's ports leave it alone.\<close>

definition line_state :: "history \<Rightarrow> bool \<times> bytes" where
  "line_state h = (dlab h, transmitted h)"

lemma line_simps [simp]:
  "line_state (In8 p v # h) = line_state h" "line_state (In16 p w # h) = line_state h" "line_state (Out16 p w # h) = line_state h"
  "p \<noteq> SERIAL_COM1 \<Longrightarrow> p \<noteq> SERIAL_COM1 + 3 \<Longrightarrow> line_state (Out8 p v # h) = line_state h"
  by (simp_all add: line_state_def)

lemma io_hist_eq: "s\<lparr>io_hist := a\<rparr> = s\<lparr>io_hist := b\<rparr> \<longleftrightarrow> a = b"
proof
  assume "s\<lparr>io_hist := a\<rparr> = s\<lparr>io_hist := b\<rparr>"
  from arg_cong [OF this, of io_hist] show "a = b" by simp
qed simp

lemma line_polled: "polled p h h' \<Longrightarrow> line_state h' = line_state h"
  by (erule polled_induct) simp_all

lemma disk_after_polled: "polled p h h' \<Longrightarrow> disk_after d0 h' = disk_after d0 h"
  by (erule polled_induct) simp_all

subsection \<open>Waiting and the command\<close>

lemma wp_ata_wait_bsy:
  assumes dev: "ata_ok dev d0" and base: "ata_base s = 0x1f0"
    and Q: "\<And>h. disk_after d0 h = disk_after d0 (io_hist s) \<Longrightarrow> line_state h = line_state (io_hist s) \<Longrightarrow> Q () (s\<lparr>io_hist := h\<rparr>)"
  shows "wp (ata_wait_bsy dev) Q E s"
  unfolding ata_wait_bsy_def
proof (rule wp_poll [where p = "0x1f7" and good = "\<lambda>v. v AND 0x80 = 0"])
  show "shows_value dev 0x1f7 (\<lambda>v. v AND 0x80 = 0) (io_hist s)" using dev by (simp add: ata_ok_def)
  show "ata_wait_bsy_step dev () (s\<lparr>io_hist := h\<rparr>) = seq (inb dev 0x1f7)
      (\<lambda>v. if v AND 0x80 = 0 then ret (Inr ()) else ret (Inl ())) (s\<lparr>io_hist := h\<rparr>)" for h
    using base by (simp add: ata_wait_bsy_step_def seq_def ret_def reads_def split: option.splits sum.splits prod.splits)
qed (simp add: Q disk_after_polled line_polled)

lemma wp_ata_wait_drq:
  assumes dev: "ata_ok dev d0" and base: "ata_base s = 0x1f0" and mode: "d_mode (disk_after d0 (io_hist s)) \<noteq> Idle"
    and Q: "\<And>h. disk_after d0 h = disk_after d0 (io_hist s) \<Longrightarrow> line_state h = line_state (io_hist s) \<Longrightarrow> Q () (s\<lparr>io_hist := h\<rparr>)"
  shows "wp (ata_wait_drq dev) Q E s"
  unfolding ata_wait_drq_def
proof (rule wp_poll [where p = "0x1f7" and good = "\<lambda>v. v AND 0x08 \<noteq> 0"])
  show "shows_value dev 0x1f7 (\<lambda>v. v AND 0x08 \<noteq> 0) (io_hist s)" using dev mode by (simp add: ata_ok_def)
  show "ata_wait_drq_step dev () (s\<lparr>io_hist := h\<rparr>) = seq (inb dev 0x1f7)
      (\<lambda>v. if v AND 0x08 \<noteq> 0 then ret (Inr ()) else ret (Inl ())) (s\<lparr>io_hist := h\<rparr>)" for h
    using base by (simp add: ata_wait_drq_step_def seq_def ret_def reads_def split: option.splits sum.splits prod.splits)
qed (simp add: Q disk_after_polled line_polled)

lemma lba_bytes:
  "ucast (ucast lba :: u8) OR push_bit 8 (ucast (ucast (drop_bit 8 lba) :: u8)) OR
     push_bit 16 (ucast (ucast (drop_bit 16 lba) :: u8)) OR
     push_bit 24 (ucast (ucast (0xe0 OR (drop_bit 24 lba AND 0x0f)) :: u8) AND 0x0f) = (lba AND 0x0fffffff :: u32)"
proof -
  have mask: "(0x0f :: u32) = mask 4" "(0x0fffffff :: u32) = mask 28" "(0xe0 :: u32) = push_bit 5 (mask 3)"
    by (simp_all add: mask_eq_exp_minus_1 push_bit_eq_mult)
  show ?thesis
    unfolding mask
  proof (rule bit_word_eqI)
    fix n assume n: "n < LENGTH(32)"
    consider "n < 8" | "8 \<le> n" "n < 16" | "16 \<le> n" "n < 24" | "24 \<le> n" by linarith
    then show "bit (ucast (ucast lba :: u8) OR push_bit 8 (ucast (ucast (drop_bit 8 lba) :: u8)) OR
        push_bit 16 (ucast (ucast (drop_bit 16 lba) :: u8)) OR
        push_bit 24 (ucast (ucast (push_bit 5 (mask 3) OR (drop_bit 24 lba AND mask 4)) :: u8) AND mask 4) :: u32) n =
        bit (lba AND mask 28) n"
      by cases (use n in \<open>auto simp: bit_simps\<close>)
  qed
qed

text \<open>The disk after a command: the transfer starts at the sector \<open>lba\<close> modulo 2^28.\<close>

lemma wp_ata_command:
  assumes base: "ata_base s = 0x1f0" and c: "c = 0x20 \<or> c = 0x30" and cnt: "cnt \<noteq> 0"
    and Q: "\<And>h. d_mode (disk_after d0 h) = (if c = 0x20 then Reading (lba AND 0x0fffffff) (unat cnt) 0
        else Writing (lba AND 0x0fffffff) (unat cnt) []) \<Longrightarrow>
      d_sectors (disk_after d0 h) = d_sectors (disk_after d0 (io_hist s)) \<Longrightarrow> line_state h = line_state (io_hist s) \<Longrightarrow>
      Q () (s\<lparr>io_hist := h\<rparr>)"
  shows "wp (ata_command lba cnt c) Q E s"
proof -
  have "unat cnt \<noteq> 0" using cnt by (simp only: unat_eq_0 not_False_eq_True)
  then show ?thesis
    using base c cnt lba_bytes [of lba]
    by (auto simp: ata_command_def wp_simps d_command_def d_lba_def d_total_def reading_def writing_def or.assoc intro!: Q)
qed

subsection \<open>Words and bytes\<close>

definition word_bytes :: "u16 \<Rightarrow> bytes" where
  "word_bytes w = [ucast w, ucast (drop_bit 8 w)]"

definition sector_bytes :: "u16 list \<Rightarrow> bytes" where
  "sector_bytes ws = concat (map word_bytes ws)"

lemma length_sector_bytes [simp]: "length (sector_bytes ws) = 2 * length ws"
  by (induction ws) (simp_all add: sector_bytes_def word_bytes_def)

lemma sector_bytes_append: "sector_bytes (xs @ ys) = sector_bytes xs @ sector_bytes ys"
  by (simp add: sector_bytes_def)

lemma sector_bytes_take: "j < length ws \<Longrightarrow> sector_bytes (take (Suc j) ws) = sector_bytes (take j ws) @ word_bytes (ws ! j)"
  by (simp add: take_Suc_conv_app_nth sector_bytes_append) (simp add: sector_bytes_def)

lemma splice_snoc2:
  assumes "a + length xs + 1 < length b"
  shows "(splice b a xs)[a + length xs := u, a + length xs + 1 := v] = splice b a (xs @ [u, v])"
  by (rule nth_equalityI) (use assms in \<open>auto simp: nth_splice nth_list_update nth_append nth_Cons'\<close>)

definition read_bytes :: "(u32 \<Rightarrow> u16 list) \<Rightarrow> u32 \<Rightarrow> nat \<Rightarrow> bytes" where
  "read_bytes D l n = concat (map (\<lambda>k. sector_bytes (D (l + of_nat k))) [0..<n])"

lemma read_bytes_Suc: "read_bytes D l (Suc n) = read_bytes D l n @ sector_bytes (D (l + of_nat n))"
  by (simp add: read_bytes_def)

lemma length_read_bytes: "(\<And>l. length (D l) = 256) \<Longrightarrow> length (read_bytes D l n) = 512 * n"
  by (induction n) (simp_all add: read_bytes_Suc, simp add: read_bytes_def)

subsection \<open>Reading\<close>

text \<open>Only ports were accessed since \<open>s\<close>, and the disk now has the sectors \<open>D\<close> and the transfer \<open>m\<close>.\<close>

definition disk_at :: "ata_disk \<Rightarrow> 'z Ata_scheme \<Rightarrow> (u32 \<Rightarrow> u16 list) \<Rightarrow> ata_mode \<Rightarrow> 'z Ata_scheme \<Rightarrow> bool" where
  "disk_at d0 s D m t \<longleftrightarrow> (\<exists>h. t = s\<lparr>io_hist := h\<rparr>) \<and> line_state (io_hist t) = line_state (io_hist s) \<and>
     d_sectors (disk_after d0 (io_hist t)) = D \<and> d_mode (disk_after d0 (io_hist t)) = m"

lemma disk_atI: "d_sectors (disk_after d0 h) = D \<Longrightarrow> d_mode (disk_after d0 h) = m \<Longrightarrow> line_state h = line_state (io_hist s) \<Longrightarrow>
    disk_at d0 s D m (s\<lparr>io_hist := h\<rparr>)"
  by (auto simp: disk_at_def)

lemma disk_at_hist: "disk_at d0 s D m t \<Longrightarrow> disk_after d0 h = disk_after d0 (io_hist t) \<Longrightarrow> line_state h = line_state (io_hist t) \<Longrightarrow>
    disk_at d0 s D m (t\<lparr>io_hist := h\<rparr>)"
  by (auto simp: disk_at_def)

lemma disk_at_trans: "disk_at d0 s D m t \<Longrightarrow> disk_at d0 t D' m' u \<Longrightarrow> disk_at d0 s D' m' u"
  by (auto simp: disk_at_def)

lemma disk_atD:
  assumes "disk_at d0 s D m t"
  shows "d_sectors (disk_after d0 (io_hist t)) = D" "d_mode (disk_after d0 (io_hist t)) = m" "ata_base t = ata_base s"
  using assms by (auto simp: disk_at_def)

lemma wp_read_words:
  fixes s :: "'z Ata_scheme"
  assumes dev: "ata_ok dev d0" and base: "ata_base s = 0x1f0" and len: "length (D l) = 256"
    and s: "disk_at d0 s D (Reading l n 0) s" and b: "i * 512 + 512 \<le> length b"
    and Q: "\<And>t. disk_at d0 s D (reading (l + 1) (n - 1)) t \<Longrightarrow> Q (splice b (i * 512) (sector_bytes (D l))) t"
  shows "wp (loop (read_word_step dev i) (0, b)) Q E s"
proof -
  let ?m = "\<lambda>j. if j < 256 then Reading l n j else reading (l + 1) (n - 1)"
  let ?b = "\<lambda>j. splice b (i * 512) (sector_bytes (take j (D l)))"
  let ?I = "\<lambda>(j, b') t. j \<le> 256 \<and> b' = ?b j \<and> disk_at d0 s D (?m j) t"
  show ?thesis
  proof (rule wp_loop [where m = "\<lambda>(j, _) _. 256 - j" and I = ?I])
    fix x and t :: "'z Ata_scheme" assume I: "?I x t"
    obtain j b' where x: "x = (j, b')" by (cases x)
    from I x have j: "j \<le> 256" and b': "b' = ?b j" and t: "disk_at d0 s D (?m j) t" by auto
    show "wp (read_word_step dev i x) (\<lambda>y s'. case y of
        Inl x' \<Rightarrow> ?I x' s' \<and> (case x' of (j, _) \<Rightarrow> \<lambda>_. 256 - j) s' < (case x of (j, _) \<Rightarrow> \<lambda>_. 256 - j) t | Inr v \<Rightarrow> Q v s') E t"
    proof (cases "j < 256")
      case True
      let ?w = "D l ! j"
      let ?t = "t\<lparr>io_hist := In16 0x1f0 ?w # io_hist t\<rparr>"
      have w: "dev (io_hist t) 0x1f0 = ?w" using dev disk_atD(1,2) [OF t] True by (simp add: ata_ok_def)
      have "length (sector_bytes (take j (D l))) = j * 2" using len True by simp
      then have upd: "b'[i * 512 + j * 2 := ucast ?w, i * 512 + j * 2 + 1 := ucast (drop_bit 8 ?w)] = ?b (Suc j)"
        using splice_snoc2 [of "i * 512" "sector_bytes (take j (D l))" b "ucast ?w" "ucast (drop_bit 8 ?w)"] b True len
        by (simp add: b' sector_bytes_take word_bytes_def mult.commute [of j])
      have "disk_at d0 t D (?m (Suc j)) ?t"
        by (rule disk_atI) (use disk_atD(1,2) [OF t] True in \<open>auto simp: d_take_def\<close>)
      then have next_: "?I (Suc j, ?b (Suc j)) ?t" using disk_at_trans [OF t] True by simp
      have "i * 512 + j * 2 + 1 < length b'" using b b' True len by simp
      then have "wp (read_word_step dev i x) R E t = R (Inl (Suc j, ?b (Suc j))) ?t" for R
        using True x w base upd disk_atD(3) [OF t] by (simp add: read_word_step_def wp_simps)
      then show ?thesis using next_ x True by simp
    next
      case False
      then have "j = 256" using j by simp
      then show ?thesis using x t b' len Q by (simp add: read_word_step_def wp_simps)
    qed
  next
    show "?I (0, b) s" using s by (simp add: sector_bytes_def splice_def)
  qed
qed

text \<open>The waits before each sector.\<close>

lemma wp_ata_waits:
  assumes dev: "ata_ok dev d0" and base: "ata_base s = 0x1f0" and t: "disk_at d0 s D m t" "m \<noteq> Idle"
    and Q: "\<And>u. disk_at d0 s D m u \<Longrightarrow> Q () u"
  shows "wp (ata_wait_bsy dev) (\<lambda>_. wp (ata_wait_drq dev) Q E) E t"
proof (rule wp_ata_wait_bsy [OF dev])
  show "ata_base t = 0x1f0" using base disk_atD(3) [OF t(1)] by simp
  fix h assume "disk_after d0 h = disk_after d0 (io_hist t)" and "line_state h = line_state (io_hist t)"
  then have u: "disk_at d0 s D m (t\<lparr>io_hist := h\<rparr>)" by (rule disk_at_hist [OF t(1)])
  show "wp (ata_wait_drq dev) Q E (t\<lparr>io_hist := h\<rparr>)"
    by (rule wp_ata_wait_drq [OF dev])
      (use base t(2) disk_atD [OF u] disk_at_hist [OF u] in \<open>auto intro!: Q\<close>)
qed

lemma wp_read_sectors:
  fixes s :: "'z Ata_scheme"
  assumes dev: "ata_ok dev d0" and base: "ata_base s = 0x1f0" and len: "\<And>l. length (D l) = 256"
    and s: "disk_at d0 s D (reading l (unat cnt)) s" and b: "512 * unat cnt \<le> length b"
    and Q: "\<And>t. disk_at d0 s D Idle t \<Longrightarrow> Q (splice b 0 (read_bytes D l (unat cnt))) t"
  shows "wp (loop (read_sector_step dev cnt) (0, b)) Q E s"
proof -
  let ?m = "\<lambda>i. reading (l + of_nat i) (unat cnt - i)"
  let ?b = "\<lambda>i. splice b 0 (read_bytes D l i)"
  let ?I = "\<lambda>(i, b') t. i \<le> cnt \<and> b' = ?b (unat i) \<and> disk_at d0 s D (?m (unat i)) t"
  show ?thesis
  proof (rule wp_loop [where m = "\<lambda>(i, _) _. unat cnt - unat i" and I = ?I])
    fix x and t :: "'z Ata_scheme" assume I: "?I x t"
    obtain i b' where x: "x = (i, b')" by (cases x)
    from I x have i: "i \<le> cnt" and b': "b' = ?b (unat i)" and t: "disk_at d0 s D (?m (unat i)) t" by auto
    let ?R = "\<lambda>y s'. case y of
        Inl x' \<Rightarrow> ?I x' s' \<and> (case x' of (i, _) \<Rightarrow> \<lambda>_. unat cnt - unat i) s' < (case x of (i, _) \<Rightarrow> \<lambda>_. unat cnt - unat i) t
      | Inr v \<Rightarrow> Q v s'"
    show "wp (read_sector_step dev cnt x) ?R E t"
    proof (cases "i < cnt")
      case True
      let ?l = "l + of_nat (unat i)" and ?n = "unat cnt - unat i"
      have u: "unat i < unat cnt" "unat (i + 1) = Suc (unat i)" "i + 1 \<le> cnt" using True by unat_arith+
      then have m: "?m (unat i) = Reading ?l ?n 0" by (simp add: reading_def)
      note lb = length_read_bytes [of D l "unat i", OF len]
      have "wp (ata_wait_bsy dev) (\<lambda>_. wp (ata_wait_drq dev) (\<lambda>_.
          wp (loop (read_word_step dev (unat i)) (0, b')) (\<lambda>b'. ?R (Inl (i + 1, b'))) E) E) E t"
      proof (rule wp_ata_waits [OF dev base t])
        show "?m (unat i) \<noteq> Idle" using m by simp
        fix v assume v: "disk_at d0 s D (?m (unat i)) v"
        show "wp (loop (read_word_step dev (unat i)) (0, b')) (\<lambda>b'. ?R (Inl (i + 1, b'))) E v"
        proof (rule wp_read_words [OF dev _ len])
          show "ata_base v = 0x1f0" using base disk_atD(3) [OF v] by simp
          show "disk_at d0 v D (Reading ?l ?n 0) v" using v m by (auto simp: disk_at_def intro: exI [of _ "io_hist v"])
          show "unat i * 512 + 512 \<le> length b'" using b b' u(1) lb by simp
          fix w assume "disk_at d0 v D (reading (?l + 1) (?n - 1)) w"
          then have "disk_at d0 s D (?m (Suc (unat i))) w" using disk_at_trans [OF v] by (simp add: ac_simps)
          moreover have "splice b' (unat i * 512) (sector_bytes (D ?l)) = ?b (Suc (unat i))"
            using splice_splice_next [of 0 "read_bytes D l (unat i)" "sector_bytes (D ?l)" b] b b' u lb len
            by (simp add: read_bytes_Suc mult.commute)
          moreover have "ucast (i + 1) = (ucast i + 1 :: u32)"
            using arg_cong [OF u(2), of "of_nat :: nat \<Rightarrow> u32"] by (simp add: ac_simps)
          ultimately show "?R (Inl (i + 1, splice b' (unat i * 512) (sector_bytes (D ?l)))) w"
            using u x by (simp add: ac_simps)
        qed
      qed
      then show ?thesis using True x by (simp add: read_sector_step_def wp_seq_fun wp_ret)
    next
      case False
      then have "i = cnt" using i by simp
      then show ?thesis using x t b' Q by (simp add: read_sector_step_def wp_simps reading_def)
    qed
  next
    show "?I (0, b) s" using s by (simp add: read_bytes_def splice_def)
  qed
qed

subsection \<open>Writing\<close>

text \<open>The words of \<open>n\<close> pairs of bytes from \<open>a\<close> on, and the sectors after \<open>n\<close> sectors of \<open>b\<close> went to \<open>l\<close> onwards.\<close>

definition buf_words :: "bytes \<Rightarrow> nat \<Rightarrow> nat \<Rightarrow> u16 list" where
  "buf_words b a n = map (\<lambda>j. ucast (b ! (a + j * 2)) OR push_bit 8 (ucast (b ! (a + j * 2 + 1)))) [0..<n]"

definition written :: "(u32 \<Rightarrow> u16 list) \<Rightarrow> u32 \<Rightarrow> bytes \<Rightarrow> nat \<Rightarrow> u32 \<Rightarrow> u16 list" where
  "written D l b n = (\<lambda>x. if unat (x - l) < n then buf_words b (unat (x - l) * 512) 256 else D x)"

lemma length_buf_words [simp]: "length (buf_words b a n) = n"
  by (simp add: buf_words_def)

lemma word_bytes_join:
  "word_bytes (ucast u OR push_bit 8 (ucast v)) = [u, v :: u8]"
proof -
  have "(ucast (ucast u OR push_bit 8 (ucast v) :: u16) :: u8) = u"
    by (rule bit_word_eqI) (auto simp: bit_simps)
  moreover have "(ucast (drop_bit 8 (ucast u OR push_bit 8 (ucast v) :: u16)) :: u8) = v"
    by (rule bit_word_eqI) (auto simp: bit_simps dest: bit_imp_le_length)
  ultimately show ?thesis by (simp add: word_bytes_def)
qed

lemma sector_bytes_buf_words:
  "a + 2 * n \<le> length b \<Longrightarrow> sector_bytes (buf_words b a n) = take (2 * n) (drop a b)"
proof (induction n)
  case (Suc n)
  have "take (2 * Suc n) (drop a b) = take (2 * n) (drop a b) @ [b ! (a + 2 * n), b ! (a + 2 * n + 1)]"
    using Suc.prems by (simp add: take_Suc_conv_app_nth)
  then show ?case
    using Suc by (simp add: buf_words_def sector_bytes_append mult.commute)
      (simp add: sector_bytes_def word_bytes_join mult.commute)
qed (simp add: buf_words_def sector_bytes_def)

lemma written_0 [simp]: "written D l b 0 = D"
  by (simp add: written_def)

lemma written_Suc:
  assumes "n < 4294967296"
  shows "written D l b (Suc n) = (written D l b n)(l + of_nat n := buf_words b (n * 512) 256)"
proof
  fix x
  have u: "unat (of_nat n :: u32) = n" using assms by (simp add: unat_of_nat)
  have "x = l + of_nat n \<longleftrightarrow> unat (x - l) = n"
  proof
    assume "unat (x - l) = n"
    then have "x - l = of_nat n" using u by (simp add: word_unat_eq_iff)
    then show "x = l + of_nat n" by (simp add: algebra_simps)
  qed (use u in simp)
  then show "written D l b (Suc n) x = ((written D l b n)(l + of_nat n := buf_words b (n * 512) 256)) x"
    by (auto simp: written_def less_Suc_eq)
qed

lemma wp_write_words:
  fixes s :: "'z Ata_scheme"
  assumes base: "ata_base s = 0x1f0"
    and s: "disk_at d0 s D (Writing l n []) s" and b: "i * 512 + 512 \<le> length b"
    and Q: "\<And>t. disk_at d0 s (D(l := buf_words b (i * 512) 256)) (writing (l + 1) (n - 1)) t \<Longrightarrow> Q () t"
  shows "wp (loop (write_word_step i b) 0) Q E s"
proof -
  let ?ws = "buf_words b (i * 512)"
  let ?m = "\<lambda>j. if j < 256 then Writing l n (?ws j) else writing (l + 1) (n - 1)"
  let ?D = "\<lambda>j. if j < 256 then D else D(l := ?ws 256)"
  let ?I = "\<lambda>j t. j \<le> 256 \<and> disk_at d0 s (?D j) (?m j) t"
  show ?thesis
  proof (rule wp_loop [where m = "\<lambda>j _. 256 - j" and I = ?I])
    fix j and t :: "'z Ata_scheme" assume I: "?I j t"
    then have j: "j \<le> 256" and t: "disk_at d0 s (?D j) (?m j) t" by auto
    show "wp (write_word_step i b j) (\<lambda>y s'. case y of
        Inl j' \<Rightarrow> ?I j' s' \<and> 256 - j' < 256 - j | Inr v \<Rightarrow> Q v s') E t"
    proof (cases "j < 256")
      case True
      let ?w = "ucast (b ! (i * 512 + j * 2)) OR push_bit 8 (ucast (b ! (i * 512 + j * 2 + 1))) :: u16"
      let ?t = "t\<lparr>io_hist := Out16 0x1f0 ?w # io_hist t\<rparr>"
      have ws: "?ws (Suc j) = ?ws j @ [?w]" by (simp add: buf_words_def)
      have "disk_at d0 t (?D (Suc j)) (?m (Suc j)) ?t"
      proof (rule disk_atI)
        have *: "j = 255 \<Longrightarrow> ?ws 256 = ?ws 255 @ [?w]" using ws by simp
        show "d_sectors (disk_after d0 (Out16 0x1f0 ?w # io_hist t)) = ?D (Suc j)"
          using disk_atD(1,2) [OF t] True * by (cases "j = 255") (auto simp: d_give_def)
        show "d_mode (disk_after d0 (Out16 0x1f0 ?w # io_hist t)) = ?m (Suc j)"
          using disk_atD(1,2) [OF t] True ws by (auto simp: d_give_def)
      qed simp
      then have next_: "?I (Suc j) ?t" using disk_at_trans [OF t] True by simp
      have "i * 512 + j * 2 + 1 < length b" using b True by simp
      then have "wp (write_word_step i b j) R E t = R (Inl (Suc j)) ?t" for R
        using True base disk_atD(3) [OF t] by (simp add: write_word_step_def wp_simps)
      then show ?thesis using next_ True by simp
    next
      case False
      then have "j = 256" using j by simp
      then show ?thesis using t Q by (simp add: write_word_step_def wp_simps)
    qed
  next
    show "?I 0 s" using s by (simp add: buf_words_def)
  qed
qed

lemma wp_write_sectors:
  fixes s :: "'z Ata_scheme"
  assumes dev: "ata_ok dev d0" and base: "ata_base s = 0x1f0"
    and s: "disk_at d0 s D (writing l (unat cnt)) s" and b: "512 * unat cnt \<le> length b"
    and Q: "\<And>t. disk_at d0 s (written D l b (unat cnt)) Idle t \<Longrightarrow> Q () t"
  shows "wp (loop (write_sector_step dev cnt b) 0) Q E s"
proof -
  let ?m = "\<lambda>i. writing (l + of_nat i) (unat cnt - i)"
  let ?I = "\<lambda>i t. i \<le> cnt \<and> disk_at d0 s (written D l b (unat i)) (?m (unat i)) t"
  show ?thesis
  proof (rule wp_loop [where m = "\<lambda>i _. unat cnt - unat i" and I = ?I])
    fix i and t :: "'z Ata_scheme" assume I: "?I i t"
    then have i: "i \<le> cnt" and t: "disk_at d0 s (written D l b (unat i)) (?m (unat i)) t" by auto
    let ?R = "\<lambda>y s'. case y of Inl i' \<Rightarrow> ?I i' s' \<and> unat cnt - unat i' < unat cnt - unat i | Inr v \<Rightarrow> Q v s'"
    show "wp (write_sector_step dev cnt b i) ?R E t"
    proof (cases "i < cnt")
      case True
      let ?l = "l + of_nat (unat i)" and ?n = "unat cnt - unat i"
      have u: "unat i < unat cnt" "unat (i + 1) = Suc (unat i)" "i + 1 \<le> cnt" using True by unat_arith+
      then have m: "?m (unat i) = Writing ?l ?n []" by (simp add: writing_def)
      have "wp (ata_wait_bsy dev) (\<lambda>_. wp (ata_wait_drq dev) (\<lambda>_.
          wp (loop (write_word_step (unat i) b) 0) (\<lambda>_. ?R (Inl (i + 1))) E) E) E t"
      proof (rule wp_ata_waits [OF dev base t])
        show "?m (unat i) \<noteq> Idle" using m by simp
        fix v assume v: "disk_at d0 s (written D l b (unat i)) (?m (unat i)) v"
        show "wp (loop (write_word_step (unat i) b) 0) (\<lambda>_. ?R (Inl (i + 1))) E v"
        proof (rule wp_write_words)
          show "ata_base v = 0x1f0" using base disk_atD(3) [OF v] by simp
          show "disk_at d0 v (written D l b (unat i)) (Writing ?l ?n []) v"
            using v m by (auto simp: disk_at_def intro: exI [of _ "io_hist v"])
          show "unat i * 512 + 512 \<le> length b" using b u(1) by simp
          fix w assume "disk_at d0 v ((written D l b (unat i))(?l := buf_words b (unat i * 512) 256)) (writing (?l + 1) (?n - 1)) w"
          moreover have "(written D l b (unat i))(?l := buf_words b (unat i * 512) 256) = written D l b (Suc (unat i))"
            by (rule written_Suc [symmetric]) (use unsigned_less [of i, where 'a = nat] in simp)
          moreover have "ucast (i + 1) = (ucast i + 1 :: u32)"
            using arg_cong [OF u(2), of "of_nat :: nat \<Rightarrow> u32"] by (simp add: ac_simps)
          ultimately show "?R (Inl (i + 1)) w"
            using disk_at_trans [OF v] u by (simp add: ac_simps)
        qed
      qed
      then show ?thesis using True by (simp add: write_sector_step_def wp_seq_fun wp_ret)
    next
      case False
      then have "i = cnt" using i by simp
      then show ?thesis using t Q by (simp add: write_sector_step_def wp_simps writing_def)
    qed
  next
    show "?I 0 s" using s by simp
  qed
qed

subsection \<open>Whole transfers\<close>

text \<open>The disk state that a caller sees: its sectors, whatever state the last transfer left.\<close>

definition disk_sectors :: "ata_disk \<Rightarrow> 'z Ata_scheme \<Rightarrow> u32 \<Rightarrow> u16 list" where
  "disk_sectors d0 s = d_sectors (disk_after d0 (io_hist s))"

lemma disk_atE:
  assumes "disk_at d0 s D m t"
  obtains h where "t = s\<lparr>io_hist := h\<rparr>" "disk_sectors d0 (s\<lparr>io_hist := h\<rparr>) = D" "d_mode (disk_after d0 h) = m"
    "line_state h = line_state (io_hist s)"
  using assms by (auto simp: disk_at_def disk_sectors_def)

lemma wp_ata_read_sectors:
  fixes s :: "'z Ata_scheme"
  assumes dev: "ata_ok dev d0" and base: "ata_base s = 0x1f0" and cnt: "cnt \<noteq> 0"
    and len: "\<And>l. length (disk_sectors d0 s l) = 256" and b: "512 * unat cnt \<le> length b"
    and Q: "\<And>h. disk_sectors d0 (s\<lparr>io_hist := h\<rparr>) = disk_sectors d0 s \<Longrightarrow> line_state h = line_state (io_hist s) \<Longrightarrow>
      Q (0, splice b 0 (read_bytes (disk_sectors d0 s) (lba AND 0x0fffffff) (unat cnt))) (s\<lparr>io_hist := h\<rparr>)"
  shows "wp (ata_read_sectors dev lba cnt b) Q E s"
  unfolding ata_read_sectors_def wp_seq_fun wp_ret
proof (rule wp_ata_wait_bsy [OF dev base])
  fix h assume h: "disk_after d0 h = disk_after d0 (io_hist s)" "line_state h = line_state (io_hist s)"
  have n: "unat cnt \<noteq> 0" using cnt by (simp only: unat_eq_0 not_False_eq_True)
  let ?l = "lba AND 0x0fffffff" and ?D = "disk_sectors d0 s"
  show "wp (ata_command lba cnt 0x20) (\<lambda>_. wp (loop (read_sector_step dev cnt) (0, b)) (\<lambda>b. Q (0, b)) E) E (s\<lparr>io_hist := h\<rparr>)"
  proof (rule wp_ata_command [where ?d0.0 = d0, OF _ _ cnt])
    fix h' assume "d_mode (disk_after d0 h') = (if 0x20 = (0x20 :: u8) then Reading ?l (unat cnt) 0 else Writing ?l (unat cnt) [])"
      and "d_sectors (disk_after d0 h') = d_sectors (disk_after d0 (io_hist (s\<lparr>io_hist := h\<rparr>)))"
      and l: "line_state h' = line_state (io_hist (s\<lparr>io_hist := h\<rparr>))"
    then have d: "disk_at d0 (s\<lparr>io_hist := h'\<rparr>) ?D (reading ?l (unat cnt)) (s\<lparr>io_hist := h'\<rparr>)"
      using h n by (auto simp: disk_at_def disk_sectors_def reading_def intro: exI [of _ h'])
    then show "wp (loop (read_sector_step dev cnt) (0, b)) (\<lambda>b. Q (0, b)) E (s\<lparr>io_hist := h, io_hist := h'\<rparr>)"
      by (simp, intro wp_read_sectors [OF dev _ _ d b]) (use base len h(2) l in \<open>auto simp: io_hist_eq elim!: disk_atE intro!: Q\<close>)
  qed (use base in auto)
qed

lemma wp_ata_write_sectors:
  fixes s :: "'z Ata_scheme"
  assumes dev: "ata_ok dev d0" and base: "ata_base s = 0x1f0" and cnt: "cnt \<noteq> 0"
    and b: "512 * unat cnt \<le> length b"
    and Q: "\<And>h. disk_sectors d0 (s\<lparr>io_hist := h\<rparr>) = written (disk_sectors d0 s) (lba AND 0x0fffffff) b (unat cnt) \<Longrightarrow>
      line_state h = line_state (io_hist s) \<Longrightarrow> Q 0 (s\<lparr>io_hist := h\<rparr>)"
  shows "wp (ata_write_sectors dev lba cnt b) Q E s"
  unfolding ata_write_sectors_def wp_seq_fun wp_ret
proof (rule wp_ata_wait_bsy [OF dev base])
  fix h assume h: "disk_after d0 h = disk_after d0 (io_hist s)" "line_state h = line_state (io_hist s)"
  have n: "unat cnt \<noteq> 0" using cnt by (simp only: unat_eq_0 not_False_eq_True)
  let ?l = "lba AND 0x0fffffff" and ?D = "disk_sectors d0 s"
  show "wp (ata_command lba cnt 0x30) (\<lambda>_. wp (loop (write_sector_step dev cnt b) 0) (\<lambda>_. Q 0) E) E (s\<lparr>io_hist := h\<rparr>)"
  proof (rule wp_ata_command [where ?d0.0 = d0, OF _ _ cnt])
    fix h' assume "d_mode (disk_after d0 h') = (if 0x30 = (0x20 :: u8) then Reading ?l (unat cnt) 0 else Writing ?l (unat cnt) [])"
      and "d_sectors (disk_after d0 h') = d_sectors (disk_after d0 (io_hist (s\<lparr>io_hist := h\<rparr>)))"
      and l: "line_state h' = line_state (io_hist (s\<lparr>io_hist := h\<rparr>))"
    then have d: "disk_at d0 (s\<lparr>io_hist := h'\<rparr>) ?D (writing ?l (unat cnt)) (s\<lparr>io_hist := h'\<rparr>)"
      using h n by (auto simp: disk_at_def disk_sectors_def writing_def intro: exI [of _ h'])
    then show "wp (loop (write_sector_step dev cnt b) 0) (\<lambda>_. Q 0) E (s\<lparr>io_hist := h, io_hist := h'\<rparr>)"
      by (simp, intro wp_write_sectors [OF dev _ d b]) (use base h(2) l in \<open>auto simp: io_hist_eq elim!: disk_atE intro!: Q\<close>)
  qed (use base in auto)
qed

text \<open>Reading leaves the disk alone, so what was written comes back.\<close>

lemma length_written [simp]: "(\<And>x. length (D x) = 256) \<Longrightarrow> length (written D l b n x) = 256"
  by (simp add: written_def)

lemma read_bytes_written:
  assumes "512 * n \<le> length b" and "n < 4294967296"
  shows "read_bytes (written D l b n) l n = take (512 * n) b"
proof -
  have "k \<le> n \<Longrightarrow> read_bytes (written D l b n) l k = take (512 * k) b" for k
  proof (induction k)
    case (Suc k)
    have "unat (of_nat k :: u32) = k" using Suc.prems assms(2) by (simp add: unat_of_nat)
    then have "sector_bytes (written D l b n (l + of_nat k)) = take 512 (drop (k * 512) b)"
      using Suc.prems assms(1) by (simp add: written_def sector_bytes_buf_words)
    moreover have "take (512 * Suc k) b = take (512 * k) b @ take 512 (drop (512 * k) b)"
      by (simp only: mult_Suc_right add.commute [of 512] take_add)
    ultimately show ?case using Suc by (simp add: read_bytes_Suc mult.commute)
  qed (simp add: read_bytes_def)
  then show ?thesis by simp
qed

subsection \<open>Properties\<close>

text \<open>C12: For every number of sectors from 1 to 255, \<open>ata_read_sectors\<close> terminates on a
  responsive disk, returns 0, puts the bytes of the consecutive sectors from \<open>lba\<close> (modulo
  2^28) on at the start of the buffer, leaves the rest of the buffer and all sectors alone, and
  never leaves the buffer.\<close>

theorem ata_read_returns_sectors:
  assumes "ata_ok dev d0" and "ata_base s = 0x1f0" and "cnt \<noteq> 0"
    and "\<And>l. length (disk_sectors d0 s l) = 256" and "512 * unat cnt \<le> length b"
  shows "wp (ata_read_sectors dev lba cnt b) (\<lambda>(r, b') s'.
      r = 0 \<and> b' = splice b 0 (read_bytes (disk_sectors d0 s) (lba AND 0x0fffffff) (unat cnt)) \<and>
      length b' = length b \<and> disk_sectors d0 s' = disk_sectors d0 s \<and> (\<exists>h. s' = s\<lparr>io_hist := h\<rparr>)) (\<lambda>_ _. False) s"
  by (rule wp_ata_read_sectors [OF assms]) (auto simp: length_read_bytes [OF assms(4)] assms(5))

text \<open>C13: Reading back what \<open>ata_write_sectors\<close> wrote gives the bytes of the buffer, and
  exactly the addressed sectors of the disk have changed; both calls terminate and return 0.\<close>

theorem ata_write_then_read:
  assumes "ata_ok dev d0" and "ata_base s = 0x1f0" and "cnt \<noteq> 0"
    and "\<And>l. length (disk_sectors d0 s l) = 256"
    and "512 * unat cnt \<le> length b" and "length b' = 512 * unat cnt"
  shows "wp (seq (ata_write_sectors dev lba cnt b) (\<lambda>r. seq (ata_read_sectors dev lba cnt b') (\<lambda>rb. ret (r, rb))))
      (\<lambda>(r, r', b'') s'. r = 0 \<and> r' = 0 \<and> b'' = take (512 * unat cnt) b \<and>
        (\<forall>x. unat cnt \<le> unat (x - (lba AND 0x0fffffff)) \<longrightarrow> disk_sectors d0 s' x = disk_sectors d0 s x)) (\<lambda>_ _. False) s"
  unfolding wp_seq_fun wp_ret
proof (rule wp_ata_write_sectors [OF assms(1-3,5)])
  fix h assume h: "disk_sectors d0 (s\<lparr>io_hist := h\<rparr>) = written (disk_sectors d0 s) (lba AND 0x0fffffff) b (unat cnt)"
  have "unat cnt < 4294967296" using unsigned_less [of cnt, where 'a = nat] by simp
  note r = read_bytes_written [OF assms(5) this, of "disk_sectors d0 s"]
  have "x \<notin> {x. unat (x - (lba AND 0x0fffffff)) < unat cnt} \<Longrightarrow>
      written (disk_sectors d0 s) (lba AND 0x0fffffff) b (unat cnt) x = disk_sectors d0 s x" for x
    by (simp add: written_def)
  then show "wp (ata_read_sectors dev lba cnt b') (\<lambda>rb. (\<lambda>(r, r', b'') s'. r = 0 \<and> r' = 0 \<and> b'' = take (512 * unat cnt) b \<and>
        (\<forall>x. unat cnt \<le> unat (x - (lba AND 0x0fffffff)) \<longrightarrow> disk_sectors d0 s' x = disk_sectors d0 s x)) (0, rb))
      (\<lambda>_ _. False) (s\<lparr>io_hist := h\<rparr>)"
    using assms h by (intro wp_ata_read_sectors [OF assms(1) _ assms(3)])
      (auto simp: r splice_def)
qed

subsection \<open>Witnesses\<close>

text \<open>A disk that stays busy for one poll after every other port access, beside a serial line
  that is always ready.\<close>

definition ata_sample :: "ata_disk \<Rightarrow> device" where
  "ata_sample d0 h p =
     (if p = 0x1f7 then (case h of In8 _ _ # _ \<Rightarrow> (if d_mode (disk_after d0 h) = Idle then 0 else 0x08) | _ \<Rightarrow> 0x80)
      else if p = 0x1f0 then (case d_mode (disk_after d0 h) of Reading l n k \<Rightarrow> d_sectors (disk_after d0 h) l ! k | _ \<Rightarrow> 0)
      else if p = SERIAL_COM1 + 5 then 0x60 else 0)"

lemma ata_sample_ok: "ata_ok (ata_sample d0) d0"
  unfolding ata_ok_def
proof (intro allI conjI impI)
  fix h
  show "shows_value (ata_sample d0) 0x1f7 (\<lambda>v. v AND 0x80 = 0) h"
    unfolding shows_value_def by (rule exI [of _ 1]) (simp add: ata_sample_def)
  show "d_mode (disk_after d0 h) \<noteq> Idle \<Longrightarrow> shows_value (ata_sample d0) 0x1f7 (\<lambda>v. v AND 0x08 \<noteq> 0) h"
    unfolding shows_value_def by (rule exI [of _ 1]) (simp add: ata_sample_def)
qed (simp add: ata_sample_def)

definition ata_disk_sample :: ata_disk where
  "ata_disk_sample = \<lparr>d_count = 0, d_lo = 0, d_mid = 0, d_hi = 0, d_drive = 0, d_mode = Idle,
     d_sectors = (\<lambda>l. replicate 256 (ucast l))\<rparr>"

definition ata_machine_sample :: Ata where
  "ata_machine_sample = \<lparr>io_hist = [], terminal_row = 0, terminal_column = 0, terminal_color = 0x0f,
     terminal_buffer = replicate 2000 0, tick_count = 0, k_kbd = kb_sample, idt_entries = [],
     interrupt_handlers = [], idtr = None, ata_base = 0x1f0\<rparr>"

lemma ata_sample_state:
  "ata_base ata_machine_sample = 0x1f0" "length (disk_sectors ata_disk_sample ata_machine_sample l) = 256"
  by (simp_all add: ata_machine_sample_def ata_disk_sample_def disk_sectors_def)

lemma ata_sample_first_byte: "read_bytes (\<lambda>l. replicate 256 (ucast l)) 7 (Suc 0) ! 0 = 7"
proof -
  have "replicate 256 (7 :: u16) = 7 # replicate 255 7" using replicate_Suc [of 255 "7 :: u16"] by simp
  then have "sector_bytes (replicate 256 7) = word_bytes 7 @ sector_bytes (replicate 255 7)"
    by (simp only: sector_bytes_def list.map concat.simps)
  then show ?thesis by (simp add: read_bytes_def) (simp add: word_bytes_def)
qed

lemma ata_read_returns_sectors_witness:
  "wp (ata_read_sectors (ata_sample ata_disk_sample) 0x30000007 1 (replicate 600 0)) (\<lambda>(r, b') s'.
      r = 0 \<and> b' ! 0 = 7 \<and> b' ! 512 = 0) (\<lambda>_ _. False) ata_machine_sample"
  by (rule wp_conseq [OF ata_read_returns_sectors [OF ata_sample_ok ata_sample_state(1) _ ata_sample_state(2)]])
    (auto simp: nth_splice length_read_bytes ata_sample_first_byte ata_disk_sample_def ata_machine_sample_def disk_sectors_def)

lemma ata_write_then_read_witness:
  "wp (seq (ata_write_sectors (ata_sample ata_disk_sample) 9 1 (replicate 512 0xe5)) (\<lambda>r.
      seq (ata_read_sectors (ata_sample ata_disk_sample) 9 1 (replicate 512 0)) (\<lambda>rb. ret (r, rb))))
      (\<lambda>(r, r', b) s'. r = 0 \<and> r' = 0 \<and> b = replicate 512 0xe5) (\<lambda>_ _. False) ata_machine_sample"
  by (rule wp_conseq [OF ata_write_then_read [OF ata_sample_ok ata_sample_state(1) _ ata_sample_state(2)]]) auto

end
