(* ===== verification/Commands.thy ===== *)
theory Commands
  imports Ata Fat_Api
begin

unbundle bit_operations_syntax

section \<open>The shell's commands (kernel/commands.c)\<close>

text \<open>
  The commands work on the file system and on the terminal. The disk of the file system is the
  machine behind the ports, so the terminal is reached through the device state of the file
  system's state: \<open>on_tty\<close> runs terminal code there, \<open>on_fs\<close> file system code. \<open>g_cwd\<close> is
  the string in the array of that name; \<open>sh_info\<close> and \<open>cmd_copy\<close> are what the automatic
  variables \<open>info\<close> and \<open>cmd_copy\<close> hold before they are assigned. A C string is the list of its
  characters before the terminating zero. The unused parameter \<open>fs\<close> is left out.
\<close>

subsection \<open>The state\<close>

record Shell =
  sh_fs :: "Ata fs"
  g_cwd :: bytes
  sh_info :: DirInfo
  cmd_copy :: bytes

definition on_fs :: "(Ata fs, 'a) cm \<Rightarrow> (Shell, 'a) cm" where
  "on_fs m = (\<lambda>s. case m (sh_fs s) of None \<Rightarrow> None | Some (r, f) \<Rightarrow> Some (r, s\<lparr>sh_fs := f\<rparr>))"

definition on_tty :: "(Ata, 'a) cm \<Rightarrow> (Shell, 'a) cm" where
  "on_tty m = on_fs (\<lambda>f. case m (dev f) of None \<Rightarrow> None | Some (r, d) \<Rightarrow> Some (r, f\<lparr>dev := d\<rparr>))"

definition str :: "string \<Rightarrow> bytes" where
  "str cs = map of_char cs"

definition sh_printf :: "device \<Rightarrow> bytes \<Rightarrow> va_arg list \<Rightarrow> (Shell, unit) cm" where
  "sh_printf mach format args = seq (on_tty (printf mach format args)) (\<lambda>_. ret ())"

definition VOLUME_PREFIX_LEN :: nat where
  "VOLUME_PREFIX_LEN = 5"

text \<open>\<open>build_path\<close> gives the string it leaves in \<open>dest\<close>, an array of 256 bytes: a longer path
  is stored past its end.\<close>

definition build_path :: "bytes \<Rightarrow> nat \<Rightarrow> (Shell, bytes) cm" where
  "build_path filename filename_len = seq (reads g_cwd) (\<lambda>cwd.
     let path = (if cwd \<noteq> [] \<and> last cwd \<noteq> SLASH then cwd @ [SLASH] else cwd) @ take filename_len filename in
     if length path < 256 then ret path else undef)"

text \<open>The scans of an argument: blanks before it, and its length without blanks behind it.\<close>

abbreviation (input) is_blank :: "u8 \<Rightarrow> bool" where
  "is_blank c \<equiv> c = 0x20 \<or> c = 0x09"

definition skip_blanks :: "bytes \<Rightarrow> bytes" where
  "skip_blanks cs = dropWhile is_blank cs"

definition arg_len :: "bytes \<Rightarrow> nat" where
  "arg_len cs = length (takeWhile (\<lambda>c. c \<noteq> 0x0a) (take 249 cs))"

fun trim_len :: "bytes \<Rightarrow> nat \<Rightarrow> nat" where
  "trim_len cs 0 = 0"
| "trim_len cs (Suc n) = (if is_blank (cs ! n) then trim_len cs n else Suc n)"

definition name_len :: "bytes \<Rightarrow> nat" where
  "name_len cs = trim_len cs (arg_len cs)"

subsection \<open>The commands\<close>

text \<open>\<open>ls\<close> reads entries until a read fails; the result of \<open>fat_dir_next\<close> is not looked at.\<close>

definition ls_step :: "device \<Rightarrow> DirInfo \<Rightarrow> (Shell, DirInfo + unit) cm" where
  "ls_step mach info = seq (catch (on_fs (fat_dir_read info))) (\<lambda>r. case r of
       Inl err \<Rightarrow> ret (Inr ())
     | Inr info \<Rightarrow>
         seq (if di_attr info AND FAT_ATTR_DIR \<noteq> 0 then
                sh_printf mach (str ''  [DIR]  %.*s'' @ [0x0a]) [VInt (ucast (di_name_len info)), VStr (Some (di_name info))]
              else
                sh_printf mach (str ''  [FILE] %.*s (%u bytes)'' @ [0x0a])
                  [VInt (ucast (di_name_len info)), VStr (Some (di_name info)), VInt (di_size info)]) (\<lambda>_.
         seq (catch (on_fs fat_dir_next)) (\<lambda>_.
         ret (Inl info))))"

definition cmd_ls :: "device \<Rightarrow> (Shell, unit) cm" where
  "cmd_ls mach =
     seq (reads g_cwd) (\<lambda>cwd.
     seq (catch (on_fs (fat_dir_open cwd))) (\<lambda>r. case r of
       Inl err \<Rightarrow> sh_printf mach (str ''Failed to open directory'' @ [0x0a]) []
     | Inr _ \<Rightarrow>
         seq (sh_printf mach (str ''Directory contents:'' @ [0x0a]) []) (\<lambda>_.
         seq (reads sh_info) (\<lambda>info.
         loop (ls_step mach) info))))"

definition cat_step :: "device \<Rightarrow> unit \<Rightarrow> (Shell, unit + unit) cm" where
  "cat_step mach _ = seq (on_fs (fat_file_read 512)) (\<lambda>(err, buffer).
     if err \<noteq> FAT_ERR_NONE then
       seq (sh_printf mach (str ''cat: read error: %s'' @ [0x0a]) [VStr (Some (str (fat_get_error err)))]) (\<lambda>_. ret (Inr ()))
     else if buffer = [] then ret (Inr ())
     else seq (on_tty (terminal_write mach buffer (of_nat (length buffer)))) (\<lambda>_. ret (Inl ())))"

definition close_file :: "(Shell, unit) cm" where
  "close_file = seq (catch (on_fs fat_file_close)) (\<lambda>_. ret ())"

definition cmd_cat :: "device \<Rightarrow> bytes option \<Rightarrow> (Shell, unit) cm" where
  "cmd_cat mach filename0 =
     (case filename0 of None \<Rightarrow> sh_printf mach (str ''Usage: cat <file>'' @ [0x0a]) []
      | Some f \<Rightarrow>
          let filename = skip_blanks f; n = name_len filename in
          if n = 0 then sh_printf mach (str ''Usage: cat <file>'' @ [0x0a]) []
          else
            seq (build_path filename n) (\<lambda>path.
            seq (catch (on_fs (fat_file_open path FAT_READ))) (\<lambda>r. case r of
              Inl err \<Rightarrow> sh_printf mach (str ''cat: cannot open '' @ [0x27] @ str ''%.*s'' @ [0x27] @ str '': %s'' @ [0x0a])
                [VInt (of_nat n), VStr (Some filename), VStr (Some (str (fat_get_error err)))]
            | Inr _ \<Rightarrow>
                seq (on_fs getFl) (\<lambda>file.
                if fl_size file = 0 then close_file
                else if fl_sclust file = 0 then
                  seq (sh_printf mach (str ''cat: '' @ [0x27] @ str ''%.*s'' @ [0x27] @ str '': invalid file cluster'' @ [0x0a])
                    [VInt (of_nat n), VStr (Some filename)]) (\<lambda>_.
                  close_file)
                else
                  seq (loop (cat_step mach) ()) (\<lambda>_.
                  close_file)))))"

definition cmd_echo :: "device \<Rightarrow> bytes \<Rightarrow> bytes option \<Rightarrow> bool \<Rightarrow> (Shell, unit) cm" where
  "cmd_echo mach txt output_file is_append =
     (case output_file of
        None \<Rightarrow> sh_printf mach (str ''%s'' @ [0x0a]) [VStr (Some txt)]
      | Some out \<Rightarrow>
          if out = [] then sh_printf mach (str ''Error: No output file specified'' @ [0x0a]) []
          else
            seq (build_path out (min 249 (length out))) (\<lambda>path.
            let flags = (FAT_WRITE OR FAT_CREATE) OR (if is_append then FAT_APPEND else FAT_TRUNC) in
            seq (catch (on_fs (fat_file_open path flags))) (\<lambda>r. case r of
              Inl err \<Rightarrow> sh_printf mach (str ''Failed to open file: %s'' @ [0x0a]) [VStr (Some out)]
            | Inr _ \<Rightarrow>
                seq (on_fs (fat_file_write txt)) (\<lambda>_.
                seq (on_fs (fat_file_write [0x0a])) (\<lambda>_.
                close_file)))))"

definition cmd_touch :: "device \<Rightarrow> bytes \<Rightarrow> (Shell, unit) cm" where
  "cmd_touch mach filename =
     seq (build_path filename (min 249 (length filename))) (\<lambda>path.
     seq (catch (on_fs (fat_file_open path (FAT_CREATE OR FAT_WRITE)))) (\<lambda>r. case r of
       Inr _ \<Rightarrow> seq close_file (\<lambda>_. sh_printf mach (str ''Created: %s'' @ [0x0a]) [VStr (Some filename)])
     | Inl err \<Rightarrow> sh_printf mach (str ''Failed to create: %s'' @ [0x0a]) [VStr (Some filename)]))"

definition cmd_mkdir :: "device \<Rightarrow> bytes \<Rightarrow> (Shell, unit) cm" where
  "cmd_mkdir mach dirname =
     seq (build_path dirname (min 249 (length dirname))) (\<lambda>path.
     seq (catch (on_fs (fat_dir_create path))) (\<lambda>r. case r of
       Inr _ \<Rightarrow> sh_printf mach (str ''Created directory: %s'' @ [0x0a]) [VStr (Some dirname)]
     | Inl err \<Rightarrow> sh_printf mach (str ''Failed to create directory: %s'' @ [0x0a]) [VStr (Some dirname)]))"

text \<open>\<open>cd ..\<close>: the index of the slash before the last component, not below the prefix.\<close>

fun back_to_slash :: "bytes \<Rightarrow> nat \<Rightarrow> nat" where
  "back_to_slash cwd i = (if VOLUME_PREFIX_LEN < i \<and> cwd ! i \<noteq> SLASH then back_to_slash cwd (i - 1) else i)"

declare back_to_slash.simps [simp del]

definition parent_dir :: "bytes \<Rightarrow> bytes" where
  "parent_dir cwd =
     (if length cwd \<le> VOLUME_PREFIX_LEN then cwd
      else
        let i0 = length cwd - 1;
            i1 = (if cwd ! i0 = SLASH then i0 - 1 else i0);
            i = back_to_slash cwd i1 in
        if i \<le> VOLUME_PREFIX_LEN then str ''/root'' else take i cwd)"

definition cmd_cd :: "device \<Rightarrow> bytes option \<Rightarrow> (Shell, unit) cm" where
  "cmd_cd mach dirname0 =
     (let d0 = (case dirname0 of None \<Rightarrow> str ''/'' | Some d \<Rightarrow> if d = [] then str ''/'' else d);
          d1 = skip_blanks d0;
          n1 = name_len d1;
          (dirname, n) = (if n1 = 0 then (str ''/'', 1) else (d1, n1)) in
      if n = 1 \<and> dirname ! 0 = DOT then ret ()
      else if n = 2 \<and> dirname ! 0 = DOT \<and> dirname ! 1 = DOT then modify (\<lambda>s. s\<lparr>g_cwd := parent_dir (g_cwd s)\<rparr>)
      else
        seq (if dirname ! 0 = SLASH then ret (str ''/root'' @ take n dirname) else build_path dirname n) (\<lambda>new_path.
        seq (catch (on_fs (fat_dir_open new_path))) (\<lambda>r. case r of
          Inl err \<Rightarrow> sh_printf mach (str ''cd: cannot access '' @ [0x27] @ str ''%.*s'' @ [0x27] @ str '': %s'' @ [0x0a])
            [VInt (of_nat n), VStr (Some dirname), VStr (Some (str (fat_get_error err)))]
        | Inr _ \<Rightarrow> modify (\<lambda>s. s\<lparr>g_cwd := take 255 new_path\<rparr>))))"

definition cmd_pwd :: "device \<Rightarrow> (Shell, unit) cm" where
  "cmd_pwd mach = seq (reads g_cwd) (\<lambda>cwd.
     if VOLUME_PREFIX_LEN < length cwd then
       sh_printf mach (str ''%s'' @ [0x0a]) [VStr (Some (drop VOLUME_PREFIX_LEN cwd))]
     else sh_printf mach (str ''/'' @ [0x0a]) [])"

text \<open>The calls of \<open>printf\<close> for the lines of a list.\<close>

primrec print_lines :: "device \<Rightarrow> bytes list \<Rightarrow> (Shell, unit) cm" where
  "print_lines mach [] = ret ()"
| "print_lines mach (l # ls) = seq (sh_printf mach (l @ [0x0a]) []) (\<lambda>_. print_lines mach ls)"

definition help_lines :: "bytes list" where
  "help_lines = map str
     [''Available commands:'',
      ''  ls               - List files'',
      ''  cat <file>       - Display file contents'',
      ''  echo <text>      - Print text or write to file'',
      ''  touch <file>     - Create empty file'',
      ''  mkdir <dir>      - Create directory'',
      ''  cd <dir>         - Change directory'',
      ''  pwd              - Print working directory'',
      ''  help             - Show this help'',
      ''  clear            - Clear the screen'']"

definition cmd_help :: "device \<Rightarrow> (Shell, unit) cm" where
  "cmd_help mach = print_lines mach help_lines"

subsection \<open>Weakest preconditions\<close>

abbreviation tty :: "Shell \<Rightarrow> Ata" where
  "tty s \<equiv> dev (sh_fs s)"

definition with_tty :: "Shell \<Rightarrow> Ata \<Rightarrow> Shell" where
  "with_tty s d = s\<lparr>sh_fs := (sh_fs s)\<lparr>dev := d\<rparr>\<rparr>"

lemma with_tty_simps [simp]:
  "tty (with_tty s d) = d" "with_tty (with_tty s d) d' = with_tty s d'" "with_tty s (tty s) = s"
  "g_cwd (with_tty s d) = g_cwd s" "cmd_copy (with_tty s d) = cmd_copy s"
  by (simp_all add: with_tty_def)

lemma wp_on_fs [wp_simps]:
  "wp (on_fs m) Q E s = wp m (\<lambda>x f. Q x (s\<lparr>sh_fs := f\<rparr>)) (\<lambda>e f. E e (s\<lparr>sh_fs := f\<rparr>)) (sh_fs s)"
  by (auto simp: wp_def on_fs_def split: option.splits sum.splits prod.splits)

lemma wp_on_tty [wp_simps]:
  "wp (on_tty m) Q E s = wp m (\<lambda>x d. Q x (with_tty s d)) (\<lambda>e d. E e (with_tty s d)) (tty s)"
  by (auto simp: wp_def on_fs_def on_tty_def with_tty_def split: option.splits sum.splits prod.splits)

text \<open>The terminal is usable and shows the lines \<open>w\<close>.\<close>

definition screen :: "device \<Rightarrow> u16 list list \<Rightarrow> Shell \<Rightarrow> bool" where
  "screen mach w s \<longleftrightarrow> uart_ok mach \<and> \<not> dlab (io_hist (tty s)) \<and> shown w (tty s)"

text \<open>\<open>typed cs w s s'\<close>: the characters \<open>cs\<close> have been written, and nothing but the terminal has changed.\<close>

definition typed :: "bytes \<Rightarrow> u16 list list \<Rightarrow> Shell \<Rightarrow> Shell \<Rightarrow> bool" where
  "typed cs w s s' \<longleftrightarrow> wrote cs w (tty s) (tty s') \<and> s' = with_tty s (tty s')"

lemma typedD:
  assumes "typed cs w s s'" and "screen mach w s"
  shows "screen mach (fold (w_char (terminal_color (tty s))) cs w) s'"
    "terminal_color (tty s') = terminal_color (tty s)" "g_cwd s' = g_cwd s" "cmd_copy s' = cmd_copy s"
    "transmitted (io_hist (tty s')) = transmitted (io_hist (tty s)) @ cs"
proof -
  have u: "wrote cs w (tty s) (tty s')" and "s' = with_tty s (tty s')" using assms(1) by (simp_all add: typed_def)
  then have "g_cwd s' = g_cwd (with_tty s (tty s'))" "cmd_copy s' = cmd_copy (with_tty s (tty s'))" by simp_all
  then show "g_cwd s' = g_cwd s" "cmd_copy s' = cmd_copy s" by simp_all
  show "screen mach (fold (w_char (terminal_color (tty s))) cs w) s'"
    "terminal_color (tty s') = terminal_color (tty s)" "transmitted (io_hist (tty s')) = transmitted (io_hist (tty s)) @ cs"
    using wroteD [OF u] assms(2) by (simp_all add: screen_def)
qed

lemma typed_trans:
  assumes "typed cs w s s1" and "typed ds (fold (w_char (terminal_color (tty s))) cs w) s1 s2"
  shows "typed (cs @ ds) w s s2"
proof -
  have "s1 = with_tty s (tty s1)" "s2 = with_tty s1 (tty s2)" using assms by (simp_all add: typed_def)
  then have "s2 = with_tty s (tty s2)" by (metis with_tty_simps(2))
  then show ?thesis using assms wrote_trans by (auto simp: typed_def)
qed

lemma wp_sh_printf:
  assumes "screen mach w s" and "format_text format args = Some out" and "int (length out) \<le> INT_MAX"
    and Q: "\<And>s'. typed out w s s' \<Longrightarrow> Q () s'"
  shows "wp (sh_printf mach format args) Q E s"
  using assms(1-3) unfolding sh_printf_def wp_seq_fun wp_ret wp_on_tty screen_def
  by (intro wp_printf) (auto intro!: Q simp: typed_def)

subsection \<open>A state for witnesses\<close>

text \<open>A blank screen, in \<open>/root\<close>; the file system is not mounted.\<close>

definition shell_sample :: Shell where
  "shell_sample = \<lparr>sh_fs = \<lparr>dev = ata_machine_sample\<lparr>terminal_buffer := map (\<lambda>_. vga_entry 0x20 0x0f) [0..<2000]\<rparr>,
       fats = (\<lambda>_. \<lparr>f_next = 0, f_ops = \<lparr>ops_read = (\<lambda>_ _ _. None), ops_write = (\<lambda>_ _ _. None)\<rparr>, f_clust_msk = 0,
         f_clust_cnt = 0, f_info_sect = 0, f_fat_sect0 = 0, f_fat_sect1 = 0, f_data_sect = 0, f_root_clust = 0,
         f_last_used = 0, f_free_cnt = 0, f_sect = 0, f_buf = replicate 512 0, f_flags = 0, f_clust_shift = 0,
         f_name_len = 0, f_name = []\<rparr>),
       g_fat_list = 0, g_buf = replicate 512 0, g_len = 0, g_crc = 0,
       cdir = \<lparr>d_fat = 0, d_sclust = 0, d_clust = 0, d_sect = 0, d_idx = 0\<rparr>,
       cfile = \<lparr>fl_fat = 0, fl_dir_sect = 0, fl_sclust = 0, fl_clust = 0, fl_sect = 0, fl_size = 0, fl_offset = 0,
         fl_dir_idx = 0, fl_attr = 0, fl_flags = 0, fl_buf = replicate 512 0\<rparr>, junk8 = 0, junk32 = 0\<rparr>,
     g_cwd = str ''/root'',
     sh_info = \<lparr>di_created = \<lparr>ts_hour = 0, ts_min = 0, ts_sec = 0, ts_day = 0, ts_month = 0, ts_year = 0\<rparr>,
       di_modified = \<lparr>ts_hour = 0, ts_min = 0, ts_sec = 0, ts_day = 0, ts_month = 0, ts_year = 0\<rparr>,
       di_size = 0, di_attr = 0, di_name = replicate 255 0, di_name_len = 0\<rparr>,
     cmd_copy = replicate 256 0\<rparr>"

lemma uart_ata_sample: "uart_ok (ata_sample d0)"
  unfolding uart_ok_def
proof
  fix h
  show "shows_value (ata_sample d0) (SERIAL_COM1 + 5) (\<lambda>v. v AND 0x20 \<noteq> 0) h"
    unfolding shows_value_def by (rule exI [of _ 0]) (simp add: ata_sample_def)
qed

lemma shell_sample_screen:
  "screen (ata_sample ata_disk_sample) [[]] shell_sample" "terminal_color (tty shell_sample) = 0x0f"
  "io_hist (tty shell_sample) = []" "g_cwd shell_sample = str ''/root''" "length (cmd_copy shell_sample) = 256"
  using painted_blank [OF blank_entry, of "0x0f"] uart_ata_sample
  by (simp_all add: screen_def shown_def shell_sample_def ata_machine_sample_def)

subsection \<open>The current directory\<close>

lemma back_to_slash_name:
  assumes "SLASH \<notin> set name" and "VOLUME_PREFIX_LEN \<le> length cwd" and "k \<le> length name"
  shows "back_to_slash (cwd @ [SLASH] @ name) (length cwd + k) = length cwd"
  using assms(3)
proof (induction k)
  case 0
  then show ?case by (subst back_to_slash.simps) simp
next
  case (Suc k)
  have "name ! k \<noteq> SLASH" using assms(1) Suc.prems by (metis Suc_le_eq nth_mem)
  then show ?case using Suc assms(2) by (subst back_to_slash.simps) (simp add: nth_append)
qed

lemma parent_dir_name:
  assumes "prefix (str ''/root'') cwd" and "SLASH \<notin> set name" and "name \<noteq> []"
  shows "parent_dir (cwd @ [SLASH] @ name) = cwd"
proof -
  let ?p = "cwd @ [SLASH] @ name"
  obtain r where cwd: "cwd = str ''/root'' @ r" using assms(1) by (auto simp: prefix_def)
  then have len: "VOLUME_PREFIX_LEN \<le> length cwd" by (simp add: str_def VOLUME_PREFIX_LEN_def)
  have "?p ! (length ?p - 1) = last name" using assms(3) by (simp add: nth_append last_conv_nth)
  then have l: "?p ! (length ?p - 1) \<noteq> SLASH" using assms(2,3) last_in_set by metis
  have "length ?p - 1 = length cwd + length name" by simp
  then have i: "back_to_slash ?p (length ?p - 1) = length cwd"
    using back_to_slash_name [OF assms(2) len order_refl] by simp
  have "\<not> length ?p \<le> VOLUME_PREFIX_LEN" using len by simp
  then have "parent_dir ?p = (if length cwd \<le> VOLUME_PREFIX_LEN then str ''/root'' else take (length cwd) ?p)"
    using l i by (simp add: parent_dir_def Let_def)
  then show ?thesis using cwd len by (auto simp: str_def VOLUME_PREFIX_LEN_def)
qed

text \<open>A name that the scans of \<open>cmd_cd\<close> leave as it is.\<close>

definition plain_name :: "bytes \<Rightarrow> bool" where
  "plain_name name \<longleftrightarrow> name \<noteq> [] \<and> length name \<le> 249 \<and> SLASH \<notin> set name \<and> 0x0a \<notin> set name \<and>
     \<not> is_blank (hd name) \<and> \<not> is_blank (last name) \<and> name \<noteq> [DOT] \<and> name \<noteq> [DOT, DOT]"

lemma plain_name_scan:
  assumes "name \<noteq> []" "length name \<le> 249" "0x0a \<notin> set name" "\<not> is_blank (hd name)" "\<not> is_blank (last name)"
  shows "skip_blanks name = name" "name_len name = length name"
proof -
  show "skip_blanks name = name" using assms(1,4) by (cases name) (simp_all add: skip_blanks_def)
  have "\<forall>c \<in> set name. c \<noteq> 0x0a" using assms(3) by auto
  then have t: "takeWhile (\<lambda>c. c \<noteq> 0x0a) name = name" by (simp only: takeWhile_eq_all_conv)
  then have "arg_len name = length name" using assms(2) by (simp add: arg_len_def t)
  then show "name_len name = length name"
    using assms(1,5) by (cases name rule: rev_cases) (simp_all add: name_len_def nth_append)
qed

lemma two_dots: "length name = 2 \<Longrightarrow> name ! 0 = a \<Longrightarrow> name ! 1 = b \<Longrightarrow> name = [a, b]"
  by (auto simp: numeral_2_eq_2 length_Suc_conv)

lemma one_dot: "length name = 1 \<Longrightarrow> name ! 0 = a \<Longrightarrow> name = [a]"
  by (auto simp: length_Suc_conv)

lemma cmd_cd_plain:
  assumes "plain_name name"
  shows "cmd_cd mach (Some name) = seq (build_path name (length name)) (\<lambda>new_path.
      seq (catch (on_fs (fat_dir_open new_path))) (\<lambda>r. case r of
        Inl err \<Rightarrow> sh_printf mach (str ''cd: cannot access '' @ [0x27] @ str ''%.*s'' @ [0x27] @ str '': %s'' @ [0x0a])
          [VInt (of_nat (length name)), VStr (Some name), VStr (Some (str (fat_get_error err)))]
      | Inr _ \<Rightarrow> modify (\<lambda>s. s\<lparr>g_cwd := take 255 new_path\<rparr>)))"
proof -
  from assms have n: "name \<noteq> []" "length name \<le> 249" "0x0a \<notin> set name" "\<not> is_blank (hd name)" "\<not> is_blank (last name)"
    "SLASH \<notin> set name" "name \<noteq> [DOT]" "name \<noteq> [DOT, DOT]" by (auto simp: plain_name_def)
  have c: "(name = []) = False" "(length name = 0) = False" "(name ! 0 = SLASH) = False" using n(1,6) by (auto simp: neq_Nil_conv)
  have d: "(length name = 1 \<and> name ! 0 = DOT) = False" using one_dot [of name DOT] n(7) by fast
  have e: "(length name = 2 \<and> name ! 0 = DOT \<and> name ! 1 = DOT) = False" using two_dots [of name DOT DOT] n(8) by fast
  show ?thesis
    by (simp only: cmd_cd_def Let_def option.case c if_False plain_name_scan [OF n(1-5)] prod.case d e)
qed

lemma cmd_cd_dots: "cmd_cd mach (Some (str ''..'')) = modify (\<lambda>s. s\<lparr>g_cwd := parent_dir (g_cwd s)\<rparr>)"
  using plain_name_scan [of "str ''..''"] by (simp add: cmd_cd_def str_def)

text \<open>C17: In a directory below \<open>/root\<close> whose path does not end with a slash, \<open>cd name\<close> to a
  directory that opens, with a path that fits in the 256 bytes, appends the name to the path of the
  current directory, and \<open>cd ..\<close> after it takes exactly that name off again; neither prints
  anything, and \<open>cd ..\<close> does not touch the disk.\<close>

theorem cd_then_parent:
  assumes "prefix (str ''/root'') (g_cwd s)" and "last (g_cwd s) \<noteq> SLASH" and "plain_name name"
    and "length (g_cwd s) + 1 + length name < 256"
    and "fat_dir_open (g_cwd s @ [SLASH] @ name) (sh_fs s) = Some (Inr (), f)"
  shows "wp (cmd_cd mach (Some name)) (\<lambda>_ s1. s1 = s\<lparr>sh_fs := f, g_cwd := g_cwd s @ [SLASH] @ name\<rparr> \<and>
      wp (cmd_cd mach (Some (str ''..''))) (\<lambda>_ s2. s2 = s1\<lparr>g_cwd := g_cwd s\<rparr>) (\<lambda>_ _. False) s1) (\<lambda>_ _. False) s"
proof -
  have "g_cwd s \<noteq> []" using assms(1) by (auto simp: str_def)
  then have path: "wp (build_path name (length name)) Q E s = Q (g_cwd s @ [SLASH] @ name) s" for Q E
    using assms(2,4) by (simp add: build_path_def wp_simps)
  have "name \<noteq> []" "SLASH \<notin> set name" using assms(3) by (simp_all add: plain_name_def)
  then have "parent_dir (g_cwd s @ [SLASH] @ name) = g_cwd s" using parent_dir_name [OF assms(1)] by simp
  then show ?thesis
    using assms(4) wp_result_ret [where m = "fat_dir_open (g_cwd s @ [SLASH] @ name)", OF assms(5)]
    by (simp add: cmd_cd_plain [OF assms(3)] cmd_cd_dots wp_seq path wp_on_fs wp_catch wp_modify)
qed

text \<open>C18: \<open>touch\<close>, \<open>mkdir\<close> and the redirection of \<open>echo\<close> store past their array of 256 bytes
  when the path of the current directory, a slash and the name (cut to 249 characters) are longer
  than 255 characters: nothing checks the sum.\<close>

theorem path_overflow:
  assumes "g_cwd s \<noteq> []" and "last (g_cwd s) \<noteq> SLASH" and "255 \<le> length (g_cwd s) + min 249 (length name)" and "name \<noteq> []"
  shows "cmd_touch mach name s = None \<and> cmd_mkdir mach name s = None \<and> cmd_echo mach txt (Some name) app s = None"
proof -
  have "build_path name (min 249 (length name)) s = None"
    using assms by (simp add: build_path_def seq_def reads_def undef_def Let_def)
  then show ?thesis using assms(4) by (simp add: cmd_touch_def cmd_mkdir_def cmd_echo_def seq_def)
qed

subsection \<open>Witnesses\<close>

text \<open>A volume \<open>root\<close> whose every sector holds the one entry \<open>X\<close>, a directory.\<close>

definition cd_entry :: bytes where
  "cd_entry = [0x58, 0x20, 0x20, 0x20, 0x20, 0x20, 0x20, 0x20, 0x20, 0x20, 0x20, 0x10, 0, 0, 0, 0,
     0, 0, 0, 0, 0, 0, 0, 0, 0, 0, 5, 0, 0, 0, 0, 0]"

definition cd_fat :: "Ata Fat" where
  "cd_fat = (fats (sh_fs shell_sample) 1)\<lparr>f_root_clust := 2, f_name_len := 4, f_name := [0x72, 0x6f, 0x6f, 0x74],
     f_data_sect := 10, f_ops := \<lparr>ops_read = (\<lambda>_ _ d. Some (True, cd_entry, d)), ops_write = (\<lambda>_ _ _. None)\<rparr>\<rparr>"

definition cd_sample :: Shell where
  "cd_sample = shell_sample\<lparr>sh_fs := (sh_fs shell_sample)\<lparr>g_fat_list := 1, fats := (\<lambda>_. cd_fat)\<rparr>\<rparr>"

lemma cd_entry_fields:
  "slice cd_entry 0 32 = cd_entry" "sfn_is_last cd_entry = False" "sfn_is_free cd_entry = False" "sfn_is_lfn cd_entry = False"
  "sfn_attr cd_entry = 0x10" "sfn_cluster cd_entry = 5" "put_sfn_name [0x58] (Suc 0) = sfn_name cd_entry"
proof -
  have "replicate 7 x = [x, x, x, x, x, x, x]" "replicate 3 x = [x, x, x]" for x :: u8 by (simp_all add: numeral_eq_Suc)
  then show "slice cd_entry 0 32 = cd_entry" "sfn_is_last cd_entry = False" "sfn_is_free cd_entry = False" "sfn_is_lfn cd_entry = False"
    "sfn_attr cd_entry = 0x10" "sfn_cluster cd_entry = 5" "put_sfn_name [0x58] (Suc 0) = sfn_name cd_entry"
    by (simp_all add: cd_entry_def slice_def sfn_is_last_def sfn_is_free_def sfn_is_lfn_def sfn_attr_def sfn_cluster_def
      sfn_clust_lo_def sfn_clust_hi_def put_sfn_name_def sfn_char_def to_upper_def sfn_name_def get16_def push_bit_eq_mult)
qed

lemma cd_path:
  "subpath_len [0x72, 0x6f, 0x6f, 0x74, 0x2f, 0x58] = 4" "skip_slashes [0x2f, 0x58] = [0x58]" "subpath_len [0x58] = 1"
  "skip_slashes [] = []" "subpath_len [] = 0" "deref (0x2f # xs) = 0x2f"
  by (simp_all add: subpath_len_def skip_slashes_def deref_def)

lemmas path_rounds = wp_round [where body = "find_fat_volume_step _ _"] wp_round [where body = "dir_search_step _ _"]
  wp_round [where body = follow_path_step]

lemma wp_disk_read_raw:
  "wp (disk_read p b n) Q E s = (case ops_read (f_ops (fats s p)) b n (dev s) of None \<Rightarrow> False
     | Some (ok, b', d') \<Rightarrow> Q (ok, b') (s\<lparr>dev := d'\<rparr>))"
  by (auto simp: wp_def disk_read_def split: option.splits)

lemma follow_path_round:
  "follow_path_step (str0, dir_clust, dir_enterable, loc) =
     (let str = skip_slashes str0; len = subpath_len str in
      if len = 0 then ret (Inr (FAT_ERR_NONE, str, loc))
      else if \<not> dir_enterable then ret (Inr (FAT_ERR_PATH, str, loc))
      else
        seq (dir_enter dir_clust) (\<lambda>_.
        seq (catch (dir_search str len loc)) (\<lambda>r. case r of
          Inl err \<Rightarrow> ret (Inr (err, str, loc))
        | Inr loc' \<Rightarrow>
            seq dir_ent (\<lambda>sfn.
            ret (Inl (drop len str, sfn_cluster sfn, sfn_attr sfn AND FAT_ATTR_DIR \<noteq> 0, loc'))))))"
  by (simp add: follow_path_step_def)

lemma cd_sample_opens:
  obtains f where "fat_dir_open (g_cwd cd_sample @ [SLASH] @ str ''X'') (sh_fs cd_sample) = Some (Inr (), f)"
proof -
  have "wp (fat_dir_open [0x2f, 0x72, 0x6f, 0x6f, 0x74, 0x2f, 0x58]) (\<lambda>_ _. True) (\<lambda>_ _. False) (sh_fs cd_sample)"
    by (simp add: fat_dir_open_def follow_path_def find_fat_volume_def find_fat_volume_step_def follow_path_round
      dir_search_def dir_search_step_def dir_match_def dir_ent_def load_ent_def update_buf_def sync_buf_def wp_disk_read_raw
      getF_def setF_def getD_def setD_def dir_enter_def dir_at_clust_def dir_at_root_def path_rounds cd_path
      cd_entry_fields wp_simps clust_to_sect_def cd_sample_def cd_fat_def shell_sample_def FAT_ERR_NONE_def)
  then obtain x f where "fat_dir_open [0x2f, 0x72, 0x6f, 0x6f, 0x74, 0x2f, 0x58] (sh_fs cd_sample) = Some (Inr x, f)"
    by (rule wpD) auto
  then show ?thesis using that [of f] by (simp add: cd_sample_def shell_sample_def str_def)
qed

lemma cd_then_parent_witness:
  "wp (cmd_cd (ata_sample ata_disk_sample) (Some (str ''X''))) (\<lambda>_ s1. g_cwd s1 = str ''/root/X'' \<and>
      wp (cmd_cd (ata_sample ata_disk_sample) (Some (str ''..''))) (\<lambda>_ s2. g_cwd s2 = str ''/root'') (\<lambda>_ _. False) s1) (\<lambda>_ _. False) cd_sample"
proof -
  have cwd: "g_cwd cd_sample = str ''/root''" by (simp add: cd_sample_def shell_sample_def)
  have pre: "prefix (str ''/root'') (g_cwd cd_sample)" "last (g_cwd cd_sample) \<noteq> SLASH" "plain_name (str ''X'')"
    "length (g_cwd cd_sample) + 1 + length (str ''X'') < 256"
    unfolding cwd by (simp_all add: str_def plain_name_def)
  obtain f where "fat_dir_open (g_cwd cd_sample @ [SLASH] @ str ''X'') (sh_fs cd_sample) = Some (Inr (), f)"
    by (rule cd_sample_opens)
  from cd_then_parent [OF pre this] show ?thesis
    by (rule wp_conseq) (auto simp: cwd str_def elim!: wp_conseq)
qed

lemma path_overflow_witness:
  "cmd_touch (ata_sample ata_disk_sample) (replicate 230 0x61) (shell_sample\<lparr>g_cwd := str ''/root/'' @ replicate 20 0x62\<rparr>) = None"
proof -
  let ?s = "shell_sample\<lparr>g_cwd := str ''/root/'' @ replicate 20 0x62\<rparr>"
  have "g_cwd ?s \<noteq> []" "last (g_cwd ?s) \<noteq> SLASH" "255 \<le> length (g_cwd ?s) + min 249 (length (replicate 230 (0x61 :: u8)))"
    "replicate 230 (0x61 :: u8) \<noteq> []" by (simp_all add: str_def)
  from path_overflow [OF this] show ?thesis by simp
qed

end
