(* ===== verification/Shell.thy ===== *)
theory Shell
  imports Commands Libc
begin

unbundle bit_operations_syntax

section \<open>The shell (kernel/shell.c)\<close>

text \<open>
  Reading a line, taking the redirection off it, and running the command. The functions on
  strings work in place on the array \<open>cmd_copy\<close>; its bytes are the memory of the string
  functions and a pointer into it is an index. A string in another object (a literal, the line)
  follows the array in that memory while a function looks at it.
\<close>

subsection \<open>Strings in the array\<close>

definition with_lit :: "bytes \<Rightarrow> (nat \<Rightarrow> (bytes, 'a) cm) \<Rightarrow> (bytes, 'a) cm" where
  "with_lit lit f = (\<lambda>m. case f (length m) (m @ lit @ [0]) of None \<Rightarrow> None
     | Some (r, m') \<Rightarrow> Some (r, take (length m) m'))"

definition trim_start_step :: "nat \<Rightarrow> (bytes, nat + nat) cm" where
  "trim_start_step s = seq (ldb s) (\<lambda>c. if c = 0x20 \<or> c = 0x09 then ret (Inl (s + 1)) else ret (Inr s))"

text \<open>\<open>while (end >= low && *end in set) { *end = 0; end--; }\<close>, with \<open>end\<close> possibly before the array.\<close>

definition strip_end_step :: "bytes \<Rightarrow> int \<Rightarrow> int \<Rightarrow> (bytes, int + unit) cm" where
  "strip_end_step drops low e =
     (if low \<le> e then
        seq (ldb (nat e)) (\<lambda>c.
        if c \<in> set drops then seq (stb (nat e) 0) (\<lambda>_. ret (Inl (e - 1))) else ret (Inr ()))
      else ret (Inr ()))"

definition trim_whitespace :: "nat \<Rightarrow> (bytes, nat) cm" where
  "trim_whitespace s0 =
     seq (loop trim_start_step s0) (\<lambda>s.
     seq (strlen s) (\<lambda>len.
     seq (loop (strip_end_step [0x20, 0x09, 0x0a] (int s + 1)) (int s + int len - 1)) (\<lambda>_.
     ret s)))"

definition strip_output :: "bytes \<Rightarrow> nat \<Rightarrow> (bytes, unit) cm" where
  "strip_output drops out =
     seq (strlen out) (\<lambda>len.
     if 0 < len then loop (strip_end_step drops (int out)) (int out + int len - 1) else ret ())"

text \<open>The output file behind the sign of \<open>k\<close> characters at \<open>p\<close>.\<close>

definition take_output :: "nat \<Rightarrow> nat \<Rightarrow> bytes \<Rightarrow> (bytes, nat) cm" where
  "take_output p k drops =
     seq (stb p 0) (\<lambda>_.
     seq (trim_whitespace (p + k)) (\<lambda>out.
     seq (strip_output drops out) (\<lambda>_.
     ret out)))"

definition find_output :: "nat \<Rightarrow> (bytes, nat option \<times> bool) cm" where
  "find_output cmd =
     seq (with_lit [0x3e, 0x3e] (strstr cmd)) (\<lambda>append_pos. case append_pos of
       Some p \<Rightarrow> seq (take_output p 2 [0x20, 0x0a]) (\<lambda>out. ret (Some out, True))
     | None \<Rightarrow>
         seq (strchr cmd 0x3e) (\<lambda>out_pos. case out_pos of
           Some p \<Rightarrow> seq (take_output p 1 [0x20, 0x0a, 0x3e]) (\<lambda>out. ret (Some out, False))
         | None \<Rightarrow> ret (None, False)))"

definition parse_redirection :: "nat \<Rightarrow> (bytes, nat \<times> nat option \<times> bool) cm" where
  "parse_redirection cmd =
     seq (find_output cmd) (\<lambda>(output_file, is_append).
     seq (trim_whitespace cmd) (\<lambda>actual_cmd.
     ret (actual_cmd, output_file, is_append)))"

subsection \<open>Running a command\<close>

definition on_copy :: "(bytes, 'a) cm \<Rightarrow> (Shell, 'a) cm" where
  "on_copy m = (\<lambda>s. case m (cmd_copy s) of None \<Rightarrow> None | Some (r, b) \<Rightarrow> Some (r, s\<lparr>cmd_copy := b\<rparr>))"

text \<open>The string at a pointer, as the commands get it.\<close>

definition string_at :: "nat \<Rightarrow> bytes \<Rightarrow> bytes" where
  "string_at a m = takeWhile (\<lambda>c. c \<noteq> 0) (drop a m)"

definition is_command :: "nat \<Rightarrow> string \<Rightarrow> (Shell, bool) cm" where
  "is_command a name = seq (on_copy (with_lit (str name) (strcmp a))) (\<lambda>r. ret (r = 0))"

definition has_prefix :: "nat \<Rightarrow> string \<Rightarrow> (Shell, bool) cm" where
  "has_prefix a name =
     seq (on_copy (with_lit (str name) (\<lambda>b. strncmp a b (length name)))) (\<lambda>r. ret (r = 0))"

definition process_command :: "device \<Rightarrow> bytes \<Rightarrow> (Shell, unit) cm" where
  "process_command mach cmd =
     (if cmd = [] then ret ()
      else
        seq (on_copy (with_lit cmd (\<lambda>src. strncpy 0 src 255))) (\<lambda>_.
        seq (on_copy (stb 255 0)) (\<lambda>_.
        seq (on_copy (parse_redirection 0)) (\<lambda>(actual_cmd, output_file, is_append).
        seq (reads (\<lambda>s. \<lambda>a. string_at a (cmd_copy s))) (\<lambda>string.
        seq (is_command actual_cmd ''ls'') (\<lambda>b. if b then cmd_ls mach else
        seq (is_command actual_cmd ''help'') (\<lambda>b. if b then cmd_help mach else
        seq (is_command actual_cmd ''clear'') (\<lambda>b. if b then on_tty terminal_clear else
        seq (is_command actual_cmd ''pwd'') (\<lambda>b. if b then cmd_pwd mach else
        seq (has_prefix actual_cmd ''echo '') (\<lambda>b. if b then
          cmd_echo mach (string (actual_cmd + 5)) (map_option string output_file) is_append else
        seq (has_prefix actual_cmd ''touch '') (\<lambda>b. if b then cmd_touch mach (string (actual_cmd + 6)) else
        seq (has_prefix actual_cmd ''mkdir '') (\<lambda>b. if b then cmd_mkdir mach (string (actual_cmd + 6)) else
        seq (has_prefix actual_cmd ''cd '') (\<lambda>b. if b then cmd_cd mach (Some (string (actual_cmd + 3))) else
        seq (is_command actual_cmd ''cd'') (\<lambda>b. if b then cmd_cd mach (Some (str ''/'')) else
        seq (has_prefix actual_cmd ''cat '') (\<lambda>b. if b then cmd_cat mach (Some (string (actual_cmd + 4))) else
        seq (sh_printf mach (str ''Unknown command: %s'' @ [0x0a]) [VStr (Some (string actual_cmd))]) (\<lambda>_.
        sh_printf mach (str ''Type '' @ [0x27] @ str ''help'' @ [0x27] @ str '' for available commands'' @ [0x0a]) [])
        )))))))))))))))"

subsection \<open>The loop that reads lines\<close>

text \<open>
  One round of the loop of \<open>shell_loop\<close> for a character \<open>c\<close> that \<open>keyboard_getchar\<close>
  returned: the variables are \<open>cmdbuf\<close> and \<open>cmdlen\<close>. The loop never ends; \<open>shell_run\<close> are
  its rounds for a sequence of characters.
\<close>

definition prompt :: "device \<Rightarrow> (Shell, unit) cm" where
  "prompt mach = on_tty (terminal_writestring mach (str ''> ''))"

definition shell_key :: "device \<Rightarrow> u8 \<Rightarrow> bytes \<times> u32 \<Rightarrow> (Shell, bytes \<times> u32) cm" where
  "shell_key mach c = (\<lambda>(cmdbuf, cmdlen).
     if c = 0 then ret (cmdbuf, cmdlen)
     else if c = 0x08 then
       seq (on_tty terminal_get_column) (\<lambda>col.
       if 2 < col \<and> 0 < cmdlen then
         seq (on_tty (terminal_backspace mach)) (\<lambda>_. ret (cmdbuf, cmdlen - 1))
       else ret (cmdbuf, cmdlen))
     else if c = 0x0a then
       seq (on_tty (terminal_putchar mach 0x0a)) (\<lambda>_.
       if unat cmdlen < length cmdbuf then
         let cmdbuf = cmdbuf[unat cmdlen := 0] in
         seq (process_command mach (string_at 0 cmdbuf)) (\<lambda>_.
         seq (prompt mach) (\<lambda>_. ret (cmdbuf, 0)))
       else undef)
     else if cmdlen < 256 - 1 then
       seq (on_tty (terminal_putchar mach c)) (\<lambda>_.
       if unat cmdlen < length cmdbuf then ret (cmdbuf[unat cmdlen := c], cmdlen + 1) else undef)
     else ret (cmdbuf, cmdlen))"

primrec shell_run :: "device \<Rightarrow> bytes \<Rightarrow> bytes \<times> u32 \<Rightarrow> (Shell, bytes \<times> u32) cm" where
  "shell_run mach [] x = ret x"
| "shell_run mach (c # cs) x = seq (shell_key mach c x) (shell_run mach cs)"

text \<open>\<open>shell_loop\<close> up to the point where it has used up the characters.\<close>

definition shell_loop :: "device \<Rightarrow> bytes \<Rightarrow> bytes \<Rightarrow> (Shell, bytes \<times> u32) cm" where
  "shell_loop mach cmdbuf keys =
     seq (on_tty (terminal_writestring_color mach (str ''Welcome to Beaner OS!'' @ [0x0a]) VGA_COLOR_LIGHT_CYAN VGA_COLOR_BLACK)) (\<lambda>_.
     seq (on_tty (terminal_writestring mach (str ''Type '' @ [0x27] @ str ''help'' @ [0x27] @ str '' for available commands'' @ [0x0a]))) (\<lambda>_.
     seq (prompt mach) (\<lambda>_.
     shell_run mach keys (cmdbuf, 0))))"

subsection \<open>What the functions on strings do\<close>

definition rstrip :: "bytes \<Rightarrow> bytes \<Rightarrow> bytes" where
  "rstrip drops xs = rev (dropWhile (\<lambda>c. c \<in> set drops) (rev xs))"

text \<open>\<open>trim_whitespace\<close> never takes the first character off the end.\<close>

definition trim :: "bytes \<Rightarrow> bytes" where
  "trim cs = (let ds = skip_blanks cs in take 1 ds @ rstrip [0x20, 0x09, 0x0a] (drop 1 ds))"

fun split_append :: "bytes \<Rightarrow> (bytes \<times> bytes) option" where
  "split_append (a # b # cs) =
     (if a = 0x3e \<and> b = 0x3e then Some ([], cs) else map_option (apfst ((#) a)) (split_append (b # cs)))"
| "split_append _ = None"

definition redirection :: "bytes \<Rightarrow> bytes \<times> bytes option \<times> bool" where
  "redirection cs = (case split_append cs of
       Some (l, r) \<Rightarrow> (trim l, Some (rstrip [0x20, 0x0a] (trim r)), True)
     | None \<Rightarrow>
         if 0x3e \<in> set cs then
           (trim (takeWhile (\<lambda>c. c \<noteq> 0x3e) cs),
            Some (rstrip [0x20, 0x0a, 0x3e] (trim (tl (dropWhile (\<lambda>c. c \<noteq> 0x3e) cs)))), False)
         else (trim cs, None, False))"

text \<open>\<open>m'\<close> differs from \<open>m\<close> only in \<open>n\<close> bytes from \<open>a\<close> on.\<close>

definition changed :: "nat \<Rightarrow> nat \<Rightarrow> bytes \<Rightarrow> bytes \<Rightarrow> bool" where
  "changed a n m m' \<longleftrightarrow> length m' = length m \<and> (\<forall>i. i < a \<or> a + n \<le> i \<longrightarrow> m' ! i = m ! i)"

lemma changed_refl [simp]: "changed a n m m"
  by (simp add: changed_def)

lemma changed_trans:
  "changed a n m m1 \<Longrightarrow> changed b k m1 m2 \<Longrightarrow> c \<le> a \<Longrightarrow> c \<le> b \<Longrightarrow> a + n \<le> c + l \<Longrightarrow> b + k \<le> c + l \<Longrightarrow> changed c l m m2"
  by (auto simp: changed_def)

lemma cstr_changed: "cstr m b cs \<Longrightarrow> changed a n m m' \<Longrightarrow> b + length cs < a \<or> a + n \<le> b \<Longrightarrow> cstr m' b cs"
  by (erule cstr_cong) (auto simp: changed_def)

lemma cstr_cut:
  assumes "cstr m a cs" and "i \<le> length cs"
  shows "cstr (m[a + i := 0]) a (take i cs)" "changed (a + i) 1 m (m[a + i := 0])"
proof -
  have "0 \<notin> set (take i cs)" using cstrD(5) [OF assms(1)] in_set_takeD by fastforce
  then show "cstr (m[a + i := 0]) a (take i cs)"
    using assms cstrD(1,2) [OF assms(1)] by (auto simp: cstr_def min_def nth_list_update)
qed (auto simp: changed_def nth_list_update)

lemma rstrip_simps [simp]:
  "rstrip drops [] = []" "rstrip drops (xs @ [c]) = (if c \<in> set drops then rstrip drops xs else xs @ [c])"
  by (simp_all add: rstrip_def)

lemma length_rstrip: "length (rstrip drops xs) \<le> length xs"
  by (induction xs rule: rev_induct) simp_all

lemma trim_start_round:
  "wp (trim_start_step a) R E m = (a < length m \<and> (if is_blank (m ! a) then R (Inl (a + 1)) m else R (Inr a) m))"
  by (simp add: trim_start_step_def wp_simps)

lemma strip_end_round:
  "wp (strip_end_step drops low e) R E m = (if low \<le> e then nat e < length m \<and>
     (if m ! nat e \<in> set drops then R (Inl (e - 1)) (m[nat e := 0]) else R (Inr ()) m) else R (Inr ()) m)"
  by (auto simp: strip_end_step_def wp_simps)

lemma wp_trim_start:
  assumes "cstr m a cs" and "Q (a + (length cs - length (skip_blanks cs))) m"
  shows "wp (loop trim_start_step a) Q E m"
  using assms
proof (induction cs arbitrary: a)
  case Nil
  then show ?case by (subst loop_unfold) (simp add: trim_start_round wp_simps cstr_Nil skip_blanks_def)
next
  case (Cons c cs)
  have "length (dropWhile is_blank cs) \<le> length cs" by (rule length_dropWhile_le)
  then show ?case using Cons
    by (subst loop_unfold) (auto simp: trim_start_round wp_seq wp_ret cstr_Cons skip_blanks_def Suc_diff_le)
qed

lemma wp_strip_end:
  assumes "cstr m a cs"
    and "\<And>m'. cstr m' a (take k cs @ rstrip drops (drop k cs)) \<Longrightarrow> changed a (length cs) m m' \<Longrightarrow> Q () m'"
  shows "wp (loop (strip_end_step drops (int a + int k)) (int a + int (length cs) - 1)) Q E m"
  using assms
proof (induction cs arbitrary: m rule: rev_induct)
  case Nil
  then show ?case by (subst loop_unfold) (simp add: strip_end_round wp_seq wp_ret)
next
  case (snoc c cs)
  note s = snoc.prems(1)
  show ?case
  proof (cases "k \<le> length cs")
    case False
    then show ?thesis using snoc.prems by (subst loop_unfold) (simp add: strip_end_round wp_seq wp_ret)
  next
    case True
    let ?e = "a + length cs"
    have e: "?e < length m" "m ! ?e = c" using cstrD(1,2) [OF s, of "length cs"] by (simp_all add: nth_append)
    have idx: "nat (int a + int (length (cs @ [c])) - 1) = ?e" "int a + int (length (cs @ [c])) - 1 = int ?e" by simp_all
    show ?thesis
    proof (cases "c \<in> set drops")
      case drop: True
      have cut: "cstr (m[?e := 0]) a cs" "changed ?e 1 m (m[?e := 0])" using cstr_cut [OF s, of "length cs"] by simp_all
      have "wp (loop (strip_end_step drops (int a + int k)) (int a + int (length cs) - 1)) Q E (m[?e := 0])"
      proof (rule snoc.IH [OF cut(1)])
        fix m' assume "cstr m' a (take k cs @ rstrip drops (drop k cs))" "changed a (length cs) (m[?e := 0]) m'"
        then show "Q () m'" using drop True changed_trans [OF cut(2)] by (intro snoc.prems(2)) simp_all
      qed
      then show ?thesis using drop True e idx
        by (subst loop_unfold) (simp add: strip_end_round wp_seq wp_ret)
    next
      case False
      have all: "take k cs @ drop k cs @ [c] = cs @ [c]" by (simp flip: append_assoc)
      show ?thesis using False True e idx s snoc.prems(2) [of m]
        by (subst loop_unfold) (simp add: strip_end_round wp_seq wp_ret all)
    qed
  qed
qed

lemma wp_trim_whitespace:
  assumes s: "cstr m a cs"
    and Q: "\<And>b m'. cstr m' b (trim cs) \<Longrightarrow> a \<le> b \<Longrightarrow> b + length (trim cs) \<le> a + length cs \<Longrightarrow> changed a (length cs) m m' \<Longrightarrow> Q b m'"
  shows "wp (trim_whitespace a) Q E m"
  unfolding trim_whitespace_def wp_seq_fun wp_ret
proof (rule wp_trim_start [OF s])
  let ?ds = "skip_blanks cs"
  let ?n = "length cs - length ?ds"
  have n: "length ?ds \<le> length cs" by (simp add: skip_blanks_def length_dropWhile_le)
  have "cs = takeWhile is_blank cs @ ?ds" by (simp add: skip_blanks_def)
  then have ds: "?ds = drop ?n cs" by (metis append_eq_conv_conj diff_add_inverse2 length_append)
  have d: "cstr m (a + ?n) ?ds" using cstr_drop [OF s, of ?n] ds by simp
  show "wp (strlen (a + ?n)) (\<lambda>len. wp (loop (strip_end_step [0x20, 0x09, 0x0a] (int (a + ?n) + 1)) (int (a + ?n) + int len - 1))
      (\<lambda>_. Q (a + ?n)) E) E m"
  proof (rule wp_strlen [OF d])
    have "wp (loop (strip_end_step [0x20, 0x09, 0x0a] (int (a + ?n) + int 1)) (int (a + ?n) + int (length ?ds) - 1))
        (\<lambda>_. Q (a + ?n)) E m"
    proof (rule wp_strip_end [OF d])
      fix m' assume m': "cstr m' (a + ?n) (take 1 ?ds @ rstrip [0x20, 0x09, 0x0a] (drop 1 ?ds))" "changed (a + ?n) (length ?ds) m m'"
      have "length (trim cs) \<le> length ?ds"
        using length_rstrip [of "[0x20, 0x09, 0x0a]" "drop 1 ?ds"] by (cases ?ds) (simp_all add: trim_def)
      then show "Q (a + ?n) m'" using m' n changed_trans [OF changed_refl m'(2), of a a 0 "length cs"]
        by (intro Q) (simp_all add: trim_def Let_def)
    qed
    then show "wp (loop (strip_end_step [0x20, 0x09, 0x0a] (int (a + ?n) + 1)) (int (a + ?n) + int (length ?ds) - 1))
        (\<lambda>_. Q (a + ?n)) E m" by simp
  qed
qed

lemma wp_strip_output:
  assumes s: "cstr m a cs"
    and Q: "\<And>m'. cstr m' a (rstrip drops cs) \<Longrightarrow> changed a (length cs) m m' \<Longrightarrow> Q () m'"
  shows "wp (strip_output drops a) Q E m"
  unfolding strip_output_def wp_seq
proof (rule wp_strlen [OF s])
  have "wp (loop (strip_end_step drops (int a + int 0)) (int a + int (length cs) - 1)) Q E m"
    by (rule wp_strip_end [OF s]) (use Q in simp)
  then show "wp (if 0 < length cs then loop (strip_end_step drops (int a)) (int a + int (length cs) - 1) else ret ()) Q E m"
    using s Q [of m] by (cases cs) (simp_all add: wp_ret)
qed

lemma wp_with_lit:
  assumes "wp (f (length m)) (\<lambda>r m'. Q r (take (length m) m')) (\<lambda>e m'. E e (take (length m) m')) (m @ lit @ [0])"
  shows "wp (with_lit lit f) Q E m"
  using assms by (auto simp: wp_def with_lit_def split: option.splits sum.splits prod.splits)

lemma cstr_lit: "0 \<notin> set lit \<Longrightarrow> cstr (m @ lit @ [0]) (length m) lit"
  by (auto simp: cstr_def nth_append)

lemma cstr_append: "cstr m a cs \<Longrightarrow> cstr (m @ ds) a cs"
  by (auto simp: cstr_def nth_append)

text \<open>The first \<open>>>\<close> of a string, and the first \<open>>\<close>.\<close>

lemma split_append_none: "\<not> sublist [0x3e, 0x3e] cs \<Longrightarrow> split_append cs = None"
  by (induction cs rule: split_append.induct) (auto simp: sublist_Cons_right)

lemma split_append_some:
  "prefix [0x3e, 0x3e] (drop i cs) \<Longrightarrow> (\<And>j. j < i \<Longrightarrow> \<not> prefix [0x3e, 0x3e] (drop j cs)) \<Longrightarrow>
   split_append cs = Some (take i cs, drop (i + 2) cs)"
proof (induction i arbitrary: cs)
  case 0
  then show ?case by (auto simp: prefix_def)
next
  case (Suc i)
  obtain a ds where cs: "cs = a # ds" using Suc.prems(1) by (cases cs) auto
  have "split_append ds = Some (take i ds, drop (i + 2) ds)"
    by (rule Suc.IH) (use Suc.prems(1) Suc.prems(2) [of "Suc _"] cs in auto)
  moreover obtain b es where "ds = b # es" using Suc.prems(1) cs by (cases ds) auto
  moreover have "\<not> (a = 0x3e \<and> b = 0x3e)" using Suc.prems(2) [of 0] cs calculation(2) by auto
  ultimately show ?case using cs by auto
qed

lemma first_char:
  assumes "i \<le> length cs" and "(cs @ [0]) ! i = c" and "c \<noteq> 0" and "c \<notin> set (take i cs)"
  shows "c \<in> set cs" "takeWhile (\<lambda>d. d \<noteq> c) cs = take i cs" "tl (dropWhile (\<lambda>d. d \<noteq> c) cs) = drop (i + 1) cs" "i < length cs"
proof -
  show i: "i < length cs" using assms by (cases "i = length cs") (auto simp: nth_append)
  then have c: "cs ! i = c" using assms(2) by (simp add: nth_append)
  then show "c \<in> set cs" using i by auto
  have cs: "cs = take i cs @ c # drop (i + 1) cs" using id_take_nth_drop [OF i] c by simp
  have "takeWhile (\<lambda>d. d \<noteq> c) (take i cs @ c # drop (i + 1) cs) = take i cs"
    "dropWhile (\<lambda>d. d \<noteq> c) (take i cs @ c # drop (i + 1) cs) = c # drop (i + 1) cs"
    using assms(4) by (auto simp: takeWhile_append dropWhile_append)
  then show "takeWhile (\<lambda>d. d \<noteq> c) cs = take i cs" "tl (dropWhile (\<lambda>d. d \<noteq> c) cs) = drop (i + 1) cs"
    using cs by simp_all
qed

text \<open>The part behind the redirection sign, which is at \<open>i\<close> and \<open>k\<close> characters long.\<close>

lemma wp_take_output:
  assumes s: "cstr m a cs" and i: "i < length cs" "i + k \<le> length cs" "0 < k"
    and Q: "\<And>b m'. cstr m' a (take i cs) \<Longrightarrow> cstr m' b (rstrip drops (trim (drop (i + k) cs))) \<Longrightarrow> a + i < b \<Longrightarrow>
      changed a (length cs) m m' \<Longrightarrow> Q b m'"
  shows "wp (take_output (a + i) k drops) Q E m"
proof -
  let ?m = "m[a + i := 0]"
  have c: "cstr ?m a (take i cs)" "changed (a + i) 1 m ?m" using cstr_cut [OF s, of i] i by simp_all
  have "cstr m (a + i + k) (drop (i + k) cs)" using cstr_drop [OF s i(2)] by (simp add: add.assoc)
  then have r: "cstr ?m (a + i + k) (drop (i + k) cs)" by (rule cstr_changed [OF _ c(2)]) (use i in simp)
  have "wp (trim_whitespace (a + i + k)) (\<lambda>out. wp (strip_output drops out) (\<lambda>_. Q out) E) E ?m"
  proof (rule wp_trim_whitespace [OF r])
    fix b m1 assume m1: "cstr m1 b (trim (drop (i + k) cs))" "a + i + k \<le> b"
      "b + length (trim (drop (i + k) cs)) \<le> a + i + k + length (drop (i + k) cs)"
      "changed (a + i + k) (length (drop (i + k) cs)) ?m m1"
    show "wp (strip_output drops b) (\<lambda>_. Q b) E m1"
    proof (rule wp_strip_output [OF m1(1)])
      fix m' assume m': "cstr m' b (rstrip drops (trim (drop (i + k) cs)))" "changed b (length (trim (drop (i + k) cs))) m1 m'"
      have ch: "changed (a + i + k) (length (drop (i + k) cs)) ?m m'"
        using changed_trans [OF m1(4) m'(2)] m1(2,3) by simp
      then have "changed a (length cs) m m'" using changed_trans [OF c(2) ch] i by simp
      moreover have "cstr m' a (take i cs)" by (rule cstr_changed [OF c(1) ch]) (use i in simp)
      ultimately show "Q b m'" using m' m1(2) i(3) by (intro Q) simp_all
    qed
  qed
  moreover have "a + i < length m" using cstrD(1) [OF s, of i] i by simp
  ultimately show ?thesis by (simp add: take_output_def wp_seq_fun wp_ret wp_stb)
qed

text \<open>\<open>found\<close>: the string at \<open>a\<close> is cut to \<open>l\<close>, and the output file's name lies behind it.\<close>

definition found :: "bytes \<Rightarrow> nat \<Rightarrow> bytes \<Rightarrow> bytes \<times> bytes option \<times> bool \<Rightarrow> nat option \<times> bool \<Rightarrow> bool" where
  "found m a l = (\<lambda>(c, o', ap) (out, app). cstr m a l \<and> c = trim l \<and> app = ap \<and>
     (case (out, o') of (None, None) \<Rightarrow> True | (Some p, Some t) \<Rightarrow> cstr m p t \<and> a + length l < p | _ \<Rightarrow> False))"

lemma wp_find_output:
  assumes s: "cstr m a cs"
    and Q: "\<And>l x m'. found m' a l (redirection cs) x \<Longrightarrow> length l \<le> length cs \<Longrightarrow> changed a (length cs) m m' \<Longrightarrow> Q x m'"
  shows "wp (find_output a) Q E m"
  unfolding find_output_def wp_seq
proof (rule wp_with_lit, rule wp_strstr [OF cstr_append [OF s] cstr_lit])
  fix i assume i: "prefix [0x3e, 0x3e] (drop i cs)" "\<And>j. j < i \<Longrightarrow> \<not> prefix [0x3e, 0x3e] (drop j cs)"
  have i2: "i + 2 \<le> length cs" using prefix_length_le [OF i(1)] by simp
  have "redirection cs = (trim (take i cs), Some (rstrip [0x20, 0x0a] (trim (drop (i + 2) cs))), True)"
    using split_append_some [OF i] by (simp add: redirection_def)
  then have "wp (take_output (a + i) 2 [0x20, 0x0a]) (\<lambda>out. Q (Some out, True)) E m"
    using i2 by (intro wp_take_output [OF s]) (auto intro!: Q [of _ "take i cs"] simp: found_def)
  then show "wp (case Some (a + i) of Some p \<Rightarrow> seq (take_output p 2 [0x20, 0x0a]) (\<lambda>out. ret (Some out, True))
      | None \<Rightarrow> seq (strchr a 0x3e) (\<lambda>out_pos. case out_pos of
          Some p \<Rightarrow> seq (take_output p 1 [0x20, 0x0a, 0x3e]) (\<lambda>out. ret (Some out, False)) | None \<Rightarrow> ret (None, False))) Q E
      (take (length m) (m @ [0x3e, 0x3e] @ [0]))" by (simp add: wp_seq_fun wp_ret)
next
  assume n: "\<not> sublist [0x3e, 0x3e] cs"
  note red = redirection_def [of cs, unfolded split_append_none [OF n]]
  have "wp (strchr a 0x3e) (\<lambda>out_pos. wp (case out_pos of
      Some p \<Rightarrow> seq (take_output p 1 [0x20, 0x0a, 0x3e]) (\<lambda>out. ret (Some out, False)) | None \<Rightarrow> ret (None, False)) Q E) E m"
  proof (rule wp_strchr [OF s])
    assume "0x3e \<notin> set cs"
    then show "wp (case None of Some p \<Rightarrow> seq (take_output p 1 [0x20, 0x0a, 0x3e]) (\<lambda>out. ret (Some out, False))
        | None \<Rightarrow> ret (None, False)) Q E m"
      using red s by (auto simp: wp_ret found_def intro!: Q [of _ cs])
  next
    fix i assume "i \<le> length cs" "(cs @ [0]) ! i = 0x3e" "0x3e \<notin> set (take i cs)"
    note f = first_char [OF this(1,2) _ this(3)]
    have "redirection cs = (trim (take i cs), Some (rstrip [0x20, 0x0a, 0x3e] (trim (drop (i + 1) cs))), False)"
      using red f by simp
    then have "wp (take_output (a + i) 1 [0x20, 0x0a, 0x3e]) (\<lambda>out. Q (Some out, False)) E m"
      using f(4) by (intro wp_take_output [OF s]) (auto intro!: Q [of _ "take i cs"] simp: found_def)
    then show "wp (case Some (a + i) of Some p \<Rightarrow> seq (take_output p 1 [0x20, 0x0a, 0x3e]) (\<lambda>out. ret (Some out, False))
        | None \<Rightarrow> ret (None, False)) Q E m" by (simp add: wp_seq_fun wp_ret)
  qed
  then show "wp (case None of Some p \<Rightarrow> seq (take_output p 2 [0x20, 0x0a]) (\<lambda>out. ret (Some out, True))
      | None \<Rightarrow> seq (strchr a 0x3e) (\<lambda>out_pos. case out_pos of
          Some p \<Rightarrow> seq (take_output p 1 [0x20, 0x0a, 0x3e]) (\<lambda>out. ret (Some out, False)) | None \<Rightarrow> ret (None, False))) Q E
      (take (length m) (m @ [0x3e, 0x3e] @ [0]))" by (simp add: wp_seq_fun del: One_nat_def)
qed simp

text \<open>The pointers that \<open>parse_redirection\<close> returns point at the strings of \<open>redirection\<close>.\<close>

definition parsed :: "bytes \<Rightarrow> nat \<times> nat option \<times> bool \<Rightarrow> bytes \<times> bytes option \<times> bool \<Rightarrow> bool" where
  "parsed m = (\<lambda>(act, out, app) (c, o', ap). cstr m act c \<and> app = ap \<and>
     (case (out, o') of (None, None) \<Rightarrow> True | (Some p, Some t) \<Rightarrow> cstr m p t | _ \<Rightarrow> False))"

lemma wp_parse_redirection:
  assumes s: "cstr m a cs"
    and Q: "\<And>res m'. parsed m' res (redirection cs) \<Longrightarrow> changed a (length cs) m m' \<Longrightarrow> Q res m'"
  shows "wp (parse_redirection a) Q E m"
  unfolding parse_redirection_def wp_seq
proof (rule wp_find_output [OF s])
  fix l x m1 assume f: "found m1 a l (redirection cs) x" "length l \<le> length cs" and ch: "changed a (length cs) m m1"
  obtain out app where x: "x = (out, app)" by (cases x)
  obtain c t ap where red: "redirection cs = (c, t, ap)" by (cases "redirection cs") auto
  from f x red have l: "cstr m1 a l" "c = trim l" "app = ap" by (simp_all add: found_def)
  have "wp (trim_whitespace a) (\<lambda>act. Q (act, out, app)) E m1"
  proof (rule wp_trim_whitespace [OF l(1)])
    fix act m' assume m': "cstr m' act (trim l)" "changed a (length l) m1 m'"
    have "cstr m' p ds" if "cstr m1 p ds" "a + length l < p" for p ds
      by (rule cstr_changed [OF that(1) m'(2)]) (use that(2) in simp)
    then have "parsed m' (act, out, app) (redirection cs)"
      using f m'(1) l x red by (auto simp: found_def parsed_def split: option.splits)
    then show "Q (act, out, app) m'" using changed_trans [OF ch m'(2)] f(2) by (intro Q) simp_all
  qed
  then show "wp (case x of (output_file, is_append) \<Rightarrow> seq (trim_whitespace a) (\<lambda>actual_cmd.
      ret (actual_cmd, output_file, is_append))) Q E m1" using x by (simp add: wp_seq_fun wp_ret)
qed

text \<open>On every string in the memory \<open>parse_redirection\<close> terminates, stays inside the string, and
  returns pointers to the command with the blanks around it removed, and to the name behind the
  first \<open>>>\<close>, or else behind the first \<open>>\<close>, without blanks, if there is one.\<close>

theorem parse_redirection_splits:
  assumes "cstr m a cs"
  shows "wp (parse_redirection a) (\<lambda>(act, out, app) m'. case redirection cs of (c, o', ap) \<Rightarrow>
      cstr m' act c \<and> app = ap \<and> (o' = None \<longleftrightarrow> out = None) \<and> (\<forall>p \<in> set_option out. cstr m' p (the o')) \<and>
      length m' = length m \<and> (\<forall>i. i < a \<or> a + length cs \<le> i \<longrightarrow> m' ! i = m ! i)) (\<lambda>_ _. False) m"
  by (rule wp_parse_redirection [OF assms])
    (auto simp: parsed_def changed_def split: prod.splits option.splits)

lemma parse_redirection_splits_witness:
  "wp (parse_redirection 0) (\<lambda>(act, out, app) m'. cstr m' act (str ''echo a'') \<and> \<not> app \<and>
      (\<exists>p. out = Some p \<and> cstr m' p (str ''f'')))
      (\<lambda>_ _. False) (str ''  echo a > f> '' @ [0])"
proof -
  have "cstr (str ''  echo a > f> '' @ [0]) 0 (str ''  echo a > f> '')" using cstr_lit [of "str ''  echo a > f> ''" "[]"] by (simp add: str_def)
  moreover have "redirection (str ''  echo a > f> '') = (str ''echo a'', Some (str ''f''), False)"
    by (simp add: redirection_def str_def trim_def skip_blanks_def rstrip_def)
  ultimately show ?thesis
    by (intro wp_conseq [OF parse_redirection_splits]) auto
qed

subsection \<open>The commands a line stands for\<close>

text \<open>The dispatch on the strings themselves.\<close>

definition run_line :: "device \<Rightarrow> bytes \<times> bytes option \<times> bool \<Rightarrow> (Shell, unit) cm" where
  "run_line mach = (\<lambda>(c, out, app).
     if c = str ''ls'' then cmd_ls mach
     else if c = str ''help'' then cmd_help mach
     else if c = str ''clear'' then on_tty terminal_clear
     else if c = str ''pwd'' then cmd_pwd mach
     else if prefix (str ''echo '') c then cmd_echo mach (drop 5 c) out app
     else if prefix (str ''touch '') c then cmd_touch mach (drop 6 c)
     else if prefix (str ''mkdir '') c then cmd_mkdir mach (drop 6 c)
     else if prefix (str ''cd '') c then cmd_cd mach (Some (drop 3 c))
     else if c = str ''cd'' then cmd_cd mach (Some (str ''/''))
     else if prefix (str ''cat '') c then cmd_cat mach (Some (drop 4 c))
     else
       seq (sh_printf mach (str ''Unknown command: %s'' @ [0x0a]) [VStr (Some c)]) (\<lambda>_.
       sh_printf mach (str ''Type '' @ [0x27] @ str ''help'' @ [0x27] @ str '' for available commands'' @ [0x0a]) []))"

lemma seq_run: "m s = Some (Inr x, s') \<Longrightarrow> seq m f s = f x s'"
  by (simp add: seq_def)

lemma seq_reads: "seq (reads g) f s = f (g s) s"
  by (simp add: seq_def reads_def)

lemma wp_total:
  assumes "wp m Q (\<lambda>_ _. False) s"
  obtains x s' where "m s = Some (Inr x, s')" "Q x s'"
  using assms by (rule wpD) auto

lemma string_at_cstr: "cstr m a cs \<Longrightarrow> string_at a m = cs"
proof (induction cs arbitrary: a)
  case Nil
  then show ?case by (simp add: string_at_def cstr_Nil Cons_nth_drop_Suc [symmetric])
next
  case (Cons c cs)
  then have "drop a m = c # drop (Suc a) m" by (auto simp: cstr_Cons Cons_nth_drop_Suc [symmetric])
  then show ?case using Cons by (simp add: string_at_def cstr_Cons)
qed

lemma string_at_drop: "cstr m a cs \<Longrightarrow> prefix p cs \<Longrightarrow> string_at (a + length p) m = drop (length p) cs"
  by (intro string_at_cstr cstr_drop) (auto dest: prefix_length_le)

lemma wp_on_copy:
  "wp (on_copy m) Q E s = wp m (\<lambda>x b. Q x (s\<lparr>cmd_copy := b\<rparr>)) (\<lambda>e b. E e (s\<lparr>cmd_copy := b\<rparr>)) (cmd_copy s)"
  by (auto simp: wp_def on_copy_def split: option.splits sum.splits prod.splits)

lemma is_command_run:
  assumes "cstr (cmd_copy s) a cs" and "0 \<notin> set (str name)"
  shows "is_command a name s = Some (Inr (cs = str name), s)"
proof -
  have "wp (is_command a name) (\<lambda>b s'. b = (cs = str name) \<and> s' = s) (\<lambda>_ _. False) s"
    unfolding is_command_def wp_seq_fun wp_ret wp_on_copy
    by (rule wp_with_lit, rule wp_strcmp [OF cstr_append [OF assms(1)] cstr_lit [OF assms(2)]])
      (simp add: cmp_ok_def)
  then show ?thesis by (rule wp_total) simp
qed

lemma prefix_take: "prefix p cs \<longleftrightarrow> take (length p) cs = p"
  by (auto simp: prefix_def append_eq_conv_conj) (metis append_take_drop_id)

lemma has_prefix_run:
  assumes "cstr (cmd_copy s) a cs" and "0 \<notin> set (str name)"
  shows "has_prefix a name s = Some (Inr (prefix (str name) cs), s)"
proof -
  have n: "length (str name) = length name" by (simp add: str_def)
  have "wp (has_prefix a name) (\<lambda>b s'. b = prefix (str name) cs \<and> s' = s) (\<lambda>_ _. False) s"
    unfolding has_prefix_def wp_seq_fun wp_ret wp_on_copy
    by (rule wp_with_lit, rule wp_strncmp [OF cstr_append [OF assms(1)] cstr_lit [OF assms(2)]])
      (auto simp: cmp_ok_def n prefix_take)
  then show ?thesis by (rule wp_total) simp
qed

lemma seq_is_command:
  "cstr (cmd_copy s) a cs \<Longrightarrow> 0 \<notin> set (str name) \<Longrightarrow> seq (is_command a name) f s = f (cs = str name) s"
  by (rule seq_run) (rule is_command_run)

lemma seq_has_prefix:
  "cstr (cmd_copy s) a cs \<Longrightarrow> 0 \<notin> set (str name) \<Longrightarrow> seq (has_prefix a name) f s = f (prefix (str name) cs) s"
  by (rule seq_run) (rule has_prefix_run)

text \<open>The array after the line has been copied into it.\<close>

lemma wp_copy_line:
  assumes "length m = 256" and "0 \<notin> set cmd" and "length cmd \<le> 255"
    and Q: "\<And>m'. length m' = 256 \<Longrightarrow> cstr m' 0 cmd \<Longrightarrow> Q m'"
  shows "wp (with_lit cmd (\<lambda>src. strncpy 0 src 255)) (\<lambda>_. wp (stb 255 0) (\<lambda>_. Q) E) E m"
proof (rule wp_with_lit, rule wp_strncpy [OF cstr_lit [OF assms(2)]])
  let ?c = "take 255 (cmd @ replicate 255 0)" and ?m = "m @ cmd @ [0]"
  have "take (length m) (splice ?m 0 ?c) = ?c @ drop 255 m" using assms(1,3) by (simp add: splice_def min_def)
  moreover have "(?c @ drop 255 m)[255 := 0] = ?c @ [0]" if "drop 255 m = [d]" for d
  proof -
    have "length ?c = 255" by simp
    then show ?thesis using that by (simp add: list_update_append del: length_take take_append)
  qed
  moreover obtain d where "drop 255 m = [d]" using assms(1)
    by (cases "drop 255 m") (auto dest!: arg_cong [where f = length])
  moreover have "cstr (?c @ [0]) 0 cmd" "length (?c @ [0]) = 256"
    using assms(2,3) by (auto simp: cstr_def nth_append)
  ultimately show "wp (stb 255 0) (\<lambda>_. Q) E (take (length m) (splice ?m 0 ?c))"
    using Q by (simp add: wp_stb)
qed (use assms in simp_all)

lemma process_command_dispatch:
  assumes "length (cmd_copy s) = 256" and "cmd \<noteq> []" and "0 \<notin> set cmd" and "length cmd \<le> 255"
  shows "\<exists>b. length b = 256 \<and> process_command mach cmd s = run_line mach (redirection cmd) (s\<lparr>cmd_copy := b\<rparr>)"
proof -
  let ?P = "\<lambda>res b. parsed b res (redirection cmd) \<and> length b = 256"
  have "wp (seq (on_copy (with_lit cmd (\<lambda>src. strncpy 0 src 255))) (\<lambda>_. seq (on_copy (stb 255 0)) (\<lambda>_. on_copy (parse_redirection 0))))
      (\<lambda>res s'. \<exists>b. s' = s\<lparr>cmd_copy := b\<rparr> \<and> ?P res b) (\<lambda>_ _. False) s"
    unfolding wp_seq_fun wp_on_copy
    by (simp, rule wp_copy_line [OF assms(1,3,4)]) (auto intro!: wp_parse_redirection simp: changed_def)
  then obtain res b where pre: "seq (on_copy (with_lit cmd (\<lambda>src. strncpy 0 src 255))) (\<lambda>_. seq (on_copy (stb 255 0)) (\<lambda>_.
      on_copy (parse_redirection 0))) s = Some (Inr res, s\<lparr>cmd_copy := b\<rparr>)" and P: "?P res b"
    by (rule wp_total) auto
  obtain act out app where res: "res = (act, out, app)" by (cases res)
  obtain c t ap where red: "redirection cmd = (c, t, ap)" by (cases "redirection cmd") auto
  let ?s = "s\<lparr>cmd_copy := b\<rparr>"
  have act: "cstr (cmd_copy ?s) act c" and app: "app = ap" using P res red by (auto simp: parsed_def)
  have out: "map_option (\<lambda>a. string_at a b) out = t"
    using P res red string_at_cstr by (auto simp: parsed_def split: option.splits)
  have arg: "length p = k \<Longrightarrow> prefix (str p) c \<Longrightarrow> string_at (act + k) b = drop k c" for p k
    using string_at_drop [of b act c "str p"] act by (auto simp: str_def)
  have nz: "0 \<notin> set (str ''ls'')" "0 \<notin> set (str ''help'')" "0 \<notin> set (str ''clear'')" "0 \<notin> set (str ''pwd'')"
    "0 \<notin> set (str ''echo '')" "0 \<notin> set (str ''touch '')" "0 \<notin> set (str ''mkdir '')" "0 \<notin> set (str ''cd '')"
    "0 \<notin> set (str ''cd'')" "0 \<notin> set (str ''cat '')" by (simp_all add: str_def)
  have args: "prefix (str ''echo '') c \<Longrightarrow> string_at (act + 5) b = drop 5 c"
    "prefix (str ''touch '') c \<Longrightarrow> string_at (act + 6) b = drop 6 c" "prefix (str ''mkdir '') c \<Longrightarrow> string_at (act + 6) b = drop 6 c"
    "prefix (str ''cd '') c \<Longrightarrow> string_at (act + 3) b = drop 3 c" "prefix (str ''cat '') c \<Longrightarrow> string_at (act + 4) b = drop 4 c"
    "string_at act b = c"
    using arg [of "''echo ''" 5] arg [of "''touch ''" 6] arg [of "''mkdir ''" 6] arg [of "''cd ''" 3] arg [of "''cat ''" 4]
      string_at_cstr [OF act] by simp_all
  have assoc: "seq (seq m f) g = seq m (\<lambda>x. seq (f x) g)" for m :: "(Shell, 'q) cm" and f :: "'q \<Rightarrow> (Shell, 'r) cm" and g :: "'r \<Rightarrow> (Shell, 'u) cm"
    by (auto simp: seq_def fun_eq_iff split: option.splits sum.splits)
  have step: "seq (on_copy (with_lit cmd (\<lambda>src. strncpy 0 src 255))) (\<lambda>_. seq (on_copy (stb 255 0)) (\<lambda>_.
      seq (on_copy (parse_redirection 0)) F)) s = F res ?s" for F :: "nat \<times> nat option \<times> bool \<Rightarrow> (Shell, unit) cm"
  proof -
    have "seq (seq (on_copy (with_lit cmd (\<lambda>src. strncpy 0 src 255))) (\<lambda>_. seq (on_copy (stb 255 0)) (\<lambda>_.
        on_copy (parse_redirection 0)))) F s = F res ?s" by (rule seq_run) (rule pre)
    then show ?thesis by (simp only: assoc)
  qed
  have "process_command mach cmd s = run_line mach (redirection cmd) ?s"
    using assms(2) act nz app out args
    by (simp add: process_command_def step res red run_line_def seq_reads seq_is_command seq_has_prefix if_distribR)
  then show ?thesis using P by blast
qed

text \<open>C14: For a non-empty line of at most 255 characters, \<open>process_command\<close> runs exactly the command
  that the line stands for, with its argument and its redirection: it is the dispatch \<open>run_line\<close> on
  the strings, in the same state but for the array \<open>cmd_copy\<close>.\<close>

theorem process_command_runs:
  assumes "length (cmd_copy s) = 256" and "cmd \<noteq> []" and "0 \<notin> set cmd" and "length cmd \<le> 255"
  shows "\<exists>b. length b = 256 \<and> process_command mach cmd s = run_line mach (redirection cmd) (s\<lparr>cmd_copy := b\<rparr>)"
  by (rule process_command_dispatch [OF assms])

lemma process_command_runs_witness:
  "\<exists>b. length b = 256 \<and> process_command (ata_sample ata_disk_sample) (str ''echo a >> f'') shell_sample =
     cmd_echo (ata_sample ata_disk_sample) (str ''a'') (Some (str ''f'')) True (shell_sample\<lparr>cmd_copy := b\<rparr>)"
proof -
  have "redirection (str ''echo a >> f'') = (str ''echo a'', Some (str ''f''), True)"
    by (simp add: redirection_def str_def trim_def skip_blanks_def rstrip_def)
  then have "run_line mach (redirection (str ''echo a >> f'')) = cmd_echo mach (str ''a'') (Some (str ''f'')) True" for mach
    by (simp add: run_line_def) (simp add: str_def)
  then show ?thesis
    using process_command_runs [of shell_sample "str ''echo a >> f''" "ata_sample ata_disk_sample"] shell_sample_screen(5)
    by (simp add: str_def)
qed

end
