(* ===== verification/Shell_Line.thy ===== *)
theory Shell_Line
  imports Shell
begin

unbundle bit_operations_syntax

section \<open>The shell: editing a line and running it\<close>

text \<open>
  What the rounds of \<open>shell_loop\<close> do for the characters typed: the line buffer and the screen
  agree on the edited line, and a newline runs it.
\<close>

subsection \<open>Editing the line\<close>

text \<open>
  The line that a character leaves: a backspace takes the last character off where the cursor
  stands right of the prompt's column, and what no longer fits is dropped.
\<close>

definition edit :: "u8 \<Rightarrow> bytes \<Rightarrow> bytes" where
  "edit c l =
     (if c = 0 then l
      else if c = 0x08 then (if 2 < (2 + length l) mod 80 then butlast l else l)
      else if length l < 255 then l @ [c] else l)"

definition edited :: "bytes \<Rightarrow> bytes" where
  "edited keys = fold edit keys []"

lemma edited_snoc [simp]: "edited [] = []" "edited (keys @ [c]) = edit c (edited keys)"
  by (simp_all add: edited_def)

lemma edit_props:
  assumes "length l \<le> 255" and "0 \<notin> set l" and "0x0a \<notin> set l" and "c \<noteq> 0x0a"
  shows "length (edit c l) \<le> 255" "0 \<notin> set (edit c l)" "0x0a \<notin> set (edit c l)"
  using assms by (auto simp: edit_def dest: in_set_butlastD)

lemma edited_props:
  "0x0a \<notin> set keys \<Longrightarrow> length (edited keys) \<le> 255 \<and> 0 \<notin> set (edited keys) \<and> 0x0a \<notin> set (edited keys)"
proof (induction keys rule: rev_induct)
  case (snoc c keys)
  then have "length (edited keys) \<le> 255" "0 \<notin> set (edited keys)" "0x0a \<notin> set (edited keys)" by auto
  from edit_props [OF this, of c] snoc.prems show ?case by auto
qed simp

lemma w_put_back: "w \<noteq> [] \<Longrightarrow> length (last w) < 79 \<Longrightarrow> w_back (w_put e w) = w"
  by (simp add: w_put_def w_back_def)

lemma last_w_put: "length (last w) < 80 \<Longrightarrow> length (last (w_put e w)) = Suc (length (last w)) mod 80"
  by (auto simp: w_put_def w_newline_def Let_def)

lemma w_char_put: "c \<noteq> 0x0a \<Longrightarrow> w_char color c w = w_put (vga_entry c color) w"
  by (simp add: w_char_def)

lemma last_w_chars:
  assumes "w \<noteq> []" and "length (last w) < 80" and "0x0a \<notin> set cs"
  shows "fold (w_char color) cs w \<noteq> [] \<and> length (last (fold (w_char color) cs w)) = (length (last w) + length cs) mod 80"
  using assms(3)
proof (induction cs rule: rev_induct)
  case (snoc c cs)
  then show ?case using last_w_put [of "fold (w_char color) cs w"]
    using w_char_nonempty [of "fold (w_char color) cs w" color c] by (simp add: w_char_put mod_Suc_eq)
qed (use assms in simp)

text \<open>The invariant: \<open>line\<close> is in the buffer and, behind the prompt, on the screen.\<close>

definition editing :: "device \<Rightarrow> u16 list list \<Rightarrow> Shell \<Rightarrow> bytes \<Rightarrow> bytes \<times> u32 \<Rightarrow> Shell \<Rightarrow> bool" where
  "editing mach w s line x s' \<longleftrightarrow> length (fst x) = 256 \<and> snd x = of_nat (length line) \<and> take (length line) (fst x) = line \<and>
     screen mach (fold (w_char (terminal_color (tty s))) line w) s' \<and>
     terminal_color (tty s') = terminal_color (tty s) \<and> s' = with_tty s (tty s')"

lemma wp_shell_key:
  assumes inv: "editing mach w s line x t" and c: "c \<noteq> 0x0a" and w: "w \<noteq> []" "length (last w) = 2"
    and line: "length line \<le> 255" "0x0a \<notin> set line"
    and Q: "\<And>x' t'. editing mach w s (edit c line) x' t' \<Longrightarrow> Q x' t'"
  shows "wp (shell_key mach c x) Q E t"
proof -
  obtain b n where x: "x = (b, n)" by (cases x)
  let ?color = "terminal_color (tty s)" and ?wl = "fold (w_char (terminal_color (tty s))) line w"
  from inv x have b: "length b = 256" "take (length line) b = line" and n: "n = of_nat (length line)"
    and scr: "screen mach ?wl t" and col: "terminal_color (tty t) = ?color" and t: "t = with_tty s (tty t)"
    by (auto simp: editing_def)
  have wt: "with_tty t u = with_tty s u" for u by (subst t) simp
  have un: "unat n = length line" using line(1) n by (simp add: unat_of_nat)
  have lw: "?wl \<noteq> []" "length (last ?wl) = (2 + length line) mod 80"
    using last_w_chars [of w line ?color] w line(2) by simp_all
  have sh: "uart_ok mach" "\<not> dlab (io_hist (tty t))" "shown ?wl (tty t)" using scr by (auto simp: screen_def)
  have column: "unat (terminal_column (tty t)) = (2 + length line) mod 80"
    using shownD(6) [OF sh(3)] lw(2) by (simp add: unat_of_nat)
  consider "c = 0" | "c = 0x08" | "c \<noteq> 0" "c \<noteq> 0x08" by blast
  then show ?thesis
  proof cases
    case 1
    then show ?thesis using inv x Q by (simp add: shell_key_def wp_simps edit_def)
  next
    case 2
    show ?thesis
    proof (cases "2 < (2 + length line) mod 80")
      case True
      then have nonempty: "line \<noteq> []" by auto
      obtain l d where ld: "line = l @ [d]" using nonempty by (cases line rule: rev_cases) auto
      have d: "d \<noteq> 0x0a" "0x0a \<notin> set l" using line(2) ld by auto
      have ll: "fold (w_char ?color) l w \<noteq> []" "length (last (fold (w_char ?color) l w)) = (2 + length l) mod 80"
        using last_w_chars [of w l ?color] w d(2) by simp_all
      have "(2 + length l) mod 80 < 79" using True ld by (simp add: mod_Suc split: if_splits)
      then have undo: "w_back ?wl = fold (w_char ?color) l w"
        using w_put_back [OF ll(1)] ll(2) d(1) ld by (simp add: w_char_def)
      have "wp (terminal_backspace mach) (\<lambda>_ u. Q (b, n - 1) (with_tty t u)) (\<lambda>e u. E e (with_tty t u)) (tty t)"
      proof (rule wp_terminal_backspace [OF sh])
        show "last ?wl \<noteq> []" using lw True by auto
        fix u assume u: "erased ?wl (tty t) u"
        have "n - 1 = of_nat (length l)" and tb: "take (length l) b = l"
          using n ld arg_cong [OF b(2), of "take (length l)"] by simp_all
        then have "editing mach w s l (b, n - 1) (with_tty t u)"
          using u b(1) tb sh(1) ld col undo wt [of u] by (auto simp: editing_def screen_def erased_def line_sent_def)
        then show "Q (b, n - 1) (with_tty t u)" using 2 True ld by (intro Q) (simp add: edit_def)
      qed
      moreover have "2 < terminal_column (tty t)" "0 < n"
        using True column nonempty un by (simp_all add: word_less_nat_alt)
      ultimately show ?thesis using 2 x by (simp add: shell_key_def wp_seq_fun wp_ret wp_on_tty terminal_get_column_def wp_reads)
    next
      case False
      then have "\<not> 2 < terminal_column (tty t)" using column by (simp add: word_less_nat_alt)
      then show ?thesis using 2 x False Q [of x t] inv
        by (simp add: shell_key_def wp_simps terminal_get_column_def edit_def)
    qed
  next
    case 3
    show ?thesis
    proof (cases "length line < 255")
      case True
      have "wp (terminal_putchar mach c) (\<lambda>_ u. Q (b[unat n := c], n + 1) (with_tty t u)) (\<lambda>e u. E e (with_tty t u)) (tty t)"
      proof (rule wp_terminal_putchar [OF sh])
        fix u assume u: "wrote [c] ?wl (tty t) u"
        have "editing mach w s (line @ [c]) (b[unat n := c], n + 1) (with_tty t u)"
          using b n un sh(1) col wroteD [OF u] True wt [of u]
          by (simp add: editing_def screen_def take_Suc_conv_app_nth)
        then show "Q (b[unat n := c], n + 1) (with_tty t u)" using 3 True by (intro Q) (simp add: edit_def)
      qed
      moreover have "n < 255" "unat n < length b" using True un b by (simp_all add: word_less_nat_alt)
      ultimately show ?thesis using 3 c x by (simp add: shell_key_def wp_seq_fun wp_ret wp_on_tty wp_if)
    next
      case False
      then have "\<not> n < 255" using un by (simp add: word_less_nat_alt)
      then show ?thesis using 3 c x False Q [of x t] inv by (simp add: shell_key_def wp_simps edit_def)
    qed
  qed
qed

lemma wp_shell_run:
  assumes "editing mach w s (edited ks) x t" and "0x0a \<notin> set (ks @ cs)" and w: "w \<noteq> []" "length (last w) = 2"
    and Q: "\<And>x' t'. editing mach w s (edited (ks @ cs)) x' t' \<Longrightarrow> Q x' t'"
  shows "wp (shell_run mach cs x) Q E t"
  using assms(1,2) Q
proof (induction cs arbitrary: ks x t)
  case (Cons c cs)
  have "c \<noteq> 0x0a" "length (edited ks) \<le> 255" "0x0a \<notin> set (edited ks)" using Cons.prems(2) edited_props [of ks] by auto
  then show ?case
    unfolding shell_run.simps wp_seq
  proof (rule wp_shell_key [OF Cons.prems(1) _ w])
    fix x' t' assume "editing mach w s (edit c (edited ks)) x' t'"
    then show "wp (shell_run mach cs x') Q E t'"
      using Cons.prems(2,3) by (intro Cons.IH [of "ks @ [c]"]) simp_all
  qed
qed (simp add: wp_ret)

text \<open>C15: From the prompt, with the cursor in column 2 of a line, any sequence of characters without
  a newline is read without leaving the line buffer: afterwards the buffer holds the edited line,
  at most 255 characters of it and none of them 0, the screen shows exactly that line behind the
  prompt, and nothing but the terminal has changed.\<close>

theorem shell_line_editing:
  assumes "screen mach w s" and "length (last w) = 2" and "length cmdbuf = 256" and "0x0a \<notin> set keys"
  shows "wp (shell_run mach keys (cmdbuf, 0)) (\<lambda>(cmdbuf', cmdlen) s'.
      let line = edited keys in
      cmdlen = of_nat (length line) \<and> length line \<le> 255 \<and> 0 \<notin> set line \<and>
      length cmdbuf' = 256 \<and> take (length line) cmdbuf' = line \<and>
      shown (fold (w_char (terminal_color (tty s))) line w) (tty s') \<and>
      unat (terminal_column (tty s')) = (2 + length line) mod 80 \<and> s' = with_tty s (tty s')) (\<lambda>_ _. False) s"
proof (rule wp_shell_run [of mach w s "[]"])
  have w: "w \<noteq> []" using assms(1) shownD(2) by (auto simp: screen_def)
  then show "w \<noteq> []" .
  show "editing mach w s (edited []) (cmdbuf, 0) s" using assms by (simp add: editing_def)
  fix x' t' assume e: "editing mach w s (edited ([] @ keys)) x' t'"
  obtain b n where x': "x' = (b, n)" by (cases x')
  let ?w = "fold (w_char (terminal_color (tty s))) (edited keys) w"
  have sh: "shown ?w (tty t')" using e by (simp add: editing_def screen_def)
  have line: "length (edited keys) \<le> 255" "0 \<notin> set (edited keys)" "0x0a \<notin> set (edited keys)" using edited_props [OF assms(4)] by auto
  have "length (last ?w) = (2 + length (edited keys)) mod 80" using last_w_chars [OF w _ line(3)] assms(2) by simp
  then have "unat (terminal_column (tty t')) = (2 + length (edited keys)) mod 80"
    using shownD(6) [OF sh] by (simp add: unat_of_nat)
  then show "(\<lambda>(cmdbuf', cmdlen) s'. let line = edited keys in
      cmdlen = of_nat (length line) \<and> length line \<le> 255 \<and> 0 \<notin> set line \<and>
      length cmdbuf' = 256 \<and> take (length line) cmdbuf' = line \<and>
      shown (fold (w_char (terminal_color (tty s))) line w) (tty s') \<and>
      unat (terminal_column (tty s')) = (2 + length line) mod 80 \<and> s' = with_tty s (tty s')) x' t'"
    using e sh line x' by (simp add: editing_def)
qed (use assms in simp_all)

subsection \<open>From the keys to the output\<close>

lemma shell_run_append: "shell_run mach (cs @ ds) x = seq (shell_run mach cs x) (shell_run mach ds)"
proof (induction cs arbitrary: x)
  case (Cons c cs)
  then show ?case by (auto simp: seq_def fun_eq_iff split: option.splits sum.splits)
qed (simp add: seq_def ret_def)

lemma wp_process_command:
  assumes "length (cmd_copy s) = 256" "cmd \<noteq> []" "0 \<notin> set cmd" "length cmd \<le> 255"
    and "\<And>b. length b = 256 \<Longrightarrow> wp (run_line mach (redirection cmd)) Q E (s\<lparr>cmd_copy := b\<rparr>)"
  shows "wp (process_command mach cmd) Q E s"
proof -
  have "length b = 256 \<Longrightarrow> process_command mach cmd s = run_line mach (redirection cmd) (s\<lparr>cmd_copy := b\<rparr>) \<Longrightarrow> ?thesis" for b
    using assms(5) [of b] by (simp add: wp_def)
  then show ?thesis using process_command_dispatch [OF assms(1-4)] by blast
qed

lemma wp_prompt:
  assumes "screen mach w s" and Q: "\<And>s'. typed (str ''> '') w s s' \<Longrightarrow> Q () s'"
  shows "wp (prompt mach) Q E s"
  using assms(1) unfolding prompt_def wp_on_tty screen_def
  by (intro wp_terminal_writestring) (auto intro!: Q simp: typed_def str_def)

text \<open>A newline: the line goes to \<open>process_command\<close>, and a prompt follows what it leaves on the screen.\<close>

lemma wp_enter:
  assumes inv: "editing mach w s line x t" and line: "length line \<le> 255" "0 \<notin> set line"
    and Q: "\<And>t' b. typed [0x0a] (fold (w_char (terminal_color (tty s))) line w) t t' \<Longrightarrow> length b = 256 \<Longrightarrow>
      wp (process_command mach line) (\<lambda>_. wp (prompt mach) (\<lambda>_. Q (b, 0)) E) E t'"
  shows "wp (shell_key mach 0x0a x) Q E t"
proof -
  obtain b n where x: "x = (b, n)" by (cases x)
  let ?w = "fold (w_char (terminal_color (tty s))) line w"
  from inv x have b: "length b = 256" "take (length line) b = line" and n: "unat n = length line"
    and scr: "uart_ok mach" "\<not> dlab (io_hist (tty t))" "shown ?w (tty t)"
    using line by (auto simp: editing_def screen_def unat_of_nat)
  have "cstr (b[length line := 0]) 0 line"
    using b line by (auto simp: cstr_def nth_list_update) (metis nth_take)
  then have str: "string_at 0 (b[unat n := 0]) = line" using n by (simp add: string_at_cstr)
  have "wp (terminal_putchar mach 0x0a) (\<lambda>_ d. wp (process_command mach line)
      (\<lambda>_. wp (prompt mach) (\<lambda>_. Q (b[unat n := 0], 0)) E) E (with_tty t d)) (\<lambda>e d. E e (with_tty t d)) (tty t)"
    by (rule wp_terminal_putchar [OF scr]) (use b in \<open>auto intro!: Q simp: typed_def\<close>)
  then show ?thesis using x b n line str by (simp add: shell_key_def wp_seq_fun wp_ret wp_on_tty Let_def)
qed

lemma screen_copy [simp]: "screen mach w (s\<lparr>cmd_copy := b\<rparr>) = screen mach w s"
  by (simp add: screen_def)

lemma format_line: "format_text (str ''%s'' @ [0x0a]) [VStr (Some cs)] = Some (cs @ [0x0a])"
  by (simp add: str_def precision_def conv_text_def va_str_def str_text_def)

lemma wp_print_line:
  assumes "screen mach w s" and "length cs < 1000"
    and Q: "\<And>s'. typed (cs @ [0x0a]) w s s' \<Longrightarrow> Q () s'"
  shows "wp (sh_printf mach (str ''%s'' @ [0x0a]) [VStr (Some cs)]) Q E s"
  by (rule wp_sh_printf [OF assms(1) format_line]) (use assms(2) Q in simp_all)

lemma redirection_plain: "0x3e \<notin> set cs \<Longrightarrow> redirection cs = (trim cs, None, False)"
proof -
  assume n: "0x3e \<notin> set cs"
  then have "\<not> sublist [0x3e, 0x3e] cs" by (auto simp: sublist_def)
  then show ?thesis using n by (simp add: redirection_def split_append_none)
qed

text \<open>\<open>trim\<close> takes the blanks off both ends of a text and leaves the rest.\<close>

lemma trim_blanks:
  assumes "\<forall>b \<in> set pre \<union> set post. is_blank b" and "\<not> is_blank c" and "last cs \<notin> {0x20, 0x09, 0x0a}" and "cs \<noteq> []"
  shows "trim (pre @ (c # cs) @ post) = c # cs"
proof -
  have "skip_blanks (pre @ (c # cs) @ post) = c # cs @ post"
    using assms(1,2) by (simp add: skip_blanks_def)
  moreover have "rstrip [0x20, 0x09, 0x0a] (cs @ post) = cs"
  proof -
    have "dropWhile (\<lambda>c. c \<in> set [0x20, 0x09, 0x0a :: u8]) (rev post @ rev cs) =
        dropWhile (\<lambda>c. c \<in> set [0x20, 0x09, 0x0a]) (rev cs)"
      using assms(1) by (intro dropWhile_append2) auto
    then show ?thesis
      using assms(3,4) by (cases cs rule: rev_cases) (simp_all add: rstrip_def)
  qed
  ultimately show ?thesis by (simp add: trim_def Let_def)
qed

lemma run_line_echo: "run_line mach (str ''echo '' @ t, out, app) = cmd_echo mach t out app"
  by (simp add: run_line_def) (simp add: str_def)

text \<open>C16: the line \<open>echo t\<close>, typed with whatever corrections and blanks at both ends, and a
  newline: the shell reads it, dispatches it and prints \<open>t\<close>, so the screen shows the line, \<open>t\<close>
  and the next prompt, in this order and nothing else; the line buffer is empty again and the
  directory the same. The text \<open>t\<close> is not empty, does not end with a blank (the blanks at the
  end are not printed), and holds no \<open>>\<close>, with which the text would go to a file instead.\<close>

theorem shell_echo:
  assumes "screen mach w s" and "length (last w) = 2" and "length cmdbuf = 256" and "length (cmd_copy s) = 256"
    and "0x0a \<notin> set keys" and "edited keys = pre @ str ''echo '' @ t @ post"
    and "t \<noteq> []" and "last t \<notin> {0x20, 0x09}" and "0x3e \<notin> set t"
    and "set pre \<subseteq> {0x20, 0x09}" and "set post \<subseteq> {0x20, 0x09}"
  shows "wp (shell_run mach (keys @ [0x0a]) (cmdbuf, 0)) (\<lambda>(b, n) s'.
      length b = 256 \<and> n = 0 \<and> g_cwd s' = g_cwd s \<and>
      shown (fold (w_char (terminal_color (tty s))) (edited keys @ [0x0a] @ t @ [0x0a] @ str ''> '') w) (tty s'))
      (\<lambda>_ _. False) s" (is "wp _ ?Q ?E s")
  unfolding shell_run_append wp_seq
proof (rule wp_shell_run [of mach w s "[]"])
  let ?color = "terminal_color (tty s)"
  have w: "w \<noteq> []" using assms(1) shownD(2) by (auto simp: screen_def)
  then show "w \<noteq> []" .
  show "editing mach w s (edited []) (cmdbuf, 0) s" using assms by (simp add: editing_def)
  have line: "length (edited keys) \<le> 255" "0 \<notin> set (edited keys)" "0x0a \<notin> set (edited keys)"
    using edited_props [OF assms(5)] by auto
  have "0x0a \<notin> set t" using line(3) assms(6) by simp
  then have "last t \<noteq> 0x0a" using last_in_set [OF assms(7)] by metis
  then have "trim (pre @ (0x65 # str ''cho '' @ t) @ post) = 0x65 # str ''cho '' @ t"
    using assms(7,8,10,11) by (intro trim_blanks) (auto simp: str_def)
  moreover have "0x3e \<notin> set (edited keys)" using assms(6,9,10,11) by (auto simp: str_def)
  ultimately have "redirection (edited keys) = (str ''echo '' @ t, None, False)"
    using assms(6) by (simp add: redirection_plain str_def)
  then have run: "run_line mach (redirection (edited keys)) = cmd_echo mach t None False"
    using run_line_echo by simp
  have short: "length t < 1000" using line(1) assms(6) by simp
  fix x u assume "editing mach w s (edited ([] @ keys)) x u"
  then have e: "editing mach w s (edited keys) x u" by simp
  then have u: "screen mach (fold (w_char ?color) (edited keys) w) u" "terminal_color (tty u) = ?color"
    "g_cwd u = g_cwd s" "cmd_copy u = cmd_copy s"
    by (simp_all add: editing_def) (metis with_tty_simps(4,5))+
  show "wp (shell_run mach [0x0a] x) ?Q ?E u"
    unfolding shell_run.simps wp_seq wp_ret
  proof (rule wp_enter [OF e line(1,2)])
    fix u1 and b :: bytes assume "typed [0x0a] (fold (w_char ?color) (edited keys) w) u u1" and b: "length b = 256"
    note u1 = typedD [OF this(1) u(1), unfolded u(2)]
    show "wp (process_command mach (edited keys)) (\<lambda>_. wp (prompt mach) (\<lambda>_. ?Q (b, 0)) ?E) ?E u1"
    proof (rule wp_process_command, unfold run)
      fix c :: bytes
      have s1: "screen mach (fold (w_char ?color) [0x0a] (fold (w_char ?color) (edited keys) w)) (u1\<lparr>cmd_copy := c\<rparr>)" using u1(1) by simp
      show "wp (cmd_echo mach t None False) (\<lambda>_. wp (prompt mach) (\<lambda>_. ?Q (b, 0)) ?E) ?E (u1\<lparr>cmd_copy := c\<rparr>)"
        unfolding cmd_echo_def option.case
      proof (rule wp_print_line [OF s1 short])
        fix u2 assume "typed (t @ [0x0a]) (fold (w_char ?color) [0x0a] (fold (w_char ?color) (edited keys) w)) (u1\<lparr>cmd_copy := c\<rparr>) u2"
        note u2 = typedD [OF this s1]
        show "wp (prompt mach) (\<lambda>_. ?Q (b, 0)) ?E u2"
        proof (rule wp_prompt [OF u2(1)])
          fix u3 assume "typed (str ''> '') (fold (w_char (terminal_color (tty (u1\<lparr>cmd_copy := c\<rparr>)))) (t @ [0x0a])
              (fold (w_char ?color) [0x0a] (fold (w_char ?color) (edited keys) w))) u2 u3"
          note u3 = typedD [OF this u2(1)]
          show "?Q (b, 0) u3"
            using u3(1,3) u2(2,3) u1(2,3) u(3) b assms(6) by (simp add: screen_def)
        qed
      qed
    qed (use u1 u assms line in \<open>auto simp: str_def\<close>)
  qed
qed (use assms in simp_all)

subsection \<open>Witnesses\<close>

lemma wp_sample_prompt:
  assumes "\<And>s. screen (ata_sample ata_disk_sample) [[0x0f3e, 0x0f20]] s \<Longrightarrow> terminal_color (tty s) = 0x0f \<Longrightarrow>
    length (cmd_copy s) = 256 \<Longrightarrow> wp m Q E s"
  shows "wp (seq (prompt (ata_sample ata_disk_sample)) (\<lambda>_. m)) Q E shell_sample"
  unfolding wp_seq
proof (rule wp_prompt [OF shell_sample_screen(1)])
  fix s assume "typed (str ''> '') [[]] shell_sample s"
  note s = typedD [OF this shell_sample_screen(1)]
  show "wp m Q E s"
    using s shell_sample_screen(2,5)
    by (intro assms) (simp_all add: str_def w_char_def w_put_def vga_entry_def push_bit_eq_mult)
qed

lemma shell_line_editing_witness:
  "wp (seq (prompt (ata_sample ata_disk_sample)) (\<lambda>_. shell_run (ata_sample ata_disk_sample)
      [0x6c, 0x78, 0x08, 0x73, 0x08, 0x08, 0x08, 0x6c, 0x73] (replicate 256 0, 0))) (\<lambda>(b, n) s'.
      n = 2 \<and> take 2 b = str ''ls'' \<and> shown [[0x0f3e, 0x0f20, 0x0f6c, 0x0f73]] (tty s')) (\<lambda>_ _. False) shell_sample"
proof (rule wp_sample_prompt)
  let ?keys = "[0x6c, 0x78, 0x08, 0x73, 0x08, 0x08, 0x08, 0x6c, 0x73] :: bytes"
  have line: "edited ?keys = [0x6c, 0x73]" by (simp add: edited_def edit_def)
  fix s assume s: "screen (ata_sample ata_disk_sample) [[0x0f3e, 0x0f20]] s" "terminal_color (tty s) = 0x0f"
  show "wp (shell_run (ata_sample ata_disk_sample) ?keys (replicate 256 0, 0)) (\<lambda>(b, n) s'.
      n = 2 \<and> take 2 b = str ''ls'' \<and> shown [[0x0f3e, 0x0f20, 0x0f6c, 0x0f73]] (tty s')) (\<lambda>_ _. False) s"
    by (rule wp_conseq [OF shell_line_editing [OF s(1)]])
      (use s(2) in \<open>auto simp: line str_def w_char_def w_put_def vga_entry_def push_bit_eq_mult numeral_2_eq_2 [symmetric]\<close>)
qed

lemma shell_echo_witness:
  "wp (seq (prompt (ata_sample ata_disk_sample)) (\<lambda>_. shell_run (ata_sample ata_disk_sample)
      (str ''echoo'' @ [0x08] @ str '' ok '' @ [0x0a]) (replicate 256 0, 0))) (\<lambda>(b, n) s'.
      n = 0 \<and> shown [[0x0f3e, 0x0f20] @ map (\<lambda>c. vga_entry c 0x0f) (str ''echo ok ''), [0x0f6f, 0x0f6b], [0x0f3e, 0x0f20]] (tty s'))
      (\<lambda>_ _. False) shell_sample"
proof (rule wp_sample_prompt)
  let ?keys = "str ''echoo'' @ [0x08] @ str '' ok ''"
  have line: "edited ?keys = [] @ str ''echo '' @ str ''ok'' @ [0x20]" by (simp add: edited_def edit_def str_def)
  have keys: "str ''echoo'' @ [0x08] @ str '' ok '' @ [0x0a] = ?keys @ [0x0a]" by simp
  have nonl: "0x0a \<notin> set ?keys" by (simp add: str_def)
  fix s assume s: "screen (ata_sample ata_disk_sample) [[0x0f3e, 0x0f20]] s" "terminal_color (tty s) = 0x0f" "length (cmd_copy s) = 256"
  show "wp (shell_run (ata_sample ata_disk_sample) (str ''echoo'' @ [0x08] @ str '' ok '' @ [0x0a]) (replicate 256 0, 0)) (\<lambda>(b, n) s'.
      n = 0 \<and> shown [[0x0f3e, 0x0f20] @ map (\<lambda>c. vga_entry c 0x0f) (str ''echo ok ''), [0x0f6f, 0x0f6b], [0x0f3e, 0x0f20]] (tty s'))
      (\<lambda>_ _. False) s"
    unfolding keys
    by (rule wp_conseq [OF shell_echo [OF s(1) _ _ s(3) nonl line]])
      (use s(2) in \<open>auto simp: edited_def edit_def str_def w_char_def w_put_def w_newline_def vga_entry_def push_bit_eq_mult\<close>)
qed

end
