(* ===== verification/Kheap.thy ===== *)
theory Kheap
  imports CMonad Interfaces
begin

unbundle bit_operations_syntax

section \<open>The kernel heap (mm/kheap.c)\<close>

text \<open>
  The heap is the MiB from \<open>HEAP_START\<close> on, a linked list of blocks, each a 12-byte header
  followed by its data. \<open>heap_mem\<close> gives the header at an address; the addresses of headers
  in use are at least 12 apart (the invariant below), so headers do not overlap.
\<close>

subsection \<open>The code\<close>

abbreviation (input) HEAP_START :: nat where "HEAP_START \<equiv> 0x00200000"
abbreviation (input) HEAP_SIZE :: nat where "HEAP_SIZE \<equiv> 0x00100000"

record heap_block =
  hb_size :: u32
  hb_is_free :: bool
  hb_next :: u32

record Kheap =
  heap_head :: u32
  heap_mem :: "u32 \<Rightarrow> heap_block"

definition getB :: "u32 \<Rightarrow> (Kheap, heap_block) cm" where
  "getB a = reads (\<lambda>s. heap_mem s a)"

definition setB :: "u32 \<Rightarrow> (heap_block \<Rightarrow> heap_block) \<Rightarrow> (Kheap, unit) cm" where
  "setB a f = modify (\<lambda>s. s\<lparr>heap_mem := (heap_mem s)(a := f (heap_mem s a))\<rparr>)"

definition kheap_init :: "(Kheap, unit) cm" where
  "kheap_init =
     seq (modify (\<lambda>s. s\<lparr>heap_head := of_nat HEAP_START\<rparr>)) (\<lambda>_.
     setB (of_nat HEAP_START) (\<lambda>b. \<lparr>hb_size = of_nat (HEAP_SIZE - 12), hb_is_free = True, hb_next = 0\<rparr>))"

definition kmalloc_step :: "u32 \<Rightarrow> u32 \<Rightarrow> (Kheap, u32 + u32) cm" where
  "kmalloc_step sz cur =
     (if cur = 0 then ret (Inr 0)
      else
        seq (getB cur) (\<lambda>b.
        if hb_is_free b \<and> sz \<le> hb_size b then
          seq (if sz + 12 + 8 \<le> hb_size b then
                 seq (setB (cur + 12 + sz) (\<lambda>_. \<lparr>hb_size = hb_size b - sz - 12,
                        hb_is_free = True, hb_next = hb_next b\<rparr>)) (\<lambda>_.
                 setB cur (\<lambda>c. c\<lparr>hb_size := sz, hb_next := cur + 12 + sz\<rparr>))
               else ret ()) (\<lambda>_.
          seq (setB cur (\<lambda>c. c\<lparr>hb_is_free := False\<rparr>)) (\<lambda>_.
          ret (Inr (cur + 12))))
        else ret (Inl (hb_next b))))"

definition kmalloc :: "u32 \<Rightarrow> (Kheap, u32) cm" where
  "kmalloc sz =
     (if sz = 0 then ret 0
      else
        seq (reads heap_head) (\<lambda>head.
        loop (kmalloc_step ((sz + 7) AND NOT 7)) head))"

definition kfree_step :: "u32 \<Rightarrow> (Kheap, u32 + unit) cm" where
  "kfree_step cur =
     (if cur = 0 then ret (Inr ())
      else
        seq (getB cur) (\<lambda>b.
        seq (getB (hb_next b)) (\<lambda>n.
        if hb_is_free b \<and> hb_next b \<noteq> 0 \<and> hb_is_free n then
          seq (setB cur (\<lambda>c. c\<lparr>hb_size := hb_size b + (12 + hb_size n), hb_next := hb_next n\<rparr>)) (\<lambda>_.
          ret (Inl cur))
        else ret (Inl (hb_next b)))))"

definition kfree :: "u32 \<Rightarrow> (Kheap, unit) cm" where
  "kfree ptr =
     (if ptr = 0 then ret ()
      else
        seq (setB (ptr - 12) (\<lambda>b. b\<lparr>hb_is_free := True\<rparr>)) (\<lambda>_.
        seq (reads heap_head) (\<lambda>head.
        loop kfree_step head)))"

lemmas kheap_ops = getB_def setB_def

subsection \<open>The blocks of the heap\<close>

text \<open>
  \<open>blocks m a bs\<close>: from address \<open>a\<close> to the end of the heap the list consists of blocks with
  the sizes and free marks \<open>bs\<close>, each beginning where the one before ends.
\<close>

abbreviation (input) HEAP_END :: nat where "HEAP_END \<equiv> 0x00300000"

fun blocks :: "(u32 \<Rightarrow> heap_block) \<Rightarrow> nat \<Rightarrow> (nat \<times> bool) list \<Rightarrow> bool" where
  "blocks m a [] = False"
| "blocks m a [(n, f)] = (0 < a \<and> a + 12 + n = HEAP_END \<and>
     m (of_nat a) = \<lparr>hb_size = of_nat n, hb_is_free = f, hb_next = 0\<rparr>)"
| "blocks m a ((n, f) # b # bs) = (0 < a \<and> a + 12 + n < HEAP_END \<and>
     m (of_nat a) = \<lparr>hb_size = of_nat n, hb_is_free = f, hb_next = of_nat (a + 12 + n)\<rparr> \<and>
     blocks m (a + 12 + n) (b # bs))"

text \<open>First fit on the list of blocks: the pointer handed out and the new list.\<close>

fun fit :: "nat \<Rightarrow> nat \<Rightarrow> (nat \<times> bool) list \<Rightarrow> (nat \<times> (nat \<times> bool) list) option" where
  "fit r a [] = None"
| "fit r a ((n, f) # bs) =
     (if f \<and> r \<le> n then
        Some (a + 12, if r + 20 \<le> n then (r, False) # (n - r - 12, True) # bs else (n, False) # bs)
      else map_option (\<lambda>(p, cs). (p, (n, f) # cs)) (fit r (a + 12 + n) bs))"

text \<open>Marking the block with data at \<open>q\<close> free, and joining neighbours that are free.\<close>

fun mark :: "nat \<Rightarrow> nat \<Rightarrow> (nat \<times> bool) list \<Rightarrow> (nat \<times> bool) list" where
  "mark q a [] = []"
| "mark q a ((n, f) # bs) = (n, f \<or> q = a + 12) # mark q (a + 12 + n) bs"

fun coalesce :: "(nat \<times> bool) list \<Rightarrow> (nat \<times> bool) list" where
  "coalesce [] = []"
| "coalesce [b] = [b]"
| "coalesce ((n, f) # (k, g) # bs) =
     (if f \<and> g then coalesce ((n + 12 + k, True) # bs) else (n, f) # coalesce ((k, g) # bs))"

text \<open>The data pointers of the blocks that are handed out, with their sizes.\<close>

fun taken :: "nat \<Rightarrow> (nat \<times> bool) list \<Rightarrow> (nat \<times> nat) list" where
  "taken a [] = []"
| "taken a ((n, f) # bs) = (if f then [] else [(a + 12, n)]) @ taken (a + 12 + n) bs"

definition kheap_ok :: "Kheap \<Rightarrow> (nat \<times> bool) list \<Rightarrow> bool" where
  "kheap_ok s bs \<longleftrightarrow> heap_head s = of_nat HEAP_START \<and> blocks (heap_mem s) HEAP_START bs"

lemma blocks_bounds: "blocks m a bs \<Longrightarrow> 0 < a \<and> a + 12 \<le> HEAP_END"
  by (cases "(m, a, bs)" rule: blocks.cases) auto

lemma blocks_nonzero: "blocks m a bs \<Longrightarrow> (of_nat a :: u32) \<noteq> 0"
proof
  assume "blocks m a bs" and "(of_nat a :: u32) = 0"
  then have "unat (of_nat a :: u32) = 0" by simp
  then show False using blocks_bounds [OF \<open>blocks m a bs\<close>] by (simp add: unat_of_nat)
qed

lemma blocks_head:
  "blocks m a ((n, f) # bs) \<Longrightarrow> a + 12 + n \<le> HEAP_END \<and> hb_size (m (of_nat a)) = of_nat n \<and>
     hb_is_free (m (of_nat a)) = f \<and> hb_next (m (of_nat a)) = (if bs = [] then 0 else of_nat (a + 12 + n)) \<and>
     (bs \<noteq> [] \<longrightarrow> blocks m (a + 12 + n) bs)"
  by (cases bs) auto

lemma blocks_Cons:
  assumes "0 < a" and "m (of_nat a) = \<lparr>hb_size = of_nat n, hb_is_free = f,
      hb_next = (if bs = [] then 0 else of_nat (a + 12 + n))\<rparr>"
    and "bs = [] \<Longrightarrow> a + 12 + n = HEAP_END" and "bs \<noteq> [] \<Longrightarrow> blocks m (a + 12 + n) bs"
  shows "blocks m a ((n, f) # bs)"
  using assms blocks_bounds [of m "a + 12 + n" bs] by (cases bs) auto

lemma u32_eq: "x < 2 ^ 32 \<Longrightarrow> y < 2 ^ 32 \<Longrightarrow> ((of_nat x :: u32) = of_nat y) = (x = y)"
  by (simp add: word_unat_eq_iff unat_of_nat)

lemma u32_le: "x < 2 ^ 32 \<Longrightarrow> y < 2 ^ 32 \<Longrightarrow> ((of_nat x :: u32) \<le> of_nat y) = (x \<le> y)"
  by (simp add: word_le_nat_alt unat_of_nat)

text \<open>A list of blocks depends only on the headers from its start on.\<close>

lemma blocks_cong:
  "blocks m a bs \<Longrightarrow> (\<And>x. a \<le> x \<Longrightarrow> x < HEAP_END \<Longrightarrow> m' (of_nat x) = m (of_nat x)) \<Longrightarrow> blocks m' a bs"
proof (induction m a bs rule: blocks.induct)
  case (3 m a n f b bs)
  then show ?case by (auto dest: blocks_bounds)
qed auto

subsection \<open>\<open>kmalloc\<close> is first fit\<close>

definition fitted :: "nat \<Rightarrow> nat \<Rightarrow> (nat \<times> bool) list \<Rightarrow> Kheap \<Rightarrow> u32 \<Rightarrow> Kheap \<Rightarrow> bool" where
  "fitted r a bs s p s' \<longleftrightarrow> (case fit r a bs of
     None \<Rightarrow> p = 0 \<and> s' = s
   | Some (q, cs) \<Rightarrow> p = of_nat q \<and> heap_head s' = heap_head s \<and> blocks (heap_mem s') a cs \<and>
       (\<forall>x < a. heap_mem s' (of_nat x) = heap_mem s (of_nat x)))"

lemma fit_nonempty: "fit r a bs = Some (q, cs) \<Longrightarrow> cs \<noteq> []"
  by (induction r a bs arbitrary: cs rule: fit.induct) (auto split: if_splits)

lemma fit_none: "fit r a bs = None \<Longrightarrow> \<forall>(n, free) \<in> set bs. free \<longrightarrow> n < r"
  by (induction r a bs rule: fit.induct) (auto split: if_splits)

lemma fitted_skip:
  assumes b: "blocks (heap_mem s) a ((n, f) # bs)" and no: "\<not> (f \<and> r \<le> n)"
    and tl: "fitted r (a + 12 + n) bs s p s'"
  shows "fitted r a ((n, f) # bs) s p s'"
proof (cases "fit r (a + 12 + n) bs")
  case None
  then show ?thesis using no tl by (auto simp: fitted_def simp del: blocks.simps)
next
  case (Some x)
  obtain q cs where x: "x = (q, cs)" by (cases x)
  have s': "p = of_nat q" "heap_head s' = heap_head s" "blocks (heap_mem s') (a + 12 + n) cs"
    and same: "\<And>y. y < a + 12 + n \<Longrightarrow> heap_mem s' (of_nat y) = heap_mem s (of_nat y)"
    using tl Some x by (auto simp: fitted_def)
  have "bs \<noteq> []" "cs \<noteq> []" using Some x fit_nonempty by auto
  then have "blocks (heap_mem s') a ((n, f) # cs)"
    using b s' same [of a] blocks_bounds [OF b] by (intro blocks_Cons) (cases bs; auto)+
  then show ?thesis using no Some x s' same by (auto simp: fitted_def simp del: blocks.simps)
qed

lemma fitted_here:
  assumes b: "blocks (heap_mem s) a ((n, True) # bs)" and r: "r \<le> n"
    and s': "s' = (if r + 20 \<le> n
      then s\<lparr>heap_mem := (heap_mem s)(of_nat (a + 12 + r) := \<lparr>hb_size = of_nat (n - r - 12), hb_is_free = True,
          hb_next = hb_next (heap_mem s (of_nat a))\<rparr>,
          of_nat a := \<lparr>hb_size = of_nat r, hb_is_free = False, hb_next = of_nat (a + 12 + r)\<rparr>)\<rparr>
      else s\<lparr>heap_mem := (heap_mem s)(of_nat a := (heap_mem s (of_nat a))\<lparr>hb_is_free := False\<rparr>)\<rparr>)"
  shows "fitted r a ((n, True) # bs) s (of_nat (a + 12)) s'"
proof -
  note h = blocks_head [OF b] and bd = blocks_bounds [OF b]
  have other: "(of_nat x :: u32) \<noteq> of_nat y" "(of_nat y :: u32) \<noteq> of_nat x" if "x < y" "y < HEAP_END" for x y
    using that by (simp_all add: u32_eq)
  have tl: "blocks m (a + 12 + n) bs"
    if "\<And>x. a + 12 + n \<le> x \<Longrightarrow> x < HEAP_END \<Longrightarrow> m (of_nat x) = heap_mem s (of_nat x)" "bs \<noteq> []" for m
    using blocks_cong [of "heap_mem s" "a + 12 + n" bs m] h that by auto
  show ?thesis
  proof (cases "r + 20 \<le> n")
    case False
    have "blocks (heap_mem s') a ((n, False) # bs)"
    proof (rule blocks_Cons)
      show "heap_mem s' (of_nat a) = \<lparr>hb_size = of_nat n, hb_is_free = False,
          hb_next = if bs = [] then 0 else of_nat (a + 12 + n)\<rparr>"
        using h False s' by simp
      show "blocks (heap_mem s') (a + 12 + n) bs" if "bs \<noteq> []"
        by (rule tl [OF _ that]) (use False s' other [of a] in auto)
    qed (use b bd in \<open>cases bs; auto\<close>)+
    then show ?thesis using False r s' other h by (auto simp: fitted_def)
  next
    case True
    have "blocks (heap_mem s') (a + 12 + r) ((n - r - 12, True) # bs)"
    proof (rule blocks_Cons)
      have "(of_nat (a + 12 + r) :: u32) \<noteq> of_nat a" using other [of a "a + 12 + r"] True h by auto
      then show "heap_mem s' (of_nat (a + 12 + r)) = \<lparr>hb_size = of_nat (n - r - 12), hb_is_free = True,
          hb_next = if bs = [] then 0 else of_nat (a + 12 + r + 12 + (n - r - 12))\<rparr>"
        using h True s' by simp
      show "blocks (heap_mem s') (a + 12 + r + 12 + (n - r - 12)) bs" if "bs \<noteq> []"
      proof -
        have "blocks (heap_mem s') (a + 12 + n) bs"
        proof (rule tl [OF _ that])
          fix x assume "a + 12 + n \<le> x" "x < HEAP_END"
          then have "(of_nat x :: u32) \<noteq> of_nat a" "(of_nat x :: u32) \<noteq> of_nat (a + 12 + r)"
            using True other(2) [of a x] other(2) [of "a + 12 + r" x] by (auto simp del: of_nat_add)
          then show "heap_mem s' (of_nat x) = heap_mem s (of_nat x)" using True s' by simp
        qed
        moreover have "a + 12 + r + 12 + (n - r - 12) = a + 12 + n" using True by simp
        ultimately show ?thesis by (simp only:)
      qed
      show "a + 12 + r + 12 + (n - r - 12) = HEAP_END" if "bs = []"
        using that True b by simp
    qed (use bd in simp)
    then have rest: "blocks (heap_mem s') (a + 12 + r) ((n - r - 12, True) # bs)" .
    have "heap_mem s' (of_nat a) = \<lparr>hb_size = of_nat r, hb_is_free = False, hb_next = of_nat (a + 12 + r)\<rparr>"
      using True s' by simp
    then have "blocks (heap_mem s') a ((r, False) # (n - r - 12, True) # bs)"
      using rest bd blocks_bounds [OF rest] by (simp del: of_nat_add)
    moreover have "heap_mem s' (of_nat x) = heap_mem s (of_nat x)" if "x < a" for x
    proof -
      have "(of_nat x :: u32) \<noteq> of_nat a" "(of_nat x :: u32) \<noteq> of_nat (a + 12 + r)"
        using that True h other(1) [of x a] other(1) [of x "a + 12 + r"] by (auto simp del: of_nat_add)
      then show ?thesis using True s' by simp
    qed
    ultimately show ?thesis using True r s' by (simp add: fitted_def)
  qed
qed

lemma heap_block_upd:
  "c\<lparr>hb_size := x, hb_next := y, hb_is_free := z\<rparr> = \<lparr>hb_size = x, hb_is_free = z, hb_next = y\<rparr>"
  by (cases c) simp

lemma wp_kmalloc_loop:
  assumes "blocks (heap_mem s) a bs"
  shows "wp (loop (kmalloc_step sz) (of_nat a)) (fitted (unat sz) a bs s) (\<lambda>_ _. False) s"
  using assms
proof (induction bs arbitrary: a)
  case (Cons b bs)
  obtain n f where b: "b = (n, f)" by (cases b)
  note h = blocks_head [OF Cons.prems [unfolded b]] and nz = blocks_nonzero [OF Cons.prems]
  have n: "n < 2 ^ 32" using h by simp
  have le: "(sz \<le> of_nat n) = (unat sz \<le> n)" using u32_le [of "unat sz" n] n u32_less [of sz] by simp
  show ?case
  proof (cases "f \<and> unat sz \<le> n")
    case False
    have "wp (case Inl (hb_next (heap_mem s (of_nat a))) of Inl x \<Rightarrow> loop (kmalloc_step sz) x | Inr v \<Rightarrow> ret v)
        (fitted (unat sz) a (b # bs) s) (\<lambda>_ _. False) s"
    proof (cases "bs = []")
      case True
      then have "fitted (unat sz) a (b # bs) s 0 s" using False by (auto simp: fitted_def b)
      then show ?thesis using h True
        by (simp, subst loop_unfold) (simp add: kmalloc_step_def wp_simps)
    next
      case tl: False
      then have "wp (loop (kmalloc_step sz) (of_nat (a + 12 + n))) (fitted (unat sz) (a + 12 + n) bs s) (\<lambda>_ _. False) s"
        using h by (intro Cons.IH) auto
      then show ?thesis using h tl
        by (simp, elim wp_conseq) (use fitted_skip [OF Cons.prems [unfolded b] False] b in auto)
    qed
    then show ?thesis
      using False h nz le
      by (subst loop_unfold) (auto simp: kmalloc_step_def kheap_ops wp_simps)
  next
    case True
    then have b': "blocks (heap_mem s) a ((n, True) # bs)" using Cons.prems b by simp
    have "unat sz + 20 < 2 ^ 32" using True h by simp
    then have split: "(sz + 12 + 8 \<le> of_nat n) = (unat sz + 20 \<le> n)"
      using u32_le [of "unat sz + 20" n] n by (simp add: add.assoc)
    have diff: "of_nat n - sz - 12 = (of_nat (n - unat sz - 12) :: u32)" if "unat sz + 20 \<le> n"
    proof -
      have "of_nat (n - unat sz - 12) = (of_nat n - of_nat (unat sz) - of_nat 12 :: u32)"
        using that by (simp only: of_nat_diff diff_le_mono add_le_imp_le_diff)
      then show ?thesis by simp
    qed
    have ne: "(of_nat (a + 12 + unat sz) :: u32) \<noteq> of_nat a" if "unat sz + 20 \<le> n"
      using h u32_eq [of "a + 12 + unat sz" a] that by simp
    have adr: "(of_nat a :: u32) + 12 + sz = of_nat (a + 12 + unat sz)"
      "(of_nat (a + 12) :: u32) + sz = of_nat (a + 12 + unat sz)"
      "(of_nat a :: u32) + 12 = of_nat (a + 12)" by simp_all
    define t where "t = (if unat sz + 20 \<le> n
      then s\<lparr>heap_mem := (heap_mem s)(of_nat (a + 12 + unat sz) := \<lparr>hb_size = of_nat (n - unat sz - 12),
          hb_is_free = True, hb_next = hb_next (heap_mem s (of_nat a))\<rparr>,
          of_nat a := \<lparr>hb_size = of_nat (unat sz), hb_is_free = False, hb_next = of_nat (a + 12 + unat sz)\<rparr>)\<rparr>
      else s\<lparr>heap_mem := (heap_mem s)(of_nat a := (heap_mem s (of_nat a))\<lparr>hb_is_free := False\<rparr>)\<rparr>)"
    have step: "kmalloc_step sz (of_nat a) s = Some (Inr (Inr (of_nat (a + 12))), t)"
    proof (cases "unat sz + 20 \<le> n")
      case big: True
      show ?thesis
        unfolding kmalloc_step_def kheap_ops seq_def reads_def modify_def ret_def t_def if_P [OF big] adr diff [OF big, symmetric]
        using True h nz le big split ne [OF big] by (simp del: of_nat_add add: heap_block_upd adr)
    next
      case small: False
      show ?thesis
        unfolding kmalloc_step_def kheap_ops seq_def reads_def modify_def ret_def t_def if_not_P [OF small] adr
        using True h nz le small split by (simp del: of_nat_add)
    qed
    have "fitted (unat sz) a (b # bs) s (of_nat (a + 12)) t"
      using fitted_here [OF b' _ t_def] True b by simp
    then show ?thesis by (simp add: wp_def step loop.simps)
  qed
qed simp

subsection \<open>\<open>kfree\<close> joins all free neighbours\<close>

lemma coalesce_nonempty [simp]: "(coalesce bs = []) = (bs = [])"
  by (induction bs rule: coalesce.induct) auto

lemma coalesce_head: "\<exists>k g rest. coalesce ((n, f) # bs) = (k, g) # rest"
  by (cases "coalesce ((n, f) # bs)") (auto simp del: coalesce.simps)

definition joined :: "nat \<Rightarrow> (nat \<times> bool) list \<Rightarrow> Kheap \<Rightarrow> Kheap \<Rightarrow> bool" where
  "joined a bs s s' \<longleftrightarrow> heap_head s' = heap_head s \<and> blocks (heap_mem s') a (coalesce bs) \<and>
     (\<forall>x < a. heap_mem s' (of_nat x) = heap_mem s (of_nat x))"

lemma joined_skip:
  assumes b: "blocks (heap_mem s) a ((n, f) # (k, g) # bs)" and no: "\<not> (f \<and> g)"
    and tl: "joined (a + 12 + n) ((k, g) # bs) s s'"
  shows "joined a ((n, f) # (k, g) # bs) s s'"
proof -
  have tl': "blocks (heap_mem s') (a + 12 + n) (coalesce ((k, g) # bs))"
    and same: "\<And>x. x < a + 12 + n \<Longrightarrow> heap_mem s' (of_nat x) = heap_mem s (of_nat x)"
    using tl by (simp_all add: joined_def)
  obtain k' g' rest where c: "coalesce ((k, g) # bs) = (k', g') # rest" using coalesce_head by blast
  have "blocks (heap_mem s') a ((n, f) # (k', g') # rest)"
    using b tl' same [of a] c by simp
  moreover have "coalesce ((n, f) # (k, g) # bs) = (n, f) # (k', g') # rest" using no c by auto
  ultimately show ?thesis using tl same by (simp add: joined_def)
qed

lemma blocks_join:
  assumes b: "blocks m a ((n, True) # (k, True) # bs)"
  shows "blocks (m(of_nat a := \<lparr>hb_size = of_nat (n + 12 + k), hb_is_free = True,
      hb_next = hb_next (m (of_nat (a + 12 + n)))\<rparr>)) a ((n + 12 + k, True) # bs)" (is "blocks ?m a _")
proof (rule blocks_Cons)
  have tl: "blocks m (a + 12 + n) ((k, True) # bs)" using b by simp
  note h = blocks_head [OF tl]
  show "?m (of_nat a) = \<lparr>hb_size = of_nat (n + 12 + k), hb_is_free = True,
      hb_next = if bs = [] then 0 else of_nat (a + 12 + (n + 12 + k))\<rparr>"
    using h by (simp add: algebra_simps)
  show "a + 12 + (n + 12 + k) = HEAP_END" if "bs = []" using tl that by simp
  show "blocks ?m (a + 12 + (n + 12 + k)) bs" if "bs \<noteq> []"
  proof -
    have "blocks m (a + 12 + n + 12 + k) bs" using h that by simp
    then have "blocks ?m (a + 12 + n + 12 + k) bs"
      by (rule blocks_cong) (use u32_eq in auto)
    then show ?thesis by (simp only: add.assoc)
  qed
qed (use b in simp)

lemma wp_coalesce:
  assumes "blocks (heap_mem s) a bs"
  shows "wp (loop kfree_step (of_nat a)) (\<lambda>_. joined a bs s) (\<lambda>_ _. False) s"
  using assms
proof (induction bs arbitrary: a s rule: coalesce.induct)
  case (2 b)
  obtain n f where b: "b = (n, f)" by (cases b)
  note h = blocks_head [OF 2 [unfolded b]] and nz = blocks_nonzero [OF 2]
  have "joined a [b] s s" using 2 by (simp add: joined_def)
  then show ?case using h nz b
    by (simp add: loop_unfold [of _ "of_nat a"] kfree_step_def kheap_ops wp_simps)
      (simp add: loop_unfold [of _ 0] kfree_step_def wp_simps)
next
  case (3 n f k g bs)
  note h = blocks_head [OF 3(3)] and nz = blocks_nonzero [OF 3(3)]
  have tl: "blocks (heap_mem s) (a + 12 + n) ((k, g) # bs)" using h by simp
  note h2 = blocks_head [OF tl] and nz2 = blocks_nonzero [OF tl]
  show ?case
  proof (cases "f \<and> g")
    case True
    let ?t = "s\<lparr>heap_mem := (heap_mem s)(of_nat a := \<lparr>hb_size = of_nat (n + 12 + k), hb_is_free = True,
        hb_next = hb_next (heap_mem s (of_nat (a + 12 + n)))\<rparr>)\<rparr>"
    have bt: "blocks (heap_mem ?t) a ((n + 12 + k, True) # bs)"
      using blocks_join [of "heap_mem s" a n k bs] 3(3) True by simp
    have "heap_mem ?t (of_nat x) = heap_mem s (of_nat x)" if "x < a" for x
      using that h u32_eq [of x a] by simp
    then have step: "joined a ((n + 12 + k, True) # bs) ?t s' \<Longrightarrow> joined a ((n, f) # (k, g) # bs) s s'" for s'
      using True by (simp add: joined_def)
    have loop: "wp (loop kfree_step (of_nat a)) (\<lambda>_. joined a ((n, f) # (k, g) # bs) s) (\<lambda>_ _. False) ?t"
      by (rule wp_conseq [OF 3(1) [OF True bt]]) (simp_all only: step)
    have "(heap_mem s (of_nat a))\<lparr>hb_size := of_nat n + (12 + of_nat k),
        hb_next := hb_next (heap_mem s (of_nat (a + 12 + n)))\<rparr> =
      \<lparr>hb_size = of_nat (n + 12 + k), hb_is_free = True, hb_next = hb_next (heap_mem s (of_nat (a + 12 + n)))\<rparr>"
      using h True by (cases "heap_mem s (of_nat a)") (simp add: algebra_simps)
    then have "kfree_step (of_nat a) s = Some (Inr (Inl (of_nat a)), ?t)"
      using True h h2 nz nz2
      by (simp del: of_nat_add add: kfree_step_def kheap_ops seq_def reads_def modify_def ret_def)
    then show ?thesis
      using loop by (subst loop_unfold) (simp add: wp_simps wp_result_ret)
  next
    case False
    have "kfree_step (of_nat a) s = Some (Inr (Inl (of_nat (a + 12 + n))), s)"
      using False h h2 nz nz2
      by (auto simp del: of_nat_add simp: kfree_step_def kheap_ops seq_def reads_def modify_def ret_def)
    moreover have "wp (loop kfree_step (of_nat (a + 12 + n))) (\<lambda>_. joined a ((n, f) # (k, g) # bs) s)
        (\<lambda>_ _. False) s"
      by (rule wp_conseq [OF 3(2) [OF False tl]]) (use joined_skip [OF 3(3) False] in auto)
    ultimately show ?thesis
      by (subst loop_unfold) (simp del: of_nat_add add: wp_simps wp_result_ret)
  qed
qed simp

subsection \<open>Pointers and regions\<close>

primrec pointers :: "nat \<Rightarrow> (nat \<times> bool) list \<Rightarrow> nat set" where
  "pointers a [] = {}"
| "pointers a (b # bs) = insert (a + 12) (pointers (a + 12 + fst b) bs)"

lemma pointers_above: "q \<in> pointers a bs \<Longrightarrow> a + 12 \<le> q"
  by (induction bs arbitrary: a) fastforce+

lemma pointers_below: "blocks m a bs \<Longrightarrow> q \<in> pointers a bs \<Longrightarrow> q \<le> HEAP_END"
  by (induction m a bs rule: blocks.induct) auto

lemma mark_above: "q < a + 12 \<Longrightarrow> mark q a bs = bs"
  by (induction q a bs rule: mark.induct) auto

lemma mark_nonempty [simp]: "(mark q a bs = []) = (bs = [])"
  by (cases bs) auto

lemma blocks_mark:
  assumes "blocks m a bs" and "q \<in> pointers a bs"
  shows "blocks (m(of_nat (q - 12) := (m (of_nat (q - 12)))\<lparr>hb_is_free := True\<rparr>)) a (mark q a bs)"
    (is "blocks ?m a _")
  using assms
proof (induction bs arbitrary: a)
  case (Cons b bs)
  obtain n f where b: "b = (n, f)" by (cases b)
  note bl = Cons.prems(1) [unfolded b] and h = blocks_head [OF Cons.prems(1) [unfolded b]]
  have le: "q \<le> HEAP_END" "a + 12 \<le> q"
    using pointers_below [OF Cons.prems] pointers_above [OF Cons.prems(2)] by auto
  have "?m (of_nat a) = \<lparr>hb_size = of_nat n, hb_is_free = f \<or> q = a + 12,
      hb_next = if mark q (a + 12 + n) bs = [] then 0 else of_nat (a + 12 + n)\<rparr>"
  proof (cases "q = a + 12")
    case True
    then show ?thesis using h by (cases "m (of_nat a)") simp
  next
    case False
    have "a + 12 \<le> HEAP_END" using h by simp
    then have "(of_nat a :: u32) \<noteq> of_nat (q - 12)"
      using False le u32_eq [of a "q - 12"] by (auto simp del: of_nat_diff)
    then show ?thesis using h False by (cases "m (of_nat a)") simp
  qed
  moreover have "blocks ?m (a + 12 + n) (mark q (a + 12 + n) bs)" if "bs \<noteq> []"
  proof (cases "q = a + 12")
    case True
    have "blocks ?m (a + 12 + n) bs"
    proof (rule blocks_cong [of m])
      fix x assume "a + 12 + n \<le> x" "x < HEAP_END"
      then have "(of_nat x :: u32) \<noteq> of_nat a" by (simp add: u32_eq)
      then show "?m (of_nat x) = m (of_nat x)" using True by simp
    qed (use h that in simp)
    then show ?thesis using True by (simp add: mark_above)
  next
    case False
    then have "q \<in> pointers (a + 12 + n) bs" using Cons.prems(2) b by simp
    then show ?thesis using Cons.IH h that by blast
  qed
  moreover have "a + 12 + n = HEAP_END" if "bs = []" using bl that by simp
  moreover have "0 < a" using blocks_bounds [OF bl] by simp
  ultimately have "blocks ?m a ((n, f \<or> q = a + 12) # mark q (a + 12 + n) bs)"
    by (intro blocks_Cons) simp_all
  then show ?case by (simp only: b mark.simps)
qed simp

lemma taken_pointers: "(q, n) \<in> set (taken a bs) \<Longrightarrow> q \<in> pointers a bs"
  by (induction a bs rule: taken.induct) (auto split: if_splits)

lemma taken_mark: "set (taken a (mark q a bs)) = {x \<in> set (taken a bs). fst x \<noteq> q}"
proof (induction q a bs rule: mark.induct)
  case (2 q a n f bs)
  have "fst x \<noteq> a + 12" if "x \<in> set (taken (a + 12 + n) bs)" for x
    using pointers_above [OF taken_pointers [of "fst x" "snd x" "a + 12 + n" bs]] that by simp
  then show ?case using 2 by auto
qed simp

lemma taken_coalesce: "taken a (coalesce bs) = taken a bs"
proof (induction bs arbitrary: a rule: coalesce.induct)
  case (3 n f k g bs)
  then show ?case by (auto simp: algebra_simps)
qed auto

lemma taken_fit:
  "fit r a bs = Some (q, cs) \<Longrightarrow> \<exists>n. r \<le> n \<and> n < r + 20 \<and>
     set (taken a cs) = insert (q, n) (set (taken a bs)) \<and> q \<in> pointers a bs \<and> q \<notin> fst ` set (taken a bs)"
proof (induction r a bs arbitrary: cs rule: fit.induct)
  case (2 r a n f bs)
  have above: "a + 12 \<notin> fst ` set (taken (a + 12 + n) bs)"
    using taken_pointers pointers_above by fastforce
  show ?case
  proof (cases "f \<and> r \<le> n")
    case True
    show ?thesis
    proof (cases "r + 20 \<le> n")
      case big: True
      then have "a + 12 + r + 12 + (n - r - 12) = a + 12 + n" by simp
      then show ?thesis using True big 2(2) above by (intro exI [of _ r]) (auto simp: add.commute add.left_commute)
    next
      case False
      then show ?thesis using True 2(2) above by (intro exI [of _ n]) auto
    qed
  next
    case False
    then obtain ds where ds: "fit r (a + 12 + n) bs = Some (q, ds)" "cs = (n, f) # ds"
      using 2(2) by auto
    from 2(1) [OF False ds(1)] obtain k where k: "r \<le> k" "k < r + 20"
      "set (taken (a + 12 + n) ds) = insert (q, k) (set (taken (a + 12 + n) bs))"
      "q \<in> pointers (a + 12 + n) bs" "q \<notin> fst ` set (taken (a + 12 + n) bs)" by blast
    then have "q \<noteq> a + 12" using pointers_above [OF k(4)] by auto
    then show ?thesis using ds k by (intro exI [of _ k]) auto
  qed
qed simp

subsection \<open>The heap as an allocator\<close>

lemma blocks_unique: "blocks m a bs \<Longrightarrow> blocks m a cs \<Longrightarrow> bs = cs"
proof (induction bs arbitrary: a cs)
  case (Cons b bs)
  obtain n f where b: "b = (n, f)" by (cases b)
  obtain k g ds where cs: "cs = (k, g) # ds" using Cons.prems(2) by (cases cs) auto
  note h = blocks_head [OF Cons.prems(1) [unfolded b]] and h' = blocks_head [OF Cons.prems(2) [unfolded cs]]
  have nk: "n = k" using h h' u32_eq [of n k] by simp
  have fg: "f = g" using h h' by simp
  show ?case
  proof (cases "bs = []")
    case True
    then have "ds = []" using h h' nk blocks_nonzero [of m "a + 12 + k" ds] by metis
    then show ?thesis using True b cs nk fg by simp
  next
    case False
    then have bl: "blocks m (a + 12 + n) bs" using h by simp
    then have "ds \<noteq> []" using False h h' nk blocks_nonzero [OF bl] by metis
    then have "blocks m (a + 12 + n) ds" using h' nk by simp
    then show ?thesis using Cons.IH [OF bl] b cs nk fg by simp
  qed
qed simp

lemma kheap_ok_unique: "kheap_ok s bs \<Longrightarrow> kheap_ok s cs \<Longrightarrow> bs = cs"
  by (auto simp: kheap_ok_def intro: blocks_unique)

definition kheap_inv :: "Kheap \<Rightarrow> bool" where
  "kheap_inv s \<longleftrightarrow> (\<exists>bs. kheap_ok s bs)"

definition kheap_used :: "Kheap \<Rightarrow> u32 set" where
  "kheap_used s = {of_nat q |q n bs. kheap_ok s bs \<and> (q, n) \<in> set (taken HEAP_START bs)}"

lemma kheap_used_eq: "kheap_ok s bs \<Longrightarrow> kheap_used s = of_nat ` fst ` set (taken HEAP_START bs)"
proof -
  assume ok: "kheap_ok s bs"
  then have "kheap_ok s cs = (cs = bs)" for cs using kheap_ok_unique by blast
  then have "kheap_used s = {of_nat q |q n. (q, n) \<in> set (taken HEAP_START bs)}"
    by (simp add: kheap_used_def)
  also have "\<dots> = of_nat ` fst ` set (taken HEAP_START bs)"
    by (simp add: image_image set_eq_iff image_iff Bex_def) blast
  finally show ?thesis .
qed

definition kh_alloc :: "u32 \<Rightarrow> Kheap \<Rightarrow> (u32 \<times> Kheap) option" where
  "kh_alloc sz s = (case kmalloc sz s of
     Some (Inr p, s') \<Rightarrow> if p = 0 then None else Some (p, s') | _ \<Rightarrow> None)"

definition kh_release :: "u32 \<Rightarrow> Kheap \<Rightarrow> Kheap" where
  "kh_release p s = (case kfree p s of Some (_, s') \<Rightarrow> s' | None \<Rightarrow> s)"

lemma wp_kmalloc:
  assumes ok: "kheap_ok s bs" and sz: "sz \<noteq> 0"
    and none: "fit (unat ((sz + 7) AND NOT 7)) HEAP_START bs = None \<Longrightarrow> Q 0 s"
    and some: "\<And>q cs s'. fit (unat ((sz + 7) AND NOT 7)) HEAP_START bs = Some (q, cs) \<Longrightarrow> kheap_ok s' cs \<Longrightarrow>
      Q (of_nat q) s'"
  shows "wp (kmalloc sz) Q E s"
proof -
  have head: "heap_head s = of_nat HEAP_START" and b: "blocks (heap_mem s) HEAP_START bs"
    using ok by (auto simp: kheap_ok_def)
  have "wp (loop (kmalloc_step ((sz + 7) AND NOT 7)) (of_nat HEAP_START)) Q E s"
    by (rule wp_conseq [OF wp_kmalloc_loop [OF b]])
      (auto simp: fitted_def kheap_ok_def head intro: none some split: option.splits prod.splits)
  then show ?thesis using sz head by (simp add: kmalloc_def wp_simps)
qed

lemma wp_kfree:
  assumes ok: "kheap_ok s bs" and q: "q \<in> pointers HEAP_START bs"
    and Q: "\<And>s'. kheap_ok s' (coalesce (mark q HEAP_START bs)) \<Longrightarrow> Q () s'"
  shows "wp (kfree (of_nat q)) Q E s"
proof -
  have head: "heap_head s = of_nat HEAP_START" and b: "blocks (heap_mem s) HEAP_START bs"
    using ok by (auto simp: kheap_ok_def)
  have le: "HEAP_START + 12 \<le> q" "q \<le> HEAP_END"
    using pointers_above [OF q] pointers_below [OF b q] by auto
  then have nz: "(of_nat q :: u32) \<noteq> 0" using u32_eq [of q 0] by simp
  have sub: "(of_nat q :: u32) - 12 = of_nat (q - 12)" using le by (simp add: of_nat_diff)
  let ?t = "s\<lparr>heap_mem := (heap_mem s)(of_nat (q - 12) := (heap_mem s (of_nat (q - 12)))\<lparr>hb_is_free := True\<rparr>)\<rparr>"
  have "blocks (heap_mem ?t) HEAP_START (mark q HEAP_START bs)"
    using blocks_mark [OF b q] by simp
  from wp_coalesce [OF this] have "wp (loop kfree_step (of_nat HEAP_START)) Q E ?t"
    by (rule wp_conseq) (auto simp: joined_def kheap_ok_def head intro!: Q)
  then show ?thesis
    using nz sub head by (simp add: kfree_def setB_def wp_simps del: of_nat_diff)
qed

lemma kh_alloc_some:
  assumes "kheap_inv s" and "kh_alloc r s = Some (p, s')"
  shows "kheap_inv s' \<and> p \<notin> kheap_used s \<and> kheap_used s' = insert p (kheap_used s)"
proof -
  obtain bs where bs: "kheap_ok s bs" using assms(1) by (auto simp: kheap_inv_def)
  have "wp (kmalloc r) (\<lambda>p s'. p = 0 \<or>
      kheap_inv s' \<and> p \<notin> kheap_used s \<and> kheap_used s' = insert p (kheap_used s)) (\<lambda>_ _. False) s"
  proof (cases "r = 0")
    case False
    then show ?thesis
    proof (rule wp_kmalloc [OF bs])
      fix q cs s'
      assume f: "fit (unat ((r + 7) AND NOT 7)) HEAP_START bs = Some (q, cs)" and ok: "kheap_ok s' cs"
      obtain n where t: "set (taken HEAP_START cs) = insert (q, n) (set (taken HEAP_START bs))"
        and q: "q \<in> pointers HEAP_START bs" "q \<notin> fst ` set (taken HEAP_START bs)"
        using taken_fit [OF f] by blast
      have bound: "x \<le> HEAP_END" if "x \<in> pointers HEAP_START bs" for x
        using pointers_below bs that by (auto simp: kheap_ok_def)
      have "(of_nat q :: u32) \<noteq> of_nat (fst x)" if "x \<in> set (taken HEAP_START bs)" for x
        using that q bound [OF q(1)] bound [OF taken_pointers [of "fst x" "snd x"]] u32_eq [of q "fst x"] by auto
      then have "of_nat q \<notin> kheap_used s" by (auto simp: kheap_used_eq [OF bs])
      then show "of_nat q = 0 \<or> kheap_inv s' \<and> of_nat q \<notin> kheap_used s \<and> kheap_used s' = insert (of_nat q) (kheap_used s)"
        using t ok by (auto simp: kheap_used_eq [OF bs] kheap_used_eq [OF ok] kheap_inv_def)
    qed simp
  qed (simp add: kmalloc_def wp_simps)
  then show ?thesis
    using assms(2) by (elim wpD) (auto simp: kh_alloc_def split: if_splits)
qed

lemma kh_release_used:
  assumes "kheap_inv s" and "p \<in> kheap_used s"
  shows "kheap_inv (kh_release p s) \<and> kheap_used (kh_release p s) = kheap_used s - {p}"
proof -
  obtain bs where bs: "kheap_ok s bs" using assms(1) by (auto simp: kheap_inv_def)
  obtain q n where q: "p = of_nat q" "(q, n) \<in> set (taken HEAP_START bs)"
    using assms(2) by (auto simp: kheap_used_eq [OF bs])
  have bound: "fst x < 2 ^ 32" if "x \<in> set (taken HEAP_START bs)" for x
    using pointers_below [of "heap_mem s" HEAP_START bs "fst x"] bs taken_pointers [of "fst x" "snd x"] that
    by (fastforce simp: kheap_ok_def)
  have eq: "(of_nat (fst x) = p) = (fst x = q)" if "x \<in> set (taken HEAP_START bs)" for x
    using bound [OF that] bound [OF q(2)] q(1) by (simp add: u32_eq)
  have "wp (kfree p) (\<lambda>_ s'. kheap_inv s' \<and> kheap_used s' = kheap_used s - {p}) (\<lambda>_ _. False) s"
    unfolding q(1)
  proof (rule wp_kfree [OF bs taken_pointers [OF q(2)]])
    fix s' assume ok: "kheap_ok s' (coalesce (mark q HEAP_START bs))"
    have "kheap_used s' = of_nat ` fst ` {x \<in> set (taken HEAP_START bs). fst x \<noteq> q}"
      by (simp add: kheap_used_eq [OF ok] taken_coalesce taken_mark)
    also have "\<dots> = kheap_used s - {of_nat q}"
      using eq q(1) by (auto simp: kheap_used_eq [OF bs])
    finally show "kheap_inv s' \<and> kheap_used s' = kheap_used s - {of_nat q}"
      using ok by (auto simp: kheap_inv_def)
  qed
  then show ?thesis by (elim wpD) (auto simp: kh_release_def)
qed

interpretation kh: allocator kheap_inv kheap_used kh_alloc kh_release
  by unfold_locales (simp_all add: kh_alloc_some kh_release_used)

subsection \<open>The properties\<close>

lemma round8: "(x :: u32) AND - 8 = x div 8 * 8"
proof -
  have "x AND NOT (mask 3) = push_bit 3 (drop_bit 3 x)"
    by (rule bit_word_eqI) (auto simp: bit_simps)
  moreover have "(- 8 :: u32) = NOT (mask 3)" by (simp add: mask_eq_exp_minus_1)
  ultimately show ?thesis by (simp only: push_bit_eq_mult drop_bit_eq_div) simp
qed

lemma unat_round8: "unat ((x :: u32) AND - 8) = unat x div 8 * 8"
proof -
  have "unat x div 8 * 8 < 2 ^ 32"
    using u32_less [of x] by (intro le_less_trans [OF div_times_less_eq_dividend]) simp
  then show ?thesis by (simp add: round8 unat_word_ariths unat_div)
qed

lemma round_up: "unat (sz :: u32) \<le> 0xfffffff8 \<Longrightarrow> unat sz \<le> unat ((sz + 7) AND NOT 7)"
proof -
  assume "unat sz \<le> 0xfffffff8"
  then have "unat (sz + 7) = unat sz + 7" by (simp add: unat_word_ariths)
  then show ?thesis by (simp add: unat_round8)
qed

lemma taken_region: "blocks m a bs \<Longrightarrow> (q, n) \<in> set (taken a bs) \<Longrightarrow> a + 12 \<le> q \<and> q + n \<le> HEAP_END"
proof (induction m a bs rule: blocks.induct)
  case (3 m a k f b bs)
  then show ?case by (cases f) force+
qed (auto split: if_splits)

lemma taken_apart:
  "blocks m a bs \<Longrightarrow> sorted_wrt (\<lambda>x y. fst x + snd x \<le> fst y) (taken a bs)"
proof (induction m a bs rule: blocks.induct)
  case (3 m a k f b bs)
  have "a + 12 + k \<le> fst y" if "y \<in> set (taken (a + 12 + k) (b # bs))" for y
    using taken_region [of m "a + 12 + k" "b # bs" "fst y" "snd y"] that 3(2) by simp
  then show ?case using 3 by simp
qed auto

text \<open>
  C22: \<open>kmalloc\<close> terminates and keeps the heap well formed: after every request the blocks
  still tile the heap. A pointer it returns is the start of a region inside the heap, no
  shorter than the request and less than 28 bytes longer, apart from every region that is
  in use; the null pointer is returned only when no free block is large enough. This is for
  requests of 1 to 0xfffffff8 bytes; a larger one wraps (see below).
\<close>

theorem kmalloc_region:
  assumes "kheap_ok s bs" and "sz \<noteq> 0" and "sz \<le> 0xfffffff8"
  shows "wp (kmalloc sz) (\<lambda>p s'. \<exists>cs. kheap_ok s' cs \<and>
      sorted_wrt (\<lambda>x y. fst x + snd x \<le> fst y) (taken HEAP_START cs) \<and>
      (p = 0 \<longrightarrow> s' = s \<and> (\<forall>(n, free) \<in> set bs. free \<longrightarrow> n < unat ((sz + 7) AND NOT 7))) \<and>
      (p \<noteq> 0 \<longrightarrow> (\<exists>q n. p = of_nat q \<and> HEAP_START + 12 \<le> q \<and> q + n \<le> HEAP_END \<and>
         unat sz \<le> n \<and> n < unat sz + 27 \<and> q \<notin> fst ` set (taken HEAP_START bs) \<and>
         set (taken HEAP_START cs) = insert (q, n) (set (taken HEAP_START bs))))) (\<lambda>_ _. False) s"
proof (rule wp_kmalloc [OF assms(1,2)])
  let ?r = "unat ((sz + 7) AND NOT 7)"
  have sorted: "kheap_ok t cs \<Longrightarrow> sorted_wrt (\<lambda>x y. fst x + snd x \<le> fst y) (taken HEAP_START cs)" for t cs
    using taken_apart by (auto simp: kheap_ok_def)
  {
    assume "fit ?r HEAP_START bs = None"
    then have "\<forall>(n, free) \<in> set bs. free \<longrightarrow> n < ?r" by (rule fit_none)
    then show "\<exists>cs. kheap_ok s cs \<and> sorted_wrt (\<lambda>x y. fst x + snd x \<le> fst y) (taken HEAP_START cs) \<and>
      (0 = (0 :: u32) \<longrightarrow> s = s \<and> (\<forall>(n, free) \<in> set bs. free \<longrightarrow> n < ?r)) \<and>
      (0 \<noteq> (0 :: u32) \<longrightarrow> (\<exists>q n. 0 = (of_nat q :: u32) \<and> HEAP_START + 12 \<le> q \<and> q + n \<le> HEAP_END \<and>
         unat sz \<le> n \<and> n < unat sz + 27 \<and> q \<notin> fst ` set (taken HEAP_START bs) \<and>
         set (taken HEAP_START cs) = insert (q, n) (set (taken HEAP_START bs))))"
      using assms(1) sorted by blast
  }
  fix q cs s'
  assume f: "fit ?r HEAP_START bs = Some (q, cs)" and ok: "kheap_ok s' cs"
  obtain n where n: "?r \<le> n" "n < ?r + 20"
    and t: "set (taken HEAP_START cs) = insert (q, n) (set (taken HEAP_START bs))"
    and q: "q \<notin> fst ` set (taken HEAP_START bs)"
    using taken_fit [OF f] by blast
  have reg: "HEAP_START + 12 \<le> q \<and> q + n \<le> HEAP_END"
    using taken_region [of "heap_mem s'" HEAP_START cs q n] ok t by (simp add: kheap_ok_def)
  then have nz: "(of_nat q :: u32) \<noteq> 0" using u32_eq [of q 0] by simp
  have "unat sz \<le> 0xfffffff8" using assms(3) by (simp add: word_le_nat_alt)
  then have "unat sz \<le> ?r" "?r \<le> unat sz + 7"
    using round_up unat_round8 [of "sz + 7"] by (auto simp: unat_word_ariths)
  then have "unat sz \<le> n \<and> n < unat sz + 27" using n by linarith
  then show "\<exists>cs. kheap_ok s' cs \<and> sorted_wrt (\<lambda>x y. fst x + snd x \<le> fst y) (taken HEAP_START cs) \<and>
      (of_nat q = (0 :: u32) \<longrightarrow> s' = s \<and> (\<forall>(n, free) \<in> set bs. free \<longrightarrow> n < ?r)) \<and>
      (of_nat q \<noteq> (0 :: u32) \<longrightarrow> (\<exists>p n. of_nat q = (of_nat p :: u32) \<and> HEAP_START + 12 \<le> p \<and> p + n \<le> HEAP_END \<and>
         unat sz \<le> n \<and> n < unat sz + 27 \<and> p \<notin> fst ` set (taken HEAP_START bs) \<and>
         set (taken HEAP_START cs) = insert (p, n) (set (taken HEAP_START bs))))"
    using ok sorted [OF ok] nz reg t q by blast
qed

definition heap_sample :: Kheap where
  "heap_sample = \<lparr>heap_head = of_nat HEAP_START,
     heap_mem = (\<lambda>_. \<lparr>hb_size = of_nat (HEAP_SIZE - 12), hb_is_free = True, hb_next = 0\<rparr>)\<rparr>"

lemma heap_sample_ok: "kheap_ok heap_sample [(HEAP_SIZE - 12, True)]"
  by (simp add: kheap_ok_def heap_sample_def)

lemma kmalloc_region_witness:
  "wp (kmalloc 100) (\<lambda>p s'. p \<noteq> 0 \<longrightarrow> (\<exists>q n. p = of_nat q \<and> q + n \<le> HEAP_END \<and> 100 \<le> n \<and> n < 127)) (\<lambda>_ _. False) heap_sample"
  by (rule wp_conseq [OF kmalloc_region [OF heap_sample_ok]]) auto

lemma coalesce_no_free_pair: "\<not> (\<exists>xs n k ys. coalesce bs = xs @ (n, True) # (k, True) # ys)"
proof (induction bs rule: coalesce.induct)
  case (3 n f k g bs)
  show ?case
  proof (cases "f \<and> g")
    case True
    then show ?thesis using 3(1) by simp
  next
    case False
    obtain k' g' rest where c: "coalesce ((k, g) # bs) = (k', g') # rest" using coalesce_head by blast
    have "f \<and> g' \<longrightarrow> False"
    proof (cases g)
      case False
      then have "coalesce ((k, g) # bs) = (k, False) # coalesce bs" by (cases bs) auto
      then show ?thesis using c by simp
    qed (use False in simp)
    then show ?thesis
      using False 3(2) [OF False] c by (auto simp: Cons_eq_append_conv)
  qed
qed (auto simp: Cons_eq_append_conv)

text \<open>
  C23: \<open>kfree\<close> of the pointer of a block terminates, marks the block free and joins all free
  neighbours: the blocks still tile the heap, no two neighbours are both free, and the
  regions still in use are those that were, without the one released.
\<close>

theorem kfree_joins:
  assumes "kheap_ok s bs" and "(q, n) \<in> set (taken HEAP_START bs)"
  shows "wp (kfree (of_nat q)) (\<lambda>_ s'. \<exists>cs. kheap_ok s' cs \<and>
      set (taken HEAP_START cs) = {x \<in> set (taken HEAP_START bs). fst x \<noteq> q} \<and>
      \<not> (\<exists>xs n k ys. cs = xs @ (n, True) # (k, True) # ys)) (\<lambda>_ _. False) s"
proof (rule wp_kfree [OF assms(1) taken_pointers [OF assms(2)]])
  fix s' assume "kheap_ok s' (coalesce (mark q HEAP_START bs))"
  then show "\<exists>cs. kheap_ok s' cs \<and> set (taken HEAP_START cs) = {x \<in> set (taken HEAP_START bs). fst x \<noteq> q} \<and>
      \<not> (\<exists>xs n k ys. cs = xs @ (n, True) # (k, True) # ys)"
    using coalesce_no_free_pair [of "mark q HEAP_START bs"]
    by (intro exI [of _ "coalesce (mark q HEAP_START bs)"]) (simp add: taken_coalesce taken_mark)
qed

definition heap_sample2 :: Kheap where
  "heap_sample2 = \<lparr>heap_head = of_nat HEAP_START,
     heap_mem = (\<lambda>a. if a = of_nat HEAP_START
       then \<lparr>hb_size = 104, hb_is_free = False, hb_next = of_nat (HEAP_START + 116)\<rparr>
       else \<lparr>hb_size = of_nat (HEAP_SIZE - 128), hb_is_free = True, hb_next = 0\<rparr>)\<rparr>"

lemma heap_sample2_ok: "kheap_ok heap_sample2 [(104, False), (HEAP_SIZE - 128, True)]"
  by (simp add: kheap_ok_def heap_sample2_def)

lemma kfree_joins_witness:
  "wp (kfree (of_nat (HEAP_START + 12)))
    (\<lambda>_ s'. \<exists>cs. kheap_ok s' cs \<and> (\<forall>x \<in> set (taken HEAP_START cs). fst x \<noteq> HEAP_START + 12))
    (\<lambda>_ _. False) heap_sample2"
  by (rule wp_conseq [OF kfree_joins [OF heap_sample2_ok, where n = 104]]) auto

lemma coalesce_all_free:
  "bs \<noteq> [] \<Longrightarrow> \<forall>b \<in> set bs. snd b \<Longrightarrow> \<exists>n. coalesce bs = [(n, True)]"
  by (induction bs rule: coalesce.induct) auto

lemma taken_empty: "taken a bs = [] \<Longrightarrow> b \<in> set bs \<Longrightarrow> snd b"
  by (induction a bs rule: taken.induct) (auto split: if_splits)

text \<open>
  Once the last region in use is released the heap is one free block again, as after
  \<open>kheap_init\<close>: no sequence of requests and releases fragments it for good.
\<close>

theorem kfree_last_restores:
  assumes "kheap_ok s bs" and "set (taken HEAP_START bs) = {(q, n)}"
  shows "wp (kfree (of_nat q)) (\<lambda>_ s'. kheap_ok s' [(HEAP_SIZE - 12, True)]) (\<lambda>_ _. False) s"
proof (rule wp_kfree [OF assms(1)])
  show "q \<in> pointers HEAP_START bs" using taken_pointers [of q n] assms(2) by simp
  fix s' assume ok: "kheap_ok s' (coalesce (mark q HEAP_START bs))"
  have "set (taken HEAP_START (mark q HEAP_START bs)) = {}"
    unfolding taken_mark assms(2) by auto
  then have "taken HEAP_START (mark q HEAP_START bs) = []" by simp
  moreover have "bs \<noteq> []" using assms(2) by auto
  ultimately obtain k where k: "coalesce (mark q HEAP_START bs) = [(k, True)]"
    using coalesce_all_free [of "mark q HEAP_START bs"] taken_empty [of HEAP_START "mark q HEAP_START bs"] by auto
  then have "k = HEAP_SIZE - 12" using ok by (simp add: kheap_ok_def)
  then show "kheap_ok s' [(HEAP_SIZE - 12, True)]" using ok k by simp
qed

lemma kfree_last_restores_witness:
  "wp (kfree (of_nat (HEAP_START + 12))) (\<lambda>_ s'. kheap_ok s' [(HEAP_SIZE - 12, True)]) (\<lambda>_ _. False) heap_sample2"
  by (rule kfree_last_restores [OF heap_sample2_ok, where n = 104]) simp

lemma fit_zero: "(\<exists>n. (n, True) \<in> set bs) \<Longrightarrow> fit 0 a bs \<noteq> None"
  by (induction "0 :: nat" a bs rule: fit.induct) auto

text \<open>
  C24: \<open>kmalloc\<close> rounds the size up without a check for overflow: a request of almost 4 GiB
  becomes one of 0 bytes, and succeeds as soon as any block of the 1 MiB heap is free.
\<close>

theorem kmalloc_size_overflow:
  assumes "kheap_ok s bs" and "(n, True) \<in> set bs" and "0xfffffff9 \<le> sz"
  shows "wp (kmalloc sz) (\<lambda>p _. p \<noteq> 0) (\<lambda>_ _. False) s"
proof (rule wp_kmalloc [OF assms(1)])
  have big: "0xfffffff9 \<le> unat sz" using assms(3) by (simp add: word_le_nat_alt)
  show "sz \<noteq> 0" using assms(3) by auto
  have "unat (sz + 7) = unat sz + 7 - 2 ^ 32"
    using big u32_less [of sz] by (simp add: unat_word_ariths mod_if)
  then have "unat (sz + 7) < 8" using u32_less [of sz] by simp
  then have zero: "unat ((sz + 7) AND NOT 7) = 0" by (simp add: unat_round8 del: unat_eq_0)
  then show "fit (unat ((sz + 7) AND NOT 7)) HEAP_START bs = None \<Longrightarrow> 0 \<noteq> (0 :: u32)"
    using fit_zero assms(2) by metis
  fix q cs assume "fit (unat ((sz + 7) AND NOT 7)) HEAP_START bs = Some (q, cs)"
  then have q: "q \<in> pointers HEAP_START bs" using taken_fit by blast
  then have "HEAP_START + 12 \<le> q" "q \<le> HEAP_END"
    using pointers_above [OF q] pointers_below [OF _ q] assms(1) by (auto simp: kheap_ok_def)
  then show "(of_nat q :: u32) \<noteq> 0" using u32_eq [of q 0] by simp
qed

lemma kmalloc_size_overflow_witness:
  "wp (kmalloc 0xffffffff) (\<lambda>p _. p \<noteq> 0) (\<lambda>_ _. False) heap_sample"
  by (rule kmalloc_size_overflow [OF heap_sample_ok, where n = "HEAP_SIZE - 12"]) simp_all

text \<open>
  C25: a client of the heap that frees only what it holds, in any order of requests and
  releases, never holds a pointer twice, never one that others hold, and the heap stays
  well formed.
\<close>

theorem kheap_client_safe:
  assumes "kheap_inv s"
  shows "case fold kh.serve ops ([], s) of (held, s') \<Rightarrow>
      kheap_inv s' \<and> distinct held \<and> set held \<inter> kheap_used s = {} \<and> kheap_used s' = set held \<union> kheap_used s"
proof -
  have "kh.safe (kheap_used s) ([], s)" using assms by (simp add: kh.safe_def)
  from kh.safe_run [OF this, of ops] show ?thesis by (auto simp: kh.safe_def)
qed

lemma kheap_client_safe_witness:
  "case fold kh.serve [Alloc 100, Alloc 8, Free 0x20000c, Alloc 16] ([], heap_sample) of (held, s') \<Rightarrow>
      kheap_inv s' \<and> distinct held"
proof -
  have "kheap_inv heap_sample" using heap_sample_ok by (auto simp: kheap_inv_def)
  from kheap_client_safe [OF this, of "[Alloc 100, Alloc 8, Free 0x20000c, Alloc 16]"]
  show ?thesis by (auto split: prod.splits)
qed

end
