(* ===== verification/Boot.thy ===== *)
theory Boot
  imports Shell_Line Pmm Kheap
begin

unbundle bit_operations_syntax

section \<open>Starting the kernel (kernel/kernel.c, libc/stdlib/abort.c, kernel/stack_protector.c)\<close>

text \<open>
  \<open>kmain\<close> initialises every component in turn and runs the shell. The whole machine is the
  shell's state with the state of the two allocators beside it. The global \<open>g_fs\<close> is the volume
  structure number 1. The instruction \<open>sti\<close> has no model here: no interrupt is taken while
  \<open>kmain\<close> runs.
\<close>

subsection \<open>The code\<close>

record Boot =
  b_shell :: Shell
  b_pmm :: Pmm
  b_heap :: Kheap

definition on_shell :: "(Shell, 'a) cm \<Rightarrow> (Boot, 'a) cm" where
  "on_shell m = (\<lambda>s. case m (b_shell s) of None \<Rightarrow> None | Some (r, t) \<Rightarrow> Some (r, s\<lparr>b_shell := t\<rparr>))"

definition on_pmm :: "(Pmm, 'a) cm \<Rightarrow> (Boot, 'a) cm" where
  "on_pmm m = (\<lambda>s. case m (b_pmm s) of None \<Rightarrow> None | Some (r, t) \<Rightarrow> Some (r, s\<lparr>b_pmm := t\<rparr>))"

definition on_heap :: "(Kheap, 'a) cm \<Rightarrow> (Boot, 'a) cm" where
  "on_heap m = (\<lambda>s. case m (b_heap s) of None \<Rightarrow> None | Some (r, t) \<Rightarrow> Some (r, s\<lparr>b_heap := t\<rparr>))"

definition print_ok :: "device \<Rightarrow> bytes \<Rightarrow> (Shell, unit) cm" where
  "print_ok mach msg =
     seq (on_tty (terminal_writestring_color mach (str ''[OK]'') VGA_COLOR_LIGHT_GREEN VGA_COLOR_BLACK)) (\<lambda>_.
     sh_printf mach (str '' %s'' @ [0x0a]) [VStr (Some msg)])"

definition banner :: "bytes list" where
  "banner =
     [str ''  ____                              '',
      str '' | __ )  ___  __ _ _ __   ___ _ __ '',
      str '' |  _ '' @ [0x5c] @ str '' / _ '' @ [0x5c] @ str ''/ _` | '' @ [0x27] @ str ''_ '' @ [0x5c] @
        str '' / _ '' @ [0x5c] @ str '' '' @ [0x27] @ str ''__|'',
      str '' | |_) |  __/ (_| | | | |  __/ |   '',
      str '' |____/ '' @ [0x5c] @ str ''___|'' @ [0x5c] @ str ''__,_|_| |_|'' @ [0x5c] @ str ''___|_|   '']"

definition banner_colors :: "vga_color list" where
  "banner_colors = [VGA_COLOR_LIGHT_RED, VGA_COLOR_LIGHT_MAGENTA, VGA_COLOR_LIGHT_BLUE, VGA_COLOR_LIGHT_CYAN,
     VGA_COLOR_LIGHT_GREEN]"

definition banner_step :: "device \<Rightarrow> nat \<Rightarrow> (Shell, nat + unit) cm" where
  "banner_step mach i =
     (if i < 5 then
        seq (on_tty (terminal_writestring_color mach (banner ! i) (banner_colors ! i) VGA_COLOR_BLACK)) (\<lambda>_.
        seq (on_tty (terminal_writestring mach [0x0a])) (\<lambda>_.
        ret (Inl (i + 1))))
      else ret (Inr ()))"

definition draw_banner :: "device \<Rightarrow> (Shell, unit) cm" where
  "draw_banner mach =
     seq (on_tty (terminal_writestring mach [0x0a])) (\<lambda>_.
     seq (loop (banner_step mach) 0) (\<lambda>_.
     on_tty (terminal_writestring mach [0x0a])))"

definition spinner :: bytes where
  "spinner = [0x7c, 0x2f, 0x2d, 0x5c]"

definition spin_step :: "device \<Rightarrow> u32 \<Rightarrow> u32 \<Rightarrow> nat \<Rightarrow> ('z Tty_scheme, nat + unit) cm" where
  "spin_step mach col row i =
     (if i < 20 then
        seq (terminal_putchar mach 0x20) (\<lambda>_.
        seq (terminal_putchar mach (spinner ! (i mod 4))) (\<lambda>_.
        seq (delay 5000000) (\<lambda>_.
        seq (terminal_set_position (col + 7) row) (\<lambda>_.
        ret (Inl (i + 1))))))
      else ret (Inr ()))"

definition boot_animation :: "device \<Rightarrow> ('z Tty_scheme, unit) cm" where
  "boot_animation mach =
     seq terminal_get_column (\<lambda>col.
     seq terminal_get_row (\<lambda>row.
     seq (terminal_writestring_color mach (str ''Booting'') VGA_COLOR_LIGHT_CYAN VGA_COLOR_BLACK) (\<lambda>_.
     seq (loop (spin_step mach col row) 0) (\<lambda>_.
     seq (terminal_set_position (col + 7) row) (\<lambda>_.
     terminal_writestring mach (str ''  Done!'' @ [0x0a, 0x0a]))))))"

text \<open>The \<open>DiskOps\<close> of \<open>kmain\<close>.\<close>

definition kernel_ops :: "device \<Rightarrow> Ata DiskOps" where
  "kernel_ops mach = \<lparr>
     ops_read = (\<lambda>b n d. case fat_read_sector mach b n d of
         Some (Inr (ok, b'), d') \<Rightarrow> Some (ok, b', d') | _ \<Rightarrow> None),
     ops_write = (\<lambda>b n d. case fat_write_sector mach b n d of
         Some (Inr ok, d') \<Rightarrow> Some (ok, d') | _ \<Rightarrow> None)\<rparr>"

text \<open>\<open>kmain\<close> in its order, up to \<open>shell_loop\<close>: the screen, the interrupts, the memory, the disk.\<close>

definition kmain_screen :: "device \<Rightarrow> (Shell, unit) cm" where
  "kmain_screen mach =
     seq (on_tty terminal_initialize) (\<lambda>_.
     seq (on_tty (terminal_enable_cursor mach)) (\<lambda>_.
     seq (on_tty (boot_animation mach)) (\<lambda>_.
     seq (draw_banner mach) (\<lambda>_.
     seq (sh_printf mach (str ''Welcome to Beaner!'' @ [0x0a, 0x0a]) []) (\<lambda>_.
     print_ok mach (str ''Terminal initialized''))))))"

definition kmain_interrupts :: "device \<Rightarrow> (nat \<Rightarrow> u32) \<Rightarrow> u32 \<Rightarrow> (Shell, unit) cm" where
  "kmain_interrupts mach stub idt_adr =
     seq (on_tty serial_init) (\<lambda>_.
     seq (on_tty (serial_write mach (str ''Beaner kernel starting...'' @ [0x0a]))) (\<lambda>_.
     seq (print_ok mach (str ''Serial driver initialized'')) (\<lambda>_.
     seq (on_tty (idt_init stub idt_adr)) (\<lambda>_.
     seq (print_ok mach (str ''IDT initialized'')) (\<lambda>_.
     seq (print_ok mach (str ''Interrupts enabled'')) (\<lambda>_.
     seq (on_tty (timer_init 100)) (\<lambda>_.
     seq (print_ok mach (str ''Timer initialized (100Hz)'')) (\<lambda>_.
     seq (on_tty keyboard_init) (\<lambda>_.
     print_ok mach (str ''Keyboard IRQ handler registered''))))))))))"

definition kmain_memory :: "device \<Rightarrow> (Boot, unit) cm" where
  "kmain_memory mach =
     seq (on_pmm (pmm_init 0x00400000 0x02000000)) (\<lambda>_.
     seq (on_pmm pmm_get_free_frames) (\<lambda>free.
     seq (on_shell (sh_printf mach (str ''[OK] PMM initialized (%d frames available)'' @ [0x0a]) [VInt free])) (\<lambda>_.
     seq (on_heap kheap_init) (\<lambda>_.
     on_shell (print_ok mach (str ''Kernel heap initialized''))))))"

definition kmain_disk :: "device \<Rightarrow> (Shell, unit) cm" where
  "kmain_disk mach =
     seq (on_tty (ata_init mach)) (\<lambda>_.
     seq (print_ok mach (str ''ATA driver initialized'')) (\<lambda>_.
     seq (catch (on_fs (fat_mount (kernel_ops mach) 0 1 (str ''root'')))) (\<lambda>r. case r of
       Inr _ \<Rightarrow> print_ok mach (str ''FAT32 filesystem mounted at /'')
     | Inl err \<Rightarrow> sh_printf mach (str ''[WARN] Failed to mount FAT32 filesystem'' @ [0x0a]) [])))"

definition kmain_ready :: "device \<Rightarrow> (Shell, unit) cm" where
  "kmain_ready mach =
     seq (sh_printf mach [0x0a] []) (\<lambda>_.
     seq (print_ok mach (str ''All systems operational'')) (\<lambda>_.
     sh_printf mach [0x0a] []))"

definition kmain_init :: "device \<Rightarrow> (nat \<Rightarrow> u32) \<Rightarrow> u32 \<Rightarrow> (Boot, unit) cm" where
  "kmain_init mach stub idt_adr =
     seq (on_shell (kmain_screen mach)) (\<lambda>_.
     seq (on_shell (kmain_interrupts mach stub idt_adr)) (\<lambda>_.
     seq (kmain_memory mach) (\<lambda>_.
     seq (on_shell (kmain_disk mach)) (\<lambda>_.
     on_shell (kmain_ready mach)))))"

definition kmain :: "device \<Rightarrow> (nat \<Rightarrow> u32) \<Rightarrow> u32 \<Rightarrow> bytes \<Rightarrow> bytes \<Rightarrow> (Boot, unit) cm" where
  "kmain mach stub idt_adr cmdbuf keys =
     seq (kmain_init mach stub idt_adr) (\<lambda>_.
     seq (on_shell (shell_loop mach cmdbuf keys)) (\<lambda>_. ret ()))"

text \<open>\<open>abort\<close> prints and then halts for ever.\<close>

definition halt_step :: "unit \<Rightarrow> (Shell, unit + unit) cm" where
  "halt_step _ = ret (Inl ())"

definition abort :: "device \<Rightarrow> (Shell, unit) cm" where
  "abort mach =
     seq (sh_printf mach (str ''KERNEL PANIC: abort() called'' @ [0x0a]) []) (\<lambda>_.
     seq (sh_printf mach (str ''System halted.'' @ [0x0a]) []) (\<lambda>_.
     loop halt_step ()))"

definition stack_chk_fail :: "device \<Rightarrow> (Shell, unit) cm" where
  "stack_chk_fail mach =
     seq (sh_printf mach (str ''STACK SMASHING DETECTED!'' @ [0x0a]) []) (\<lambda>_.
     abort mach)"

definition stack_chk_fail_local :: "device \<Rightarrow> (Shell, unit) cm" where
  "stack_chk_fail_local mach = stack_chk_fail mach"

end
