(* ===== verification/Boot_Start.thy ===== *)
theory Boot_Start
  imports Boot
begin

section \<open>Starting the kernel: the initialisation runs through\<close>

text \<open>
  The initialisation of \<open>kmain\<close> terminates on a machine whose serial line and disk answer, and
  leaves every component in the state that its own theory calls well formed.
\<close>

subsection \<open>The animation\<close>

text \<open>The serial line is usable, and the disk's ports have been left alone.\<close>

definition still :: "history \<Rightarrow> history \<Rightarrow> bool" where
  "still h h' \<longleftrightarrow> \<not> dlab h' \<and> ide_events h' = ide_events h"

lemma still_sent: "line_sent cs h h' \<Longrightarrow> still h h'"
  by (simp add: line_sent_def still_def)

lemma still_trans: "still h h1 \<Longrightarrow> still h1 h2 \<Longrightarrow> still h h2"
  by (simp add: still_def)

lemma stillD: "still h h' \<Longrightarrow> \<not> dlab h'"
  by (simp add: still_def)

text \<open>A character written inside a line, over whatever the cells hold.\<close>

lemma wp_putchar_over:
  assumes dev: "uart_ok mach" "\<not> dlab (io_hist s)" and c: "c \<noteq> 0x0a"
    and pos: "terminal_column s = of_nat x" "terminal_row s = of_nat y" "x < 79" "y < 25"
    and len: "length (terminal_buffer s) = 2000"
    and Q: "\<And>h. still (io_hist s) h \<Longrightarrow> Q () (tty_at s h ((terminal_buffer s)[y * 80 + x := vga_entry c (terminal_color s)]) (of_nat y) (of_nat (Suc x)))"
  shows "wp (terminal_putchar mach c) Q E s"
proof -
  let ?b = "(terminal_buffer s)[y * 80 + x := vga_entry c (terminal_color s)]"
  have "of_nat y * 80 + of_nat x = (of_nat (y * 80 + x) :: u32)" by simp
  then have i: "unat (terminal_row s * 80 + terminal_column s) = y * 80 + x"
    using pos by (simp add: unat_of_nat del: of_nat_add of_nat_mult)
  have b: "y * 80 + x < 2000" using pos(3,4) by linarith
  have "Suc x \<noteq> 80" using pos(3) by simp
  then have ne: "of_nat (Suc x) \<noteq> (80 :: u32)" using pos(3) by (simp add: word_unat_eq_iff unat_of_nat del: of_nat_Suc)
  have "wp (serial_putchar mach c) (\<lambda>_. wp (modify (\<lambda>s. s\<lparr>terminal_column := terminal_column s + 1\<rparr>)) (\<lambda>_.
      wp (reads terminal_column) (\<lambda>x. wp (if x = 80 then seq (modify (\<lambda>s. s\<lparr>terminal_column := 0\<rparr>)) (\<lambda>_. next_row) else ret ())
        (\<lambda>_. wp show_cursor Q E) E) E) E) E (tty_at s (io_hist s) ?b (of_nat y) (of_nat x))"
  proof (rule wp_serial_putchar_sent [OF dev(1)])
    fix h assume "line_sent [c] (io_hist (tty_at s (io_hist s) ?b (of_nat y) (of_nat x))) h"
    then have h: "still (io_hist s) h" using still_sent by simp
    have "wp show_cursor Q E (tty_at s h ?b (of_nat y) (of_nat (Suc x)))"
    proof (rule wp_show_cursor)
      fix h' assume "line_sent [] (io_hist (tty_at s h ?b (of_nat y) (of_nat (Suc x)))) h'"
      then have "still (io_hist s) h'" using still_trans [OF h] still_sent by simp
      from Q [OF this] show "Q () ((tty_at s h ?b (of_nat y) (of_nat (Suc x)))\<lparr>io_hist := h'\<rparr>)"
        by (simp only: tty_at_update)
    qed (use stillD [OF h] in simp)
    then show "wp (modify (\<lambda>s. s\<lparr>terminal_column := terminal_column s + 1\<rparr>)) (\<lambda>_.
        wp (reads terminal_column) (\<lambda>x. wp (if x = 80 then seq (modify (\<lambda>s. s\<lparr>terminal_column := 0\<rparr>)) (\<lambda>_. next_row) else ret ())
          (\<lambda>_. wp show_cursor Q E) E) E) E ((tty_at s (io_hist s) ?b (of_nat y) (of_nat x))\<lparr>io_hist := h\<rparr>)"
      using ne by (simp add: wp_modify wp_reads wp_ret add.commute)
  qed (use dev(2) in simp)
  moreover have "s\<lparr>terminal_buffer := ?b\<rparr> = tty_at s (io_hist s) ?b (of_nat y) (of_nat x)" using pos(1,2) by (simp add: tty_at_def)
  ultimately show ?thesis
    using c i b len by (simp add: terminal_putchar_def terminal_putentryat_def wp_seq_fun wp_reads wp_store_cell)
qed

lemma wp_set_position:
  assumes "\<not> dlab (io_hist s)"
    and "\<And>h. still (io_hist s) h \<Longrightarrow> Q () (tty_at s h (terminal_buffer s) y x)"
  shows "wp (terminal_set_position x y) Q E s"
proof -
  have eq: "s\<lparr>terminal_column := x, terminal_row := y, io_hist := h\<rparr> = tty_at s h (terminal_buffer s) y x" for h
    by (cases s) (simp add: tty_at_def)
  have q: "still (io_hist s) h \<Longrightarrow> Q () (s\<lparr>terminal_column := x, terminal_row := y, io_hist := h\<rparr>)" for h
    using assms(2) [of h] eq [of h] by simp
  show ?thesis
    using assms(1) by (simp add: terminal_set_position_def update_cursor_def wp_simps Let_def q still_def)
qed

text \<open>The screen during the animation: the line \<open>l\<close>, but for the spinner's two cells behind it.\<close>

definition spinning :: "history \<Rightarrow> u16 list \<Rightarrow> 'z Tty_scheme \<Rightarrow> bool" where
  "spinning h0 l s \<longleftrightarrow> still h0 (io_hist s) \<and> terminal_row s = 0 \<and> terminal_column s = of_nat (length l) \<and>
     (\<exists>b. painted [l] b \<and> length (terminal_buffer s) = 2000 \<and>
       (\<forall>j < 2000. j \<noteq> length l \<longrightarrow> j \<noteq> Suc (length l) \<longrightarrow> terminal_buffer s ! j = b ! j))"

lemma spinning_start: "shown [l] s \<Longrightarrow> still h0 (io_hist s) \<Longrightarrow> spinning h0 l s"
  using shownD(1,5,6) [of "[l]" s] paintedD(1) [of "[l]" "terminal_buffer s"]
  by (auto simp: spinning_def)

lemma spinning_over:
  assumes "spinning h0 l s" and "still h0 h"
  shows "spinning h0 l (tty_at s h ((terminal_buffer s)[length l := v, Suc (length l) := u]) 0 (of_nat (length l)))"
  using assms by (auto simp: spinning_def)

lemma wp_two_over:
  fixes s :: "'z Tty_scheme"
  assumes dev: "uart_ok mach" and s: "spinning h0 l s" and l: "length l < 70" and c: "c \<noteq> 0x0a" "d \<noteq> 0x0a"
    and Q: "\<And>h. still h0 h \<Longrightarrow> Q () (tty_at s h ((terminal_buffer s)[length l := vga_entry c (terminal_color s),
      Suc (length l) := vga_entry d (terminal_color s)]) 0 (of_nat (Suc (Suc (length l)))))"
  shows "wp (terminal_putchar mach c) (\<lambda>_. wp (terminal_putchar mach d) Q E) E s"
proof (rule wp_putchar_over [OF dev _ c(1), where x = "length l" and y = 0])
  let ?b = "(terminal_buffer s)[length l := vga_entry c (terminal_color s)]"
  fix h assume "still (io_hist s) h"
  then have h: "still h0 h" using s still_trans by (auto simp: spinning_def)
  let ?t = "tty_at s h ((terminal_buffer s)[0 * 80 + length l := vga_entry c (terminal_color s)]) (of_nat 0) (of_nat (Suc (length l)))"
  show "wp (terminal_putchar mach d) Q E ?t"
  proof (rule wp_putchar_over [OF dev _ c(2), where x = "Suc (length l)" and y = 0])
    fix h' assume "still (io_hist ?t) h'"
    then have "still h0 h'" using still_trans [OF h] by simp
    from Q [OF this] show "Q () (tty_at ?t h' ((terminal_buffer ?t)[0 * 80 + Suc (length l) := vga_entry d (terminal_color ?t)])
        (of_nat 0) (of_nat (Suc (Suc (length l)))))" by (simp del: of_nat_Suc)
  qed (use h l s in \<open>auto simp: spinning_def still_def\<close>)
qed (use s l in \<open>auto simp: spinning_def still_def\<close>)

lemma wp_spin:
  fixes s :: "'z Tty_scheme"
  assumes dev: "uart_ok mach" and s: "spinning h0 l s" and l: "length l < 70" and col: "col + 7 = of_nat (length l)"
    and Q: "\<And>h b. spinning h0 l (tty_at s h b 0 (of_nat (length l))) \<Longrightarrow> Q () (tty_at s h b 0 (of_nat (length l)))"
  shows "wp (loop (spin_step mach col 0) 0) Q E s"
proof (rule wp_loop [where I = "\<lambda>i t. i \<le> 20 \<and> spinning h0 l t \<and> (\<exists>h b. t = tty_at s h b 0 (of_nat (length l)))" and m = "\<lambda>i _. 20 - i"])
  fix i :: nat and t :: "'z Tty_scheme" assume I: "i \<le> 20 \<and> spinning h0 l t \<and> (\<exists>h b. t = tty_at s h b 0 (of_nat (length l)))"
  then obtain ha ba where t: "t = tty_at s ha ba 0 (of_nat (length l))" and sp: "spinning h0 l t" by auto
  let ?R = "\<lambda>y s'. case y of Inl i' \<Rightarrow> (i' \<le> 20 \<and> spinning h0 l s' \<and> (\<exists>h b. s' = tty_at s h b 0 (of_nat (length l)))) \<and> 20 - i' < 20 - i
      | Inr v \<Rightarrow> Q v s'"
  show "wp (spin_step mach col 0 i) ?R E t"
  proof (cases "i < 20")
    case True
    have "i mod 4 = 0 \<or> i mod 4 = 1 \<or> i mod 4 = 2 \<or> i mod 4 = 3" by auto
    then have c: "spinner ! (i mod 4) \<noteq> 0x0a" by (auto simp: spinner_def)
    have "wp (terminal_putchar mach 0x20) (\<lambda>_. wp (terminal_putchar mach (spinner ! (i mod 4)))
        (\<lambda>_. wp (delay 5000000) (\<lambda>_. wp (terminal_set_position (col + 7) 0) (\<lambda>_. ?R (Inl (i + 1))) E) E) E) E t"
    proof (rule wp_two_over [OF dev sp l _ c])
      let ?b = "(terminal_buffer t)[length l := vga_entry 0x20 (terminal_color t), Suc (length l) := vga_entry (spinner ! (i mod 4)) (terminal_color t)]"
      fix h assume h: "still h0 h"
      show "wp (delay 5000000) (\<lambda>_. wp (terminal_set_position (col + 7) 0) (\<lambda>_. ?R (Inl (i + 1))) E) E
          (tty_at t h ?b 0 (of_nat (Suc (Suc (length l)))))"
      proof (rule wp_delay, rule wp_set_position)
        fix h' assume "still (io_hist (tty_at t h ?b 0 (of_nat (Suc (Suc (length l)))))) h'"
        then have h': "still h0 h'" using still_trans [OF h] by simp
        have "spinning h0 l (tty_at t h' ?b 0 (of_nat (length l)))" by (rule spinning_over [OF sp h'])
        then show "?R (Inl (i + 1)) (tty_at (tty_at t h ?b 0 (of_nat (Suc (Suc (length l))))) h'
            (terminal_buffer (tty_at t h ?b 0 (of_nat (Suc (Suc (length l)))))) 0 (col + 7))"
          using True col by (simp only: tty_at_update) (auto simp: t)
      qed (use stillD [OF h] in simp)
    qed simp
    then show ?thesis using True by (simp add: spin_step_def wp_seq_fun wp_ret)
  next
    case False
    then show ?thesis using I Q by (auto simp: spin_step_def wp_simps)
  qed
next
  have "terminal_row s = 0" "terminal_column s = of_nat (length l)" using s by (simp_all add: spinning_def)
  then show "0 \<le> (20 :: nat) \<and> spinning h0 l s \<and> (\<exists>h b. s = tty_at s h b 0 (of_nat (length l)))"
    using s tty_at_same [of s] by auto
qed

lemma wp_write_from:
  fixes s :: "'z Tty_scheme"
  assumes "uart_ok mach" and "\<not> dlab (io_hist s)" and "shown w s" and "i \<le> n" and "unat n \<le> length data"
    and Q: "\<And>s'. wrote (drop (unat i) (take (unat n) data)) w s s' \<Longrightarrow> Q () s'"
  shows "wp (loop (terminal_write_step mach data n) i) Q E s"
  using assms(2-4) Q
proof (induction "unat n - unat i" arbitrary: i s w)
  case 0
  then have "i = n" by (simp add: word_le_nat_alt word_unat_eq_iff)
  then show ?case using 0 wrote_refl [OF "0.prems"(2,1)]
    by (subst loop_unfold) (simp add: terminal_write_step_def wp_simps)
next
  case (Suc k)
  then have less: "i < n" by (simp add: word_less_nat_alt)
  then have u: "unat (i + 1) = Suc (unat i)" "i + 1 \<le> n" by unat_arith+
  have bound: "unat i < length data" using less assms(5) by (simp add: word_less_nat_alt)
  then have split: "drop (unat i) (take (unat n) data) = data ! unat i # drop (Suc (unat i)) (take (unat n) data)"
    using less by (simp add: word_less_nat_alt Cons_nth_drop_Suc [symmetric])
  have "wp (terminal_putchar mach (data ! unat i)) (\<lambda>_. wp (loop (terminal_write_step mach data n) (i + 1)) Q E) E s"
  proof (rule wp_terminal_putchar [OF assms(1) Suc.prems(1,2)])
    fix s1 assume s1: "wrote [data ! unat i] w s s1"
    show "wp (loop (terminal_write_step mach data n) (i + 1)) Q E s1"
    proof (rule Suc.hyps(1) [OF _ wroteD(2,1) [OF s1] u(2)])
      show "k = unat n - unat (i + 1)" using Suc.hyps(2) u by simp
      fix s' assume "wrote (drop (unat (i + 1)) (take (unat n) data)) (fold (w_char (terminal_color s)) [data ! unat i] w) s1 s'"
      from wrote_trans [OF s1 this] show "Q () s'" using split u by (intro Suc.prems(4)) simp
    qed
  qed
  then show ?case using less bound
    by (subst loop_unfold) (simp add: terminal_write_step_def wp_seq_fun wp_ret)
qed

text \<open>The two spaces that begin the last message wipe the spinner out.\<close>

lemma wp_spin_done:
  fixes s :: "'z Tty_scheme"
  assumes dev: "uart_ok mach" and s: "spinning h0 l s" and l: "length l < 70" and len: "2 + length cs < 2 ^ 31"
    and Q: "\<And>h b s'. still h0 h \<Longrightarrow> wrote cs [l @ [vga_entry 0x20 (terminal_color s), vga_entry 0x20 (terminal_color s)]]
      (tty_at s h b 0 (of_nat (Suc (Suc (length l))))) s' \<Longrightarrow> Q () s'"
  shows "wp (terminal_writestring mach ([0x20, 0x20] @ cs)) Q E s"
proof -
  let ?e = "vga_entry 0x20 (terminal_color s)" and ?data = "[0x20, 0x20] @ cs" and ?c = "Suc (Suc (length l))"
  define n :: u32 where "n = of_nat (length ?data)"
  have n: "unat n = length ?data" using len by (simp add: n_def unat_of_nat del: of_nat_Suc)
  have i: "(0 :: u32) < n" "(1 :: u32) < n" "(2 :: u32) \<le> n" using n by (simp_all add: word_less_nat_alt word_le_nat_alt)
  have "wp (terminal_putchar mach 0x20) (\<lambda>_. wp (terminal_putchar mach 0x20)
      (\<lambda>_. wp (loop (terminal_write_step mach ?data n) 2) Q E) E) E s"
  proof (rule wp_two_over [OF dev s l])
    let ?b = "(terminal_buffer s)[length l := ?e, Suc (length l) := ?e]"
    fix h assume h: "still h0 h"
    let ?t = "tty_at s h ?b 0 (of_nat ?c)"
    obtain b0 where b0: "painted [l] b0" "length (terminal_buffer s) = 2000"
      "\<forall>j < 2000. j \<noteq> length l \<longrightarrow> j \<noteq> Suc (length l) \<longrightarrow> terminal_buffer s ! j = b0 ! j"
      using s by (auto simp: spinning_def)
    have "painted [l @ [?e]] (b0[length l := ?e])"
      using painted_store [OF b0(1), where l = "l @ [?e]" and e' = True and e = ?e and x = "length l"] l by simp
    from painted_store [OF this, where l = "l @ [?e, ?e]" and e' = True and e = ?e and x = "Suc (length l)"]
    have p: "painted [l @ [?e, ?e]] (b0[length l := ?e, Suc (length l) := ?e])" using l by simp
    have "?b = b0[length l := ?e, Suc (length l) := ?e]"
      by (rule nth_equalityI) (use b0 l paintedD(1) [OF b0(1)] in \<open>auto simp: nth_list_update\<close>)
    then have sh: "shown [l @ [?e, ?e]] ?t" using p l by (simp add: shown_def)
    show "wp (loop (terminal_write_step mach ?data n) 2) Q E ?t"
    proof (rule wp_write_from [OF dev _ sh i(3)])
      fix s' assume "wrote (drop (unat (2 :: u32)) (take (unat n) ?data)) [l @ [?e, ?e]] ?t s'"
      then have "wrote cs [l @ [?e, ?e]] ?t s'" using n by simp
      with h show "Q () s'" by (rule Q)
    qed (use stillD [OF h] n in simp_all)
  qed simp_all
  moreover have "wp (loop (terminal_write_step mach ?data n) 0) Q E s =
      wp (terminal_putchar mach 0x20) (\<lambda>_. wp (loop (terminal_write_step mach ?data n) 1) Q E) E s"
    unfolding wp_round [where x = 0 and body = "terminal_write_step mach ?data n"]
    using i by (simp add: terminal_write_step_def [where i = 0] wp_seq_fun wp_ret)
  moreover have "wp (loop (terminal_write_step mach ?data n) 1) Q E =
      wp (terminal_putchar mach 0x20) (\<lambda>_. wp (loop (terminal_write_step mach ?data n) 2) Q E) E"
    by (rule ext, unfold wp_round [where x = 1 and body = "terminal_write_step mach ?data n"])
      (use i in \<open>simp add: terminal_write_step_def [where i = 1] wp_seq_fun wp_ret\<close>)
  ultimately have "wp (loop (terminal_write_step mach ?data n) 0) Q E s" by simp
  then show ?thesis by (simp add: terminal_writestring_def terminal_write_def n_def)
qed


text \<open>The whole animation: it leaves its line, and the cursor is behind the empty line below it.\<close>

definition boot_line :: "u8 \<Rightarrow> u16 list" where
  "boot_line color = map (\<lambda>c. vga_entry c (vga_entry_color VGA_COLOR_LIGHT_CYAN VGA_COLOR_BLACK)) (str ''Booting'') @
     map (\<lambda>c. vga_entry c color) (str ''  Done!'')"

lemma wp_boot_animation:
  fixes s :: "'z Tty_scheme"
  assumes dev: "uart_ok mach" "\<not> dlab (io_hist s)" and w: "shown [[]] s"
    and Q: "\<And>h b. still (io_hist s) h \<Longrightarrow> shown [boot_line (terminal_color s), [], []] (tty_at s h b 2 0) \<Longrightarrow> Q () (tty_at s h b 2 0)"
  shows "wp (boot_animation mach) Q E s"
proof -
  let ?cyan = "vga_entry_color VGA_COLOR_LIGHT_CYAN VGA_COLOR_BLACK"
  let ?l = "map (\<lambda>c. vga_entry c ?cyan) (str ''Booting'')"
  have pos: "terminal_column s = 0" "terminal_row s = 0" using shownD(5,6) [OF w] by simp_all
  have l: "length ?l = 7" by (simp add: str_def)
  have typed: "fold (w_char ?cyan) (str ''Booting'') [[]] = [?l]" by (simp add: str_def w_char_def w_put_def Let_def)
  have "wp (terminal_writestring_color mach (str ''Booting'') VGA_COLOR_LIGHT_CYAN VGA_COLOR_BLACK) (\<lambda>_.
      wp (loop (spin_step mach 0 0) 0) (\<lambda>_. wp (terminal_set_position 7 0) (\<lambda>_.
      wp (terminal_writestring mach ([0x20, 0x20] @ str ''Done!'' @ [0x0a, 0x0a])) Q E) E) E) E s"
  proof (rule wp_terminal_writestring_color [OF dev w])
    fix s1 assume s1: "wrote (str ''Booting'') [[]] (s\<lparr>terminal_color := ?cyan\<rparr>) s1"
    let ?s1 = "s1\<lparr>terminal_color := terminal_color s\<rparr>"
    obtain h b r c where "s1 = tty_at (s\<lparr>terminal_color := ?cyan\<rparr>) h b r c" using s1 by (auto simp: wrote_def)
    then have eq: "?s1 = tty_at s h b r c" by (cases s) (simp add: tty_at_def)
    have "shown [?l] s1" using wroteD(1) [OF s1] typed by simp
    moreover have "still (io_hist s) (io_hist s1)" using s1 by (auto simp: wrote_def dest: still_sent)
    ultimately have "spinning (io_hist s) ?l ?s1" by (intro spinning_start) (simp_all add: shown_def)
    then show "wp (loop (spin_step mach 0 0) 0) (\<lambda>_. wp (terminal_set_position 7 0) (\<lambda>_.
        wp (terminal_writestring mach ([0x20, 0x20] @ str ''Done!'' @ [0x0a, 0x0a])) Q E) E) E ?s1"
    proof (rule wp_spin [OF dev(1)])
      fix h1 b1 assume sp: "spinning (io_hist s) ?l (tty_at ?s1 h1 b1 0 (of_nat (length ?l)))"
      let ?t = "tty_at ?s1 h1 b1 0 (of_nat (length ?l))"
      show "wp (terminal_set_position 7 0) (\<lambda>_. wp (terminal_writestring mach ([0x20, 0x20] @ str ''Done!'' @ [0x0a, 0x0a])) Q E) E ?t"
      proof (rule wp_set_position)
        fix h2 assume "still (io_hist ?t) h2"
        then have "still (io_hist s) h2" using sp still_trans by (auto simp: spinning_def)
        then have "spinning (io_hist s) ?l (tty_at ?t h2 (terminal_buffer ?t) 0 7)" using sp l by (auto simp: spinning_def)
        then show "wp (terminal_writestring mach ([0x20, 0x20] @ str ''Done!'' @ [0x0a, 0x0a])) Q E (tty_at ?t h2 (terminal_buffer ?t) 0 7)"
        proof (rule wp_spin_done [OF dev(1)])
          let ?e = "vga_entry 0x20 (terminal_color (tty_at ?t h2 (terminal_buffer ?t) 0 7))"
          fix h3 b3 s' assume h3: "still (io_hist s) h3" and *: "wrote (str ''Done!'' @ [0x0a, 0x0a]) [?l @ [?e, ?e]]
              (tty_at (tty_at ?t h2 (terminal_buffer ?t) 0 7) h3 b3 0 (of_nat (Suc (Suc (length ?l))))) s'"
          then obtain h4 b4 r4 c4 where s': "s' = tty_at s h4 b4 r4 c4" by (auto simp: wrote_def eq)
          have "fold (w_char (terminal_color s)) (str ''Done!'' @ [0x0a, 0x0a]) [?l @ [?e, ?e]] = [boot_line (terminal_color s), [], []]"
            by (simp add: boot_line_def str_def w_char_def w_put_def w_newline_def Let_def)
          then have sh: "shown [boot_line (terminal_color s), [], []] s'" using wroteD(1) [OF *] by simp
          then have "s' = tty_at s h4 b4 2 0" using shownD(5,6) [OF sh] s' by simp
          moreover have "line_sent (str ''Done!'' @ [0x0a, 0x0a]) h3 (io_hist s')" using * by (simp add: wrote_def)
          then have "still (io_hist s) (io_hist s')" using still_trans [OF h3 still_sent] by simp
          ultimately show "Q () s'" using sh Q [of h4 b4] by simp
        qed (simp_all add: l str_def)
      qed (use sp in \<open>simp add: spinning_def still_def\<close>)
    qed (simp_all add: str_def)
  qed (simp add: str_def)
  moreover have "str ''  Done!'' = [0x20, 0x20] @ str ''Done!''" by (simp add: str_def)
  ultimately show ?thesis
    by (simp add: boot_animation_def wp_seq_fun wp_reads terminal_get_column_def terminal_get_row_def pos)
qed

end
