(* ===== verification/Boot_Run.thy ===== *)
theory Boot_Run
  imports Boot_Start
begin

unbundle bit_operations_syntax

section \<open>Starting the kernel: from the first character to the shell\<close>

text \<open>
  The initialisation of \<open>kmain\<close> as a whole: what each of its calls writes, what it leaves of
  the other components' states, and the state in which \<open>shell_loop\<close> is entered.
\<close>

subsection \<open>What is written\<close>

abbreviation log :: "Shell \<Rightarrow> bytes" where
  "log s \<equiv> transmitted (io_hist (tty s))"

text \<open>\<open>says mach cs s s'\<close>: the screen is usable, the characters \<open>cs\<close> have been sent since \<open>s\<close>,
  nothing but the terminal has changed, and the disk's ports have been left alone.\<close>

definition says :: "device \<Rightarrow> bytes \<Rightarrow> Shell \<Rightarrow> Shell \<Rightarrow> bool" where
  "says mach cs s s' \<longleftrightarrow> (\<exists>w. screen mach w s') \<and> log s' = log s @ cs \<and>
     ide_events (io_hist (tty s')) = ide_events (io_hist (tty s)) \<and>
     (\<exists>h b r c. s' = with_tty s (tty_at (tty s) h b r c))"

lemma saysD:
  assumes "says mach cs s s'"
  obtains w where "screen mach w s'"
  using assms by (auto simp: says_def)

lemma says_refl: "screen mach w s \<Longrightarrow> says mach [] s s"
  using tty_at_same [of "tty s"] with_tty_simps(3) [of s] unfolding says_def by (metis append_Nil2)

lemma says_trans: "says mach cs s s1 \<Longrightarrow> says mach ds s1 s2 \<Longrightarrow> says mach (cs @ ds) s s2"
  unfolding says_def by (elim conjE exE) (simp, blast)

lemma typed_says: "typed cs w s s' \<Longrightarrow> screen mach w s \<Longrightarrow> says mach cs s s'"
  using typedD(1,5) [of cs w s s' mach] by (force simp: says_def typed_def wrote_def line_sent_def)

lemma wp_says_printf:
  assumes "screen mach w s" and "format_text format args = Some out" and "int (length out) \<le> INT_MAX"
    and "\<And>s'. says mach out s s' \<Longrightarrow> Q () s'"
  shows "wp (sh_printf mach format args) Q E s"
  by (rule wp_sh_printf [OF assms(1-3)]) (use assms(1,4) typed_says in blast)

lemma wp_says_string:
  assumes "screen mach w s" and "length cs < 2 ^ 32" and Q: "\<And>s'. says mach cs s s' \<Longrightarrow> Q () s'"
  shows "wp (on_tty (terminal_writestring mach cs)) Q E s"
  unfolding wp_on_tty
proof (rule wp_terminal_writestring)
  fix d assume "wrote cs w (tty s) d"
  then have "typed cs w s (with_tty s d)" by (simp add: typed_def)
  from Q [OF typed_says [OF this assms(1)]] show "Q () (with_tty s d)" .
qed (use assms in \<open>simp_all add: screen_def\<close>)

lemma wp_says_color:
  assumes sc: "screen mach w s" and "length cs < 2 ^ 32" and Q: "\<And>s'. says mach cs s s' \<Longrightarrow> Q () s'"
  shows "wp (on_tty (terminal_writestring_color mach cs fg bg)) Q E s"
  unfolding wp_on_tty
proof (rule wp_terminal_writestring_color)
  let ?t = "(tty s)\<lparr>terminal_color := vga_entry_color fg bg\<rparr>"
  fix d assume d: "wrote cs w ?t d"
  let ?d = "d\<lparr>terminal_color := terminal_color (tty s)\<rparr>"
  obtain h b r c where "d = tty_at ?t h b r c" using d by (auto simp: wrote_def)
  then have "?d = tty_at (tty s) h b r c" by (cases "tty s") (simp add: tty_at_def)
  moreover have "screen mach (fold (w_char (vga_entry_color fg bg)) cs w) (with_tty s ?d)"
    using wroteD(1,2) [OF d] sc by (simp add: screen_def shown_def)
  moreover have "log (with_tty s ?d) = log s @ cs" using wroteD(4) [OF d] by simp
  moreover have "ide_events (io_hist ?d) = ide_events (io_hist (tty s))" using d by (simp add: wrote_def line_sent_def)
  ultimately show "Q () (with_tty s ?d)" by (intro Q) (auto simp: says_def)
qed (use assms in \<open>simp_all add: screen_def\<close>)

lemma wp_print_ok:
  assumes "screen mach w s" and "length msg < 1000"
    and Q: "\<And>s'. says mach (str ''[OK] '' @ msg @ [0x0a]) s s' \<Longrightarrow> Q () s'"
  shows "wp (print_ok mach msg) Q E s"
  unfolding print_ok_def wp_seq_fun
proof (rule wp_says_color [OF assms(1)])
  fix s1 assume s1: "says mach (str ''[OK]'') s s1"
  then obtain w1 where "screen mach w1 s1" by (rule saysD)
  then show "wp (sh_printf mach (str '' %s'' @ [0x0a]) [VStr (Some msg)]) Q E s1"
  proof (rule wp_says_printf)
    show "format_text (str '' %s'' @ [0x0a]) [VStr (Some msg)] = Some (0x20 # msg @ [0x0a])"
      by (simp add: str_def precision_def conv_text_def va_str_def str_text_def)
    fix s2 assume "says mach (0x20 # msg @ [0x0a]) s1 s2"
    from says_trans [OF s1 this] show "Q () s2" by (intro Q) (simp add: str_def)
  qed (use assms(2) in simp)
qed (simp add: str_def)

lemma wp_draw_banner:
  assumes sc: "screen mach w s" and Q: "\<And>out s'. says mach out s s' \<Longrightarrow> Q () s'"
  shows "wp (draw_banner mach) Q E s"
  unfolding draw_banner_def wp_seq_fun
proof (rule wp_says_string [OF sc])
  fix s1 assume s1: "says mach [0x0a] s s1"
  show "wp (loop (banner_step mach) 0) (\<lambda>_. wp (on_tty (terminal_writestring mach [0x0a])) Q E) E s1"
  proof (rule wp_loop [where I = "\<lambda>_ t. \<exists>out. says mach out s t" and m = "\<lambda>i _. 5 - i"])
    fix i :: nat and t assume "\<exists>out. says mach out s t"
    then obtain out where t: "says mach out s t" ..
    then obtain v where v: "screen mach v t" by (rule saysD)
    show "wp (banner_step mach i) (\<lambda>y s'. case y of Inl i' \<Rightarrow> (\<exists>out. says mach out s s') \<and> 5 - i' < 5 - i
        | Inr x \<Rightarrow> wp (on_tty (terminal_writestring mach [0x0a])) Q E s') E t"
    proof (cases "i < 5")
      case True
      then have "banner ! i \<in> set banner" by (intro nth_mem) (simp add: banner_def)
      then have len: "length (banner ! i) < 2 ^ 32" by (auto simp: banner_def str_def)
      show ?thesis
        unfolding banner_step_def wp_if wp_seq_fun wp_ret sum.case if_P [OF True]
      proof (rule wp_says_color [OF v len])
        fix t1 assume t1: "says mach (banner ! i) t t1"
        then obtain v1 where v1: "screen mach v1 t1" by (rule saysD)
        show "wp (on_tty (terminal_writestring mach [0x0a])) (\<lambda>_ s'. (\<exists>out. says mach out s s') \<and> 5 - (i + 1) < 5 - i) E t1"
          by (rule wp_says_string [OF v1]) (use True says_trans [OF says_trans [OF t t1]] in auto)
      qed
    next
      case False
      then show ?thesis
        by (simp add: banner_step_def wp_ret) (rule wp_says_string [OF v], use Q says_trans [OF t] in auto)
    qed
  qed (use s1 in blast)
qed simp


subsection \<open>The state while the kernel starts\<close>

text \<open>The screen is usable, the disk has the sectors \<open>D\<close>, and no volume is mounted.\<close>

definition booting :: "device \<Rightarrow> ata_disk \<Rightarrow> (u32 \<Rightarrow> u16 list) \<Rightarrow> Shell \<Rightarrow> bool" where
  "booting mach d0 D s \<longleftrightarrow> (\<exists>w. screen mach w s) \<and> disk_sectors d0 (tty s) = D \<and>
     length (g_buf (sh_fs s)) = 512 \<and> g_fat_list (sh_fs s) = 0"

text \<open>What the processor and the drivers have been told.\<close>

definition configured :: "Shell \<Rightarrow> idt_entry list \<times> isr option list \<times> (u16 \<times> u32) option \<times> u16" where
  "configured s = (idt_entries (tty s), interrupt_handlers (tty s), idtr (tty s), ata_base (tty s))"

lemma disk_after_ide: "ide_events h' = ide_events h \<Longrightarrow> disk_after d0 h' = disk_after d0 h"
proof -
  have "disk_after d0 g = foldr d_event (ide_events g) d0" for g
  proof (induction g)
    case (Cons e g)
    then show ?case by (cases e) auto
  qed simp
  then show "ide_events h' = ide_events h \<Longrightarrow> disk_after d0 h' = disk_after d0 h" by simp
qed

lemma says_booting:
  assumes "says mach cs s s'" and "booting mach d0 D s"
  shows "booting mach d0 D s'" "configured s' = configured s"
proof -
  obtain h b r c where s': "s' = with_tty s (tty_at (tty s) h b r c)" using assms(1) by (auto simp: says_def)
  have "disk_after d0 (io_hist (tty s')) = disk_after d0 (io_hist (tty s))"
    using assms(1) by (intro disk_after_ide) (simp add: says_def)
  then show "booting mach d0 D s'"
    using assms by (auto simp: booting_def says_def disk_sectors_def with_tty_def)
  show "configured s' = configured s" by (simp add: configured_def s' tty_at_def)
qed

lemma wp_ok:
  assumes "booting mach d0 D s" and "length msg < 1000"
    and Q: "\<And>s'. booting mach d0 D s' \<Longrightarrow> configured s' = configured s \<Longrightarrow> log s' = log s @ str ''[OK] '' @ msg @ [0x0a] \<Longrightarrow> Q () s'"
  shows "wp (print_ok mach msg) Q E s"
proof -
  obtain w where "screen mach w s" using assms(1) by (auto simp: booting_def)
  then show ?thesis
    by (rule wp_print_ok [OF _ assms(2)]) (use says_booting [OF _ assms(1)] in \<open>intro Q; auto simp: says_def\<close>)
qed

lemma wp_message:
  assumes "booting mach d0 D s" and "format_text format args = Some out" and "int (length out) \<le> INT_MAX"
    and Q: "\<And>s'. booting mach d0 D s' \<Longrightarrow> configured s' = configured s \<Longrightarrow> log s' = log s @ out \<Longrightarrow> Q () s'"
  shows "wp (sh_printf mach format args) Q E s"
proof -
  obtain w where "screen mach w s" using assms(1) by (auto simp: booting_def)
  then show ?thesis
    by (rule wp_says_printf [OF _ assms(2,3)]) (use says_booting [OF _ assms(1)] in \<open>intro Q; auto simp: says_def\<close>)
qed

text \<open>A step that changes the machine but neither the terminal nor the disk.\<close>

lemma booting_step:
  assumes "booting mach d0 D s" and "\<not> dlab (io_hist d)" and "ide_events (io_hist d) = ide_events (io_hist (tty s))"
    and "terminal_buffer d = terminal_buffer (tty s)" "terminal_row d = terminal_row (tty s)" "terminal_column d = terminal_column (tty s)"
  shows "booting mach d0 D (with_tty s d)"
  using assms disk_after_ide [OF assms(3), of d0]
  by (auto simp: booting_def screen_def shown_def disk_sectors_def with_tty_def)


subsection \<open>The calls of \<open>kmain\<close>\<close>

lemma wp_kmain_screen:
  assumes dev: "uart_ok mach" "\<not> dlab (io_hist (tty s))" and len: "length (terminal_buffer (tty s)) = 2000"
    and fs: "disk_sectors d0 (tty s) = D" "length (g_buf (sh_fs s)) = 512" "g_fat_list (sh_fs s) = 0"
    and Q: "\<And>s'. booting mach d0 D s' \<Longrightarrow> Q () s'"
  shows "wp (kmain_screen mach) Q E s"
proof -
  let ?t = "(tty s)\<lparr>terminal_color := 0x0f\<rparr>"
  let ?rest = "wp (on_tty (boot_animation mach)) (\<lambda>_. wp (draw_banner mach) (\<lambda>_.
      wp (sh_printf mach (str ''Welcome to Beaner!'' @ [0x0a, 0x0a]) [])
        (\<lambda>_. wp (print_ok mach (str ''Terminal initialized'')) Q E) E) E) E"
  have rest: "?rest (with_tty s (tty_at ?t h b 0 0))"
    if sh: "shown [[]] (tty_at ?t (io_hist (tty s)) b 0 0)" and h: "\<not> dlab h" "ide_events h = ide_events (io_hist (tty s))" for h b
    unfolding wp_on_tty with_tty_simps
  proof (rule wp_boot_animation [OF dev(1)])
    show "shown [[]] (tty_at ?t h b 0 0)" using sh by (simp add: shown_def)
    let ?u = "tty_at ?t h b 0 0"
    fix h1 b1 assume h1: "still (io_hist ?u) h1" and sh1: "shown [boot_line (terminal_color ?u), [], []] (tty_at ?u h1 b1 2 0)"
    let ?s1 = "with_tty s (tty_at ?u h1 b1 2 0)"
    have sc: "screen mach [boot_line (terminal_color ?u), [], []] ?s1" using dev(1) h1 sh1 by (simp add: screen_def still_def)
    have "disk_after d0 h1 = disk_after d0 (io_hist (tty s))" using h1 h(2) by (intro disk_after_ide) (simp add: still_def)
    then have b: "booting mach d0 D ?s1" using sc fs by (auto simp: booting_def disk_sectors_def with_tty_def)
    show "wp (draw_banner mach) (\<lambda>_. wp (sh_printf mach (str ''Welcome to Beaner!'' @ [0x0a, 0x0a]) [])
        (\<lambda>_. wp (print_ok mach (str ''Terminal initialized'')) Q E) E) E ?s1"
    proof (rule wp_draw_banner [OF sc])
      fix out s2 assume "says mach out ?s1 s2"
      then have "booting mach d0 D s2" using b by (rule says_booting)
      then show "wp (sh_printf mach (str ''Welcome to Beaner!'' @ [0x0a, 0x0a]) [])
          (\<lambda>_. wp (print_ok mach (str ''Terminal initialized'')) Q E) E s2"
      proof (rule wp_message)
        show "format_text (str ''Welcome to Beaner!'' @ [0x0a, 0x0a]) [] = Some (str ''Welcome to Beaner!'' @ [0x0a, 0x0a])"
          by (simp add: str_def)
        fix s3 assume "booting mach d0 D s3"
        then show "wp (print_ok mach (str ''Terminal initialized'')) Q E s3"
          by (rule wp_ok) (auto simp: str_def intro: Q)
      qed (simp add: str_def)
    qed
  qed (use h in simp)
  have "wp (on_tty terminal_initialize) (\<lambda>_. wp (on_tty (terminal_enable_cursor mach)) (\<lambda>_. ?rest) E) E s"
    unfolding wp_on_tty [of terminal_initialize]
    by (rule wp_terminal_initialize [OF len], rule wp_on_tty [THEN iffD2])
      (use rest dev(2) in \<open>simp add: terminal_enable_cursor_def wp_seq_fun wp_inb wp_outb\<close>)
  then show ?thesis by (simp only: kmain_screen_def wp_seq_fun)
qed


lemma wp_idt_init:
  fixes s :: "'z Kernel_scheme"
  assumes "\<not> dlab (io_hist s)"
    and Q: "\<And>h es. still (io_hist s) h \<Longrightarrow> gates_ok stub es 48 \<Longrightarrow>
      Q () (s\<lparr>interrupt_handlers := replicate 256 None, io_hist := h, idt_entries := es, idtr := Some (2047, adr)\<rparr>)"
  shows "wp (idt_init stub adr) Q E s"
proof -
  have start: "gates_ok stub (replicate 256 null_gate) 0" by (simp add: gates_ok_def)
  show ?thesis
    unfolding idt_init_def wp_seq_fun wp_modify
    by (rule pic_remap_same, rule wp_set_gates [of 0])
      (use assms start in \<open>auto simp: wp_modify still_sent intro!: Q\<close>)
qed

lemma wp_timer_init:
  fixes s :: "'z Kernel_scheme"
  assumes "f \<noteq> 0" and "\<not> dlab (io_hist s)"
    and Q: "\<And>h. still (io_hist s) h \<Longrightarrow> pit_reload h = 1193180 div unat f mod 65536 \<Longrightarrow>
      Q () (s\<lparr>interrupt_handlers := (interrupt_handlers s)[32 := Some Timer_callback], io_hist := h\<rparr>)"
  shows "wp (timer_init f) Q E s"
proof -
  let ?d = "(1193180 :: u32) div f"
  let ?h = "Out8 0x40 (ucast (drop_bit 8 ?d AND 0xff)) # Out8 0x40 (ucast (?d AND 0xff)) # Out8 0x43 0x36 # io_hist s"
  have "unat ?d = 1193180 div unat f" by (simp add: unat_div)
  then have "pit_reload ?h = 1193180 div unat f mod 65536" using reload_bytes [of ?d] by (simp add: pit_reload_def)
  moreover have "still (io_hist s) ?h" using assms(2) by (simp add: still_def)
  ultimately have "Q () (s\<lparr>interrupt_handlers := (interrupt_handlers s)[32 := Some Timer_callback], io_hist := ?h\<rparr>)"
    by (intro Q)
  then show ?thesis
    using assms(1) by (simp add: timer_init_def register_interrupt_handler_def wp_simps Let_def)
qed

text \<open>The vectors lead to their stubs, the processor has the table, and the two handlers are registered.\<close>

definition kernel_up :: "(nat \<Rightarrow> u32) \<Rightarrow> u32 \<Rightarrow> Shell \<Rightarrow> bool" where
  "kernel_up stub adr s \<longleftrightarrow> gates_ok stub (idt_entries (tty s)) 48 \<and> idtr (tty s) = Some (2047, adr) \<and> handlers_ok (tty s)"

lemma kernel_up_same: "configured s' = configured s \<Longrightarrow> kernel_up stub adr s' = kernel_up stub adr s"
  by (simp add: configured_def kernel_up_def handlers_ok_def)

lemma bootingD: "booting mach d0 D s \<Longrightarrow> uart_ok mach \<and> \<not> dlab (io_hist (tty s))"
  by (auto simp: booting_def screen_def)

lemma wp_kmain_interrupts:
  assumes b: "booting mach d0 D s"
    and Q: "\<And>s'. booting mach d0 D s' \<Longrightarrow> kernel_up stub adr s' \<Longrightarrow> Q () s'"
  shows "wp (kmain_interrupts mach stub adr) Q E s"
  unfolding kmain_interrupts_def wp_seq_fun
proof (subst wp_on_tty, rule wp_serial_init)
  fix h0 assume h0: "\<not> dlab h0" "ide_events h0 = ide_events (io_hist (tty s))"
  have b0: "booting mach d0 D (with_tty s ((tty s)\<lparr>io_hist := h0\<rparr>))" using h0 by (intro booting_step [OF b]) simp_all
  let ?handlers = "\<lambda>_ :: unit. wp (print_ok mach (str ''Interrupts enabled'')) (\<lambda>_. wp (on_tty (timer_init 100)) (\<lambda>_.
      wp (print_ok mach (str ''Timer initialized (100Hz)'')) (\<lambda>_. wp (on_tty keyboard_init)
        (\<lambda>_. wp (print_ok mach (str ''Keyboard IRQ handler registered'')) Q E) E) E) E) E"
  have handlers: "?handlers u t"
    if t: "booting mach d0 D t" and c: "configured t = (es, replicate 256 None, Some (2047, adr), base)"
      and g: "gates_ok stub es 48" for u t es base
  proof (rule wp_ok [OF t])
    fix s1 assume b1: "booting mach d0 D s1" and c1: "configured s1 = configured t"
    show "wp (on_tty (timer_init 100)) (\<lambda>_. wp (print_ok mach (str ''Timer initialized (100Hz)'')) (\<lambda>_. wp (on_tty keyboard_init)
        (\<lambda>_. wp (print_ok mach (str ''Keyboard IRQ handler registered'')) Q E) E) E) E s1"
    proof (subst wp_on_tty, rule wp_timer_init)
      let ?k = "(interrupt_handlers (tty s1))[32 := Some Timer_callback]"
      fix h assume h: "still (io_hist (tty s1)) h"
      let ?s2 = "with_tty s1 ((tty s1)\<lparr>interrupt_handlers := ?k, io_hist := h\<rparr>)"
      have "booting mach d0 D ?s2" using h by (intro booting_step [OF b1]) (simp_all add: still_def)
      then show "wp (print_ok mach (str ''Timer initialized (100Hz)'')) (\<lambda>_. wp (on_tty keyboard_init)
          (\<lambda>_. wp (print_ok mach (str ''Keyboard IRQ handler registered'')) Q E) E) E ?s2"
      proof (rule wp_ok)
        fix s3 assume b3: "booting mach d0 D s3" and c3: "configured s3 = configured ?s2"
        let ?d = "(tty s3)\<lparr>k_kbd := keyboard_init_irq (k_kbd (tty s3)),
            interrupt_handlers := (interrupt_handlers (tty s3))[33 := Some Keyboard_irq_handler]\<rparr>"
        have b4: "booting mach d0 D (with_tty s3 ?d)"
          using bootingD [OF b3] by (intro booting_step [OF b3]) simp_all
        have "wp (print_ok mach (str ''Keyboard IRQ handler registered'')) Q E (with_tty s3 ?d)"
        proof (rule wp_ok [OF b4])
          fix s5 assume b5: "booting mach d0 D s5" and c5: "configured s5 = configured (with_tty s3 ?d)"
          have "kernel_up stub adr (with_tty s3 ?d)"
            using c c1 c3 g by (simp add: configured_def kernel_up_def handlers_ok_def)
          then show "Q () s5" using b5 kernel_up_same [OF c5] by (intro Q) simp_all
        qed (simp add: str_def)
        then show "wp (on_tty keyboard_init) (\<lambda>_. wp (print_ok mach (str ''Keyboard IRQ handler registered'')) Q E) E s3"
          by (simp add: wp_on_tty keyboard_init_def register_interrupt_handler_def wp_simps)
      qed (simp add: str_def)
    qed (use bootingD [OF b1] in simp_all)
  qed (simp add: str_def)
  have gates: "wp (on_tty (idt_init stub adr)) (\<lambda>_. wp (print_ok mach (str ''IDT initialized'')) ?handlers E) E t"
    if t: "booting mach d0 D t" for t
  proof (subst wp_on_tty, rule wp_idt_init)
    let ?s1 = "\<lambda>h es. with_tty t ((tty t)\<lparr>interrupt_handlers := replicate 256 None, io_hist := h, idt_entries := es, idtr := Some (2047, adr)\<rparr>)"
    fix h es assume h: "still (io_hist (tty t)) h" and es: "gates_ok stub es 48"
    have "booting mach d0 D (?s1 h es)" using h by (intro booting_step [OF t]) (simp_all add: still_def)
    then show "wp (print_ok mach (str ''IDT initialized'')) ?handlers E (?s1 h es)"
    proof (rule wp_ok)
      fix u assume u: "booting mach d0 D u" and c: "configured u = configured (?s1 h es)"
      show "?handlers () u" by (rule handlers [OF u _ es]) (simp add: c, simp add: configured_def)
    qed (simp add: str_def)
  qed (use bootingD [OF t] in simp)
  show "wp (on_tty (serial_write mach (str ''Beaner kernel starting...'' @ [0x0a]))) (\<lambda>_.
      wp (print_ok mach (str ''Serial driver initialized'')) (\<lambda>_. wp (on_tty (idt_init stub adr)) (\<lambda>_.
      wp (print_ok mach (str ''IDT initialized'')) ?handlers E) E) E) E (with_tty s ((tty s)\<lparr>io_hist := h0\<rparr>))"
  proof (subst wp_on_tty, rule wp_serial_write)
    let ?s = "with_tty s ((tty s)\<lparr>io_hist := h0\<rparr>)"
    fix h assume "line_sent (str ''Beaner kernel starting...'' @ [0x0a]) (io_hist (tty ?s)) h"
    then have "booting mach d0 D (with_tty ?s ((tty ?s)\<lparr>io_hist := h\<rparr>))"
      by (intro booting_step [OF b0]) (simp_all add: line_sent_def)
    then show "wp (print_ok mach (str ''Serial driver initialized'')) (\<lambda>_. wp (on_tty (idt_init stub adr)) (\<lambda>_.
        wp (print_ok mach (str ''IDT initialized'')) ?handlers E) E) E (with_tty ?s ((tty ?s)\<lparr>io_hist := h\<rparr>))"
      by (rule wp_ok) (simp add: str_def, rule gates)
  qed (use bootingD [OF b0] in simp_all)
qed


text \<open>The memory: frames 1024 to 8191 are free, the heap is one free block.\<close>

definition memory_up :: "Boot \<Rightarrow> bool" where
  "memory_up s \<longleftrightarrow> pmm_inv (b_pmm s) \<and> pmm_used (b_pmm s) = {} \<and> managed (b_pmm s) = {1024 ..< 8192} \<and>
     kheap_ok (b_heap s) [(HEAP_SIZE - 12, True)]"

lemma wp_on_shell: "wp (on_shell m) Q E s = wp m (\<lambda>x t. Q x (s\<lparr>b_shell := t\<rparr>)) (\<lambda>e t. E e (s\<lparr>b_shell := t\<rparr>)) (b_shell s)"
  by (auto simp: wp_def on_shell_def split: option.splits sum.splits)

lemma wp_on_pmm: "wp (on_pmm m) Q E s = wp m (\<lambda>x t. Q x (s\<lparr>b_pmm := t\<rparr>)) (\<lambda>e t. E e (s\<lparr>b_pmm := t\<rparr>)) (b_pmm s)"
  by (auto simp: wp_def on_pmm_def split: option.splits sum.splits)

lemma wp_on_heap: "wp (on_heap m) Q E s = wp m (\<lambda>x t. Q x (s\<lparr>b_heap := t\<rparr>)) (\<lambda>e t. E e (s\<lparr>b_heap := t\<rparr>)) (b_heap s)"
  by (auto simp: wp_def on_heap_def split: option.splits sum.splits)

lemma wp_kheap_init:
  assumes "\<And>t. kheap_ok t [(HEAP_SIZE - 12, True)] \<Longrightarrow> Q () t"
  shows "wp kheap_init Q E s"
proof -
  let ?t = "\<lparr>heap_head = of_nat HEAP_START, heap_mem = (heap_mem s)(of_nat HEAP_START :=
      \<lparr>hb_size = of_nat (HEAP_SIZE - 12), hb_is_free = True, hb_next = 0\<rparr>)\<rparr>"
  have "kheap_ok ?t [(HEAP_SIZE - 12, True)]" by (simp add: kheap_ok_def)
  then have "Q () ?t" by (rule assms)
  then show ?thesis by (cases s) (simp add: kheap_init_def setB_def wp_simps)
qed

lemma wp_kmain_memory:
  assumes b: "booting mach d0 D (b_shell s)" and k: "kernel_up stub adr (b_shell s)"
    and Q: "\<And>s'. booting mach d0 D (b_shell s') \<Longrightarrow> kernel_up stub adr (b_shell s') \<Longrightarrow> memory_up s' \<Longrightarrow> Q () s'"
  shows "wp (kmain_memory mach) Q E s"
  unfolding kmain_memory_def wp_seq_fun
proof (subst wp_on_pmm, rule wp_pmm_init)
  fix p assume inv: "pmm_inv p" and used: "pmm_used p = {}" and free: "free_frames p = total_frames p"
    and "managed p = {(unat (0x00400000 :: u32) + 4095) div 4096 ..< unat (0x02000000 :: u32) div 4096}"
  then have m: "managed p = {1024 ..< 8192}" by simp
  then have "unat (first_frame p) = 1024 \<and> unat (first_frame p) + unat (total_frames p) = 8192"
    using atLeastLessThan_eq_iff [of "unat (first_frame p)" "unat (first_frame p) + unat (total_frames p)" 1024 8192]
    by (cases "unat (total_frames p) = 0") (simp_all add: managed_def)
  then have "unat (free_frames p) = 7168" using free by simp
  then have f: "free_frames p = 7168" by (simp add: word_unat_eq_iff)
  have digits: "ldigits 10 7168 = [8, 6, 1, 7]" by (simp add: ldigits.simps)
  let ?s = "s\<lparr>b_pmm := p\<rparr>"
  have b1: "booting mach d0 D (b_shell ?s)" using b by simp
  have "wp (on_shell (sh_printf mach (str ''[OK] PMM initialized (%d frames available)'' @ [0x0a]) [VInt (free_frames p)]))
      (\<lambda>_. wp (on_heap kheap_init) (\<lambda>_. wp (on_shell (print_ok mach (str ''Kernel heap initialized''))) Q E) E) E ?s"
  proof (subst wp_on_shell, rule wp_message [OF b1])
    show "format_text (str ''[OK] PMM initialized (%d frames available)'' @ [0x0a]) [VInt (free_frames p)] =
        Some (str ''[OK] PMM initialized (7168 frames available)'' @ [0x0a])"
      unfolding f by (simp add: str_def precision_def conv_text_def va_int_def int_text_def numeral_text_def dec_digit_def digits)
    fix t assume t: "booting mach d0 D t" and c: "configured t = configured (b_shell ?s)"
    show "wp (on_heap kheap_init) (\<lambda>_. wp (on_shell (print_ok mach (str ''Kernel heap initialized''))) Q E) E (?s\<lparr>b_shell := t\<rparr>)"
    proof (subst wp_on_heap, rule wp_kheap_init)
      fix h assume h: "kheap_ok h [(HEAP_SIZE - 12, True)]"
      have t': "booting mach d0 D (b_shell (?s\<lparr>b_shell := t, b_heap := h\<rparr>))" using t by simp
      have "wp (on_shell (print_ok mach (str ''Kernel heap initialized''))) Q E (?s\<lparr>b_shell := t, b_heap := h\<rparr>)"
      proof (subst wp_on_shell, rule wp_ok [OF t'])
        fix u assume u: "booting mach d0 D u" "configured u = configured (b_shell (?s\<lparr>b_shell := t, b_heap := h\<rparr>))"
        then have "kernel_up stub adr u" using k c by (subst kernel_up_same [of u "b_shell s"]) simp_all
        then show "Q () (?s\<lparr>b_shell := t, b_heap := h\<rparr>\<lparr>b_shell := u\<rparr>)"
          using u h inv used m by (intro Q) (simp_all add: memory_up_def)
      qed (simp add: str_def)
      then show "wp (on_shell (print_ok mach (str ''Kernel heap initialized''))) Q E (?s\<lparr>b_shell := t\<rparr>\<lparr>b_heap := h\<rparr>)" by simp
    qed
  qed (simp add: str_def)
  then show "wp (on_pmm pmm_get_free_frames) (\<lambda>free. wp (on_shell (sh_printf mach (str ''[OK] PMM initialized (%d frames available)'' @ [0x0a])
      [VInt free])) (\<lambda>_. wp (on_heap kheap_init) (\<lambda>_. wp (on_shell (print_ok mach (str ''Kernel heap initialized''))) Q E) E) E) E ?s"
    by (simp add: wp_on_pmm pmm_get_free_frames_def wp_reads)
qed simp_all


end
