(* ===== verification/Boot_Disk.thy ===== *)
theory Boot_Disk
  imports Boot
begin

unbundle bit_operations_syntax

section \<open>Starting the kernel: mounting the disk\<close>

text \<open>
  \<open>fat_mount\<close> over the disk driver, as \<open>kmain\<close> calls it: the file system's layer and the
  driver's composed, down to the ports. Mounting only reads, and its outcome is a function of the
  disk's sectors.
\<close>

subsection \<open>Mounting the volume on the disk\<close>

text \<open>Where the volume that \<open>fat_mount\<close> looks for starts, and whether it can be mounted: the
  specification speaks of the disk's sectors only.\<close>

definition sector :: "(u32 \<Rightarrow> u16 list) \<Rightarrow> u32 \<Rightarrow> bytes" where
  "sector D l = sector_bytes (D (l AND 0x0fffffff))"

definition fat32_start :: "(u32 \<Rightarrow> u16 list) \<Rightarrow> u32 option" where
  "fat32_start D =
     (if check_fat (sector D 0) = Some True then Some 0
      else case get_part_lba (sector D 0) 0 of
        Some (Some lba) \<Rightarrow> if check_fat (sector D lba) = Some True then Some lba else None
      | _ \<Rightarrow> None)"

definition mountable :: "(u32 \<Rightarrow> u16 list) \<Rightarrow> bool" where
  "mountable D \<longleftrightarrow> (case fat32_start D of None \<Rightarrow> False
     | Some lba \<Rightarrow> info_valid (sector D (lba + ucast (bpb_info_sect (sector D lba)))))"

text \<open>The disk is good: its sectors have 512 bytes, and none that looks like a boot sector has clusters of no sectors.\<close>

definition good_disk :: "(u32 \<Rightarrow> u16 list) \<Rightarrow> bool" where
  "good_disk D \<longleftrightarrow> (\<forall>l. length (D l) = 256 \<and> check_fat (sector_bytes (D l)) \<noteq> None)"

text \<open>What reading sectors leaves alone.\<close>

definition read_only :: "ata_disk \<Rightarrow> Ata fs \<Rightarrow> Ata fs \<Rightarrow> bool" where
  "read_only d0 f f' \<longleftrightarrow> (\<exists>h. dev f' = (dev f)\<lparr>io_hist := h\<rparr> \<and> line_state h = line_state (io_hist (dev f))) \<and>
     disk_sectors d0 (dev f') = disk_sectors d0 (dev f) \<and> length (g_buf f') = 512"

lemma read_only_trans: "read_only d0 f g \<Longrightarrow> read_only d0 g h \<Longrightarrow> read_only d0 f h"
  by (auto simp: read_only_def)

lemma read_only_fields:
  "read_only d0 f (g\<lparr>g_fat_list := p\<rparr>) = read_only d0 f g" "read_only d0 f (g\<lparr>fats := F\<rparr>) = read_only d0 f g"
  by (simp_all add: read_only_def)

lemma wp_kread:
  fixes f :: "Ata fs"
  assumes dev: "ata_ok mach d0" and base: "ata_base (dev f) = 0x1f0" and D: "disk_sectors d0 (dev f) = D"
    and good: "good_disk D" and len: "length (g_buf f) = 512"
    and Q: "\<And>f'. read_only d0 f f' \<Longrightarrow> g_fat_list f' = g_fat_list f \<Longrightarrow> g_buf f' = sector D l \<Longrightarrow> Q True f'"
  shows "wp (read_g (kernel_ops mach) l) Q E f"
proof -
  have "wp (fat_read_sector mach (g_buf f) l) (\<lambda>(ok, b) d. ok \<and> b = sector D l \<and> (\<exists>h. d = (dev f)\<lparr>io_hist := h\<rparr> \<and>
      line_state h = line_state (io_hist (dev f)) \<and> disk_sectors d0 d = D)) (\<lambda>_ _. False) (dev f)"
    unfolding fat_read_sector_def wp_seq_fun
  proof (rule wp_ata_read_sectors [OF dev base])
    have "length (sector D l) = 512" using good by (simp add: sector_def good_disk_def)
    then have "splice (g_buf f) 0 (read_bytes D (l AND 0x0fffffff) (unat (1 :: u8))) = sector D l"
      using len by (simp add: splice_def read_bytes_def sector_def)
    moreover fix h assume "disk_sectors d0 ((dev f)\<lparr>io_hist := h\<rparr>) = disk_sectors d0 (dev f)" "line_state h = line_state (io_hist (dev f))"
    ultimately show "wp (case (0, splice (g_buf f) 0 (read_bytes (disk_sectors d0 (dev f)) (l AND 0x0fffffff) (unat (1 :: u8)))) of
        (r, b) \<Rightarrow> ret (r = 0, b)) (\<lambda>(ok, b) d. ok \<and> b = sector D l \<and> (\<exists>h. d = (dev f)\<lparr>io_hist := h\<rparr> \<and>
        line_state h = line_state (io_hist (dev f)) \<and> disk_sectors d0 d = D)) (\<lambda>_ _. False) ((dev f)\<lparr>io_hist := h\<rparr>)"
      by (auto simp: wp_ret D)
  qed (use D good len in \<open>simp_all add: good_disk_def\<close>)
  then obtain h where "fat_read_sector mach (g_buf f) l (dev f) = Some (Inr (True, sector D l), (dev f)\<lparr>io_hist := h\<rparr>)"
    and h: "line_state h = line_state (io_hist (dev f))" "disk_sectors d0 ((dev f)\<lparr>io_hist := h\<rparr>) = D"
    by (elim wpD) auto
  then have "read_g (kernel_ops mach) l f = Some (Inr True, f\<lparr>dev := (dev f)\<lparr>io_hist := h\<rparr>, g_buf := sector D l\<rparr>)"
    by (simp add: read_g_def kernel_ops_def)
  moreover have "Q True (f\<lparr>dev := (dev f)\<lparr>io_hist := h\<rparr>, g_buf := sector D l\<rparr>)"
    using h D good by (intro Q) (auto simp: read_only_def sector_def good_disk_def)
  ultimately show ?thesis by (simp add: wp_result_ret)
qed


definition mounted :: "ata_disk \<Rightarrow> Ata fs \<Rightarrow> nat \<Rightarrow> Ata fs \<Rightarrow> bool" where
  "mounted d0 f p f' \<longleftrightarrow> read_only d0 f f' \<and> g_fat_list f' = p"

lemma wp_of_opt: "x = Some v \<Longrightarrow> wp (of_opt x) Q E s = Q v s"
  by (simp add: of_opt_def wp_simps)

lemma wp_kprobe:
  fixes f :: "Ata fs"
  assumes dev: "ata_ok mach d0" and base: "ata_base (dev f) = 0x1f0" and D: "disk_sectors d0 (dev f) = D"
    and good: "good_disk D" and len: "length (g_buf f) = 512"
    and Q: "\<And>f' lba. fat32_start D = Some lba \<Longrightarrow> read_only d0 f f' \<Longrightarrow> g_fat_list f' = g_fat_list f \<Longrightarrow>
      g_buf f' = sector D lba \<Longrightarrow> Q lba f'"
    and E: "\<And>f' e. fat32_start D = None \<Longrightarrow> read_only d0 f f' \<Longrightarrow> g_fat_list f' = g_fat_list f \<Longrightarrow> E e f'"
  shows "wp (probe (kernel_ops mach) 0) Q E f"
  unfolding probe_def wp_seq_fun
proof (rule wp_kread [OF dev base D good len])
  fix f1 assume f1: "read_only d0 f f1" "g_fat_list f1 = g_fat_list f" "g_buf f1 = sector D 0"
  obtain c where c: "check_fat (sector D 0) = Some c" using good by (auto simp: good_disk_def sector_def)
  obtain r where r: "get_part_lba (sector D 0) 0 = Some r" by (cases "get_part_lba (sector D 0) 0") (auto simp: get_part_lba_def Let_def split: if_splits)
  show "wp (if \<not> True then fail FAT_ERR_IO
      else seq (reads g_buf) (\<lambda>b. seq (of_opt (check_fat b)) (\<lambda>fat.
        if fat then (if (0 :: int) = 0 then ret 0 else fail FAT_ERR_NOFAT)
        else seq (of_opt (get_part_lba b 0)) (\<lambda>l. case l of None \<Rightarrow> fail FAT_ERR_NOFAT
          | Some lba \<Rightarrow> seq (read_g (kernel_ops mach) lba) (\<lambda>ok. if \<not> ok then fail FAT_ERR_IO
              else seq (reads g_buf) (\<lambda>b. seq (of_opt (check_fat b)) (\<lambda>fat. if fat then ret lba else fail FAT_ERR_NOFAT))))))) Q E f1"
  proof (cases "c \<or> r = None")
    case True
    then show ?thesis using f1 c r Q [of 0 f1] E [of f1] by (auto simp: wp_simps wp_of_opt fat32_start_def)
  next
    case False
    then obtain lba where lba: "r = Some lba" "\<not> c" by auto
    have "wp (read_g (kernel_ops mach) lba) (\<lambda>ok. wp (if \<not> ok then fail FAT_ERR_IO else seq (reads g_buf)
        (\<lambda>b. seq (of_opt (check_fat b)) (\<lambda>fat. if fat then ret lba else fail FAT_ERR_NOFAT))) Q E) E f1"
    proof (rule wp_kread [OF dev _ _ good])
      obtain c' where c': "check_fat (sector D lba) = Some c'" using good by (auto simp: good_disk_def sector_def)
      fix f2 assume f2: "read_only d0 f1 f2" "g_fat_list f2 = g_fat_list f1" "g_buf f2 = sector D lba"
      have "read_only d0 f f2" using f1(1) f2(1) by (rule read_only_trans)
      then show "wp (if \<not> True then fail FAT_ERR_IO else seq (reads g_buf)
          (\<lambda>b. seq (of_opt (check_fat b)) (\<lambda>fat. if fat then ret lba else fail FAT_ERR_NOFAT))) Q E f2"
        using f1(2) f2 c c' r lba Q [of lba f2] E [of f2] by (simp add: wp_simps wp_of_opt fat32_start_def)
    qed (use f1(1) base D in \<open>auto simp: read_only_def\<close>)
    then show ?thesis using c r lba f1(3) by (simp add: wp_simps wp_of_opt)
  qed
qed

lemma wp_kmount:
  fixes f :: "Ata fs"
  assumes dev: "ata_ok mach d0" and base: "ata_base (dev f) = 0x1f0" and D: "disk_sectors d0 (dev f) = D"
    and good: "good_disk D" and len: "length (g_buf f) = 512" and name: "length name \<le> 32"
    and Q: "\<And>f'. mountable D \<Longrightarrow> mounted d0 f p f' \<Longrightarrow> Q () f'"
    and E: "\<And>f' e. \<not> mountable D \<Longrightarrow> mounted d0 f (g_fat_list f) f' \<Longrightarrow> E e f'"
  shows "wp (fat_mount (kernel_ops mach) 0 p name) Q E f"
  unfolding fat_mount_def wp_seq_fun
proof (rule wp_kprobe [OF dev base D good len])
  fix f1 lba assume st: "fat32_start D = Some lba" and f1: "read_only d0 f f1" "g_fat_list f1 = g_fat_list f" "g_buf f1 = sector D lba"
  let ?l = "lba + ucast (bpb_info_sect (sector D lba))"
  let ?f = "f1\<lparr>fats := (fats f1)(p := mount_geometry (sector D lba) lba (fats f1 p))\<rparr>"
  let ?rest = "\<lambda>ok. wp (if \<not> ok then fail FAT_ERR_IO else seq (reads g_buf) (\<lambda>info.
      if \<not> info_valid info then fail FAT_ERR_NOFAT
      else seq (setF p (\<lambda>F. F\<lparr>f_last_used := get32 info 492, f_free_cnt := get32 info 488\<rparr>)) (\<lambda>_.
        if 32 < length name then fail FAT_ERR_PARAM
        else seq (reads g_fat_list) (\<lambda>head.
          seq (setF p (\<lambda>F. F\<lparr>f_name := splice (f_name F) 0 name, f_name_len := of_nat (length name),
                 f_ops := kernel_ops mach, f_sect := 0, f_next := head\<rparr>)) (\<lambda>_.
          modify (\<lambda>s. s\<lparr>g_fat_list := p\<rparr>)))))) Q E"
  have "wp (read_g (kernel_ops mach) ?l) ?rest E ?f"
  proof (rule wp_kread [OF dev _ _ good])
    fix f2 assume "read_only d0 ?f f2" and f2: "g_fat_list f2 = g_fat_list ?f" "g_buf f2 = sector D ?l"
    then have "read_only d0 f f2" using f1(1) by (auto simp: read_only_def)
    then show "?rest True f2"
      using f1(2) f2 name st Q E by (auto simp: wp_simps setF_def mountable_def mounted_def read_only_fields)
  qed (use f1(1) base D in \<open>auto simp: read_only_def\<close>)
  then show "wp (reads g_buf) (\<lambda>b. wp (setF p (mount_geometry b lba))
      (\<lambda>_. wp (read_g (kernel_ops mach) (lba + ucast (bpb_info_sect b))) ?rest E) E) E f1"
    using f1(3) by (simp add: wp_simps setF_def)
qed (use E in \<open>simp_all add: mountable_def mounted_def\<close>)

end
