(* ===== verification/Boot_Up.thy ===== *)
theory Boot_Up
  imports Boot_Run Boot_Disk
begin

unbundle bit_operations_syntax

section \<open>Starting the kernel: the state in which the shell starts\<close>

text \<open>
  The last calls of \<open>kmain\<close> before \<open>shell_loop\<close>, and the composition of all of them.
\<close>

lemma wp_ata_init:
  assumes b: "booting mach d0 D s"
    and Q: "\<And>s'. booting mach d0 D s' \<Longrightarrow> configured s' = (idt_entries (tty s), interrupt_handlers (tty s), idtr (tty s), 0x1f0) \<Longrightarrow>
      Q () s'"
  shows "wp (on_tty (ata_init mach)) Q E s"
proof -
  let ?d = "(tty s)\<lparr>ata_base := 0x1f0\<rparr>" and ?out = "str ''[ATA] Primary bus initialized at 0x1f0'' @ [0x0a]"
  have b1: "booting mach d0 D (with_tty s ?d)" using bootingD [OF b] by (intro booting_step [OF b]) simp_all
  then obtain w where "screen mach w (with_tty s ?d)" by (auto simp: booting_def)
  then have sc: "uart_ok mach" "\<not> dlab (io_hist ?d)" "shown w ?d" and scr: "screen mach w (with_tty s ?d)"
    by (simp_all add: screen_def)
  have "wp (printf mach [0x5b, 0x41, 0x54, 0x41, 0x5d, 0x20, 0x50, 0x72, 0x69, 0x6d, 0x61, 0x72, 0x79, 0x20, 0x62, 0x75, 0x73, 0x20,
        0x69, 0x6e, 0x69, 0x74, 0x69, 0x61, 0x6c, 0x69, 0x7a, 0x65, 0x64, 0x20, 0x61, 0x74, 0x20, 0x30, 0x78,
        0x25, 0x78, 0x0a] [VInt (ucast (0x1f0 :: u16))]) (\<lambda>_ d. Q () (with_tty s d)) (\<lambda>e d. E e (with_tty s d)) ?d"
  proof (rule wp_printf [OF sc])
    have "ldigits 16 496 = [0, 15, 1]" by (simp add: ldigits.simps)
    then show "format_text [0x5b, 0x41, 0x54, 0x41, 0x5d, 0x20, 0x50, 0x72, 0x69, 0x6d, 0x61, 0x72, 0x79, 0x20, 0x62, 0x75, 0x73, 0x20,
        0x69, 0x6e, 0x69, 0x74, 0x69, 0x61, 0x6c, 0x69, 0x7a, 0x65, 0x64, 0x20, 0x61, 0x74, 0x20, 0x30, 0x78,
        0x25, 0x78, 0x0a] [VInt (ucast (0x1f0 :: u16))] = Some ?out"
      by (simp add: str_def precision_def conv_text_def va_int_def numeral_text_def hex_digit_def hex_digits_def)
    fix d assume "wrote ?out w ?d d"
    then have "typed ?out w (with_tty s ?d) (with_tty s d)" by (simp add: typed_def)
    from says_booting [OF typed_says [OF this scr] b1] show "Q () (with_tty s d)"
      by (intro Q) (simp_all add: configured_def)
  qed (simp add: str_def)
  then show ?thesis by (simp add: wp_on_tty ata_init_def wp_simps)
qed

text \<open>What the boot log ends with.\<close>

definition mount_message :: "bool \<Rightarrow> bytes" where
  "mount_message ok =
     (if ok then str ''[OK] FAT32 filesystem mounted at /'' @ [0x0a] else str ''[WARN] Failed to mount FAT32 filesystem'' @ [0x0a])"

text \<open>The message and the last lines, from any state with a usable screen.\<close>

lemma wp_says_ok:
  assumes "says mach out s t" and "length msg < 1000"
    and Q: "\<And>s'. says mach (out @ str ''[OK] '' @ msg @ [0x0a]) s s' \<Longrightarrow> Q () s'"
  shows "wp (print_ok mach msg) Q E t"
proof -
  obtain w where "screen mach w t" using assms(1) by (rule saysD)
  then show ?thesis by (rule wp_print_ok [OF _ assms(2)]) (rule Q, rule says_trans [OF assms(1)])
qed

lemma wp_says_text:
  assumes "says mach out s t" and "format_text format [] = Some o'" and "int (length o') \<le> INT_MAX"
    and Q: "\<And>s'. says mach (out @ o') s s' \<Longrightarrow> Q () s'"
  shows "wp (sh_printf mach format []) Q E t"
proof -
  obtain w where "screen mach w t" using assms(1) by (rule saysD)
  then show ?thesis by (rule wp_says_printf [OF _ assms(2,3)]) (rule Q, rule says_trans [OF assms(1)])
qed

lemma wp_kmain_ready:
  assumes "says mach out s t"
    and Q: "\<And>s'. says mach (out @ [0x0a] @ str ''[OK] All systems operational'' @ [0x0a, 0x0a]) s s' \<Longrightarrow> Q () s'"
  shows "wp (kmain_ready mach) Q E t"
  unfolding kmain_ready_def wp_seq_fun
proof (rule wp_says_text [OF assms(1), where o' = "[0x0a]"])
  fix t1 assume "says mach (out @ [0x0a]) s t1"
  then show "wp (print_ok mach (str ''All systems operational'')) (\<lambda>_. wp (sh_printf mach [0x0a] []) Q E) E t1"
  proof (rule wp_says_ok)
    fix t2 assume "says mach ((out @ [0x0a]) @ str ''[OK] '' @ str ''All systems operational'' @ [0x0a]) s t2"
    then show "wp (sh_printf mach [0x0a] []) Q E t2"
      by (rule wp_says_text [where o' = "[0x0a]"]) (use Q in \<open>simp_all add: str_def\<close>)
  qed (simp add: str_def)
qed simp_all

lemma says_same:
  assumes "says mach out s s'"
  shows "configured s' = configured s" "g_fat_list (sh_fs s') = g_fat_list (sh_fs s)" "disk_sectors d0 (tty s') = disk_sectors d0 (tty s)"
    "log s' = log s @ out"
proof -
  obtain h b r c where "s' = with_tty s (tty_at (tty s) h b r c)" using assms by (auto simp: says_def)
  then show "configured s' = configured s" "g_fat_list (sh_fs s') = g_fat_list (sh_fs s)"
    by (simp_all add: configured_def tty_at_def with_tty_def)
  show "disk_sectors d0 (tty s') = disk_sectors d0 (tty s)"
    using assms disk_after_ide [of "io_hist (tty s')" "io_hist (tty s)" d0] by (simp add: says_def disk_sectors_def)
  show "log s' = log s @ out" using assms by (simp add: says_def)
qed

text \<open>The state just after \<open>fat_mount\<close>.\<close>

definition disk_up :: "device \<Rightarrow> ata_disk \<Rightarrow> (u32 \<Rightarrow> u16 list) \<Rightarrow> Shell \<Rightarrow> Shell \<Rightarrow> bool" where
  "disk_up mach d0 D s m \<longleftrightarrow> (\<exists>w. screen mach w m) \<and> disk_sectors d0 (tty m) = D \<and>
     g_fat_list (sh_fs m) = (if mountable D then 1 else 0) \<and>
     configured m = (idt_entries (tty s), interrupt_handlers (tty s), idtr (tty s), 0x1f0)"

lemma mounted_disk_up:
  assumes "booting mach d0 D s" and "configured s = (idt_entries (tty s0), interrupt_handlers (tty s0), idtr (tty s0), 0x1f0)"
    and "mounted d0 (sh_fs s) (if mountable D then 1 else 0) f"
  shows "disk_up mach d0 D s0 (s\<lparr>sh_fs := f\<rparr>)"
proof -
  obtain h where h: "dev f = (tty s)\<lparr>io_hist := h\<rparr>" "line_state h = line_state (io_hist (tty s))"
    using assms(3) by (auto simp: mounted_def read_only_def)
  have "disk_sectors d0 (dev f) = D" using assms(1,3) by (simp add: mounted_def read_only_def booting_def)
  moreover have "\<exists>w. screen mach w (s\<lparr>sh_fs := f\<rparr>)"
    using assms(1) h by (auto simp: booting_def screen_def shown_def line_state_def)
  ultimately show ?thesis using assms h by (auto simp: disk_up_def mounted_def configured_def)
qed

lemma wp_kmain_disk:
  assumes b: "booting mach d0 D s" and dev: "ata_ok mach d0" and good: "good_disk D"
    and Q: "\<And>m s'. disk_up mach d0 D s m \<Longrightarrow> says mach (mount_message (mountable D)) m s' \<Longrightarrow> Q () s'"
  shows "wp (kmain_disk mach) Q E s"
  unfolding kmain_disk_def wp_seq_fun
proof (rule wp_ata_init [OF b])
  fix s1 assume b1: "booting mach d0 D s1" and c1: "configured s1 = (idt_entries (tty s), interrupt_handlers (tty s), idtr (tty s), 0x1f0)"
  let ?report = "\<lambda>r :: err + unit. case r of Inr _ \<Rightarrow> print_ok mach (str ''FAT32 filesystem mounted at /'')
     | Inl err \<Rightarrow> sh_printf mach (str ''[WARN] Failed to mount FAT32 filesystem'' @ [0x0a]) []"
  have report: "wp (?report r) Q E m" if m: "disk_up mach d0 D s m" and r: "isl r = (\<not> mountable D)" for r m
  proof -
    obtain w where "screen mach w m" using m by (auto simp: disk_up_def)
    note m0 = says_refl [OF this]
    show ?thesis
    proof (cases r)
      case (Inl e)
      have "wp (sh_printf mach (str ''[WARN] Failed to mount FAT32 filesystem'' @ [0x0a]) []) Q E m"
        by (rule wp_says_text [OF m0, where o' = "str ''[WARN] Failed to mount FAT32 filesystem'' @ [0x0a]"]) (use Q [OF m] r Inl in \<open>simp_all add: mount_message_def str_def\<close>)
      then show ?thesis using Inl by simp
    next
      case (Inr u)
      have "wp (print_ok mach (str ''FAT32 filesystem mounted at /'')) Q E m"
        by (rule wp_says_ok [OF m0]) (use Q [OF m] r Inr in \<open>simp_all add: mount_message_def str_def\<close>)
      then show ?thesis using Inr by simp
    qed
  qed
  show "wp (print_ok mach (str ''ATA driver initialized''))
      (\<lambda>_. wp (catch (on_fs (fat_mount (kernel_ops mach) 0 1 (str ''root'')))) (\<lambda>r. wp (?report r) Q E) E) E s1"
  proof (rule wp_ok [OF b1])
    fix s2 assume b2: "booting mach d0 D s2" and c2: "configured s2 = configured s1"
    have up: "disk_up mach d0 D s (s2\<lparr>sh_fs := f\<rparr>)" if "mounted d0 (sh_fs s2) (if mountable D then 1 else 0) f" for f
      by (rule mounted_disk_up [OF b2 _ that]) (simp add: c2 c1)
    have l: "g_fat_list (sh_fs s2) = 0" using b2 by (simp add: booting_def)
    have "wp (fat_mount (kernel_ops mach) 0 1 (str ''root'')) (\<lambda>x f. wp (?report (Inr x)) Q E (s2\<lparr>sh_fs := f\<rparr>))
        (\<lambda>e f. wp (?report (Inl e)) Q E (s2\<lparr>sh_fs := f\<rparr>)) (sh_fs s2)"
    proof (rule wp_kmount [OF dev _ _ good])
      show "ata_base (tty s2) = 0x1f0" using c1 c2 by (simp add: configured_def)
      fix f assume "mountable D" and "mounted d0 (sh_fs s2) 1 f"
      then show "wp (?report (Inr ())) Q E (s2\<lparr>sh_fs := f\<rparr>)" by (intro report up) simp_all
    next
      fix e f assume "\<not> mountable D" and "mounted d0 (sh_fs s2) (g_fat_list (sh_fs s2)) f"
      then show "wp (?report (Inl e)) Q E (s2\<lparr>sh_fs := f\<rparr>)" using l by (intro report up) simp_all
    qed (use b2 in \<open>simp_all add: booting_def str_def\<close>)
    then show "wp (catch (on_fs (fat_mount (kernel_ops mach) 0 1 (str ''root'')))) (\<lambda>r. wp (?report r) Q E) E s2"
      by (simp add: wp_catch wp_on_fs)
  qed (simp add: str_def)
qed

subsection \<open>Property\<close>

text \<open>C11: on a machine whose serial line and disk answer, the initialisation of \<open>kmain\<close> terminates without
  leaving the defined behaviour of C, and the shell starts with a usable screen, the 48 vectors set and
  the processor told, the timer and the keyboard handled, frames 1024 to 8191 free, the heap one
  free block, and the volume mounted exactly if the disk holds a mountable FAT32 volume, as the boot
  log says; the disk's sectors are as they were. The disk has no boot sector with clusters of no sectors (see \<open>check_fat\<close>). No interrupt comes while
  \<open>kmain\<close> runs: the model of \<open>sti\<close> is empty.\<close>

theorem kmain_starts:
  assumes "uart_ok mach" and "ata_ok mach d0" and "\<not> dlab (io_hist (tty (b_shell s)))"
    and "length (terminal_buffer (tty (b_shell s))) = 2000" and "length (g_buf (sh_fs (b_shell s))) = 512"
    and "g_fat_list (sh_fs (b_shell s)) = 0" and "good_disk (disk_sectors d0 (tty (b_shell s)))"
  shows "wp (kmain_init mach stub adr) (\<lambda>_ s'. (\<exists>w. screen mach w (b_shell s')) \<and> kernel_up stub adr (b_shell s') \<and>
      memory_up s' \<and> (let D = disk_sectors d0 (tty (b_shell s)) in
        disk_sectors d0 (tty (b_shell s')) = D \<and> ata_base (tty (b_shell s')) = 0x1f0 \<and>
        g_fat_list (sh_fs (b_shell s')) = (if mountable D then 1 else 0) \<and>
        suffix (mount_message (mountable D) @ [0x0a] @ str ''[OK] All systems operational'' @ [0x0a, 0x0a])
          (log (b_shell s')))) (\<lambda>_ _. False) s"
  (is "wp _ ?Q ?E s")
proof -
  let ?D = "disk_sectors d0 (tty (b_shell s))"
  let ?disk = "\<lambda>_. wp (on_shell (kmain_disk mach)) (\<lambda>_. wp (on_shell (kmain_ready mach)) ?Q ?E) ?E"
  have last: "?disk u t" if b: "booting mach d0 ?D (b_shell t)" and k: "kernel_up stub adr (b_shell t)" and m: "memory_up t"
    for u t
  proof (subst wp_on_shell, rule wp_kmain_disk [OF b assms(2,7)])
    fix m0 s1 assume m0: "disk_up mach d0 ?D (b_shell t) m0" and s1: "says mach (mount_message (mountable ?D)) m0 s1"
    then have s1': "says mach (mount_message (mountable ?D)) m0 (b_shell (t\<lparr>b_shell := s1\<rparr>))" by simp
    show "wp (on_shell (kmain_ready mach)) ?Q ?E (t\<lparr>b_shell := s1\<rparr>)"
    proof (subst wp_on_shell, rule wp_kmain_ready [OF s1'])
      fix s2 assume s2: "says mach (mount_message (mountable ?D) @ [0x0a] @ str ''[OK] All systems operational'' @ [0x0a, 0x0a]) m0 s2"
      note same = says_same [OF s2]
      obtain w where "screen mach w s2" using s2 by (rule saysD)
      moreover have "kernel_up stub adr s2" using k m0 same(1) by (simp add: disk_up_def configured_def kernel_up_def handlers_ok_def)
      moreover have "memory_up (t\<lparr>b_shell := s1\<rparr>\<lparr>b_shell := s2\<rparr>)" using m by (simp add: memory_up_def)
      moreover have "suffix (mount_message (mountable ?D) @ [0x0a] @ str ''[OK] All systems operational'' @ [0x0a, 0x0a]) (log s2)"
        unfolding same(4) by (rule suffixI [OF refl])
      moreover have "ata_base (tty s2) = 0x1f0" using m0 same(1) by (simp add: disk_up_def configured_def)
      ultimately show "?Q () (t\<lparr>b_shell := s1\<rparr>\<lparr>b_shell := s2\<rparr>)"
        using m0 same by (auto simp: disk_up_def Let_def)
    qed
  qed
  have "wp (on_shell (kmain_screen mach)) (\<lambda>_. wp (on_shell (kmain_interrupts mach stub adr))
      (\<lambda>_. wp (kmain_memory mach) ?disk ?E) ?E) ?E s"
  proof (subst wp_on_shell, rule wp_kmain_screen [OF assms(1,3,4) refl assms(5,6)])
    fix s1 assume "booting mach d0 ?D s1"
    then have b1: "booting mach d0 ?D (b_shell (s\<lparr>b_shell := s1\<rparr>))" by simp
    show "wp (on_shell (kmain_interrupts mach stub adr)) (\<lambda>_. wp (kmain_memory mach) ?disk ?E) ?E (s\<lparr>b_shell := s1\<rparr>)"
    proof (subst wp_on_shell, rule wp_kmain_interrupts [OF b1])
      fix s2 assume "booting mach d0 ?D s2" "kernel_up stub adr s2"
      then show "wp (kmain_memory mach) ?disk ?E (s\<lparr>b_shell := s1\<rparr>\<lparr>b_shell := s2\<rparr>)"
        by (intro wp_kmain_memory [where stub = stub and adr = adr] last) simp_all
    qed
  qed
  then show ?thesis by (simp only: kmain_init_def wp_seq_fun)
qed


subsection \<open>A machine with a FAT32 disk\<close>

lemma nth_sector_bytes:
  "k < 2 * length ws \<Longrightarrow> sector_bytes ws ! k = (if even k then ucast (ws ! (k div 2)) else ucast (drop_bit 8 (ws ! (k div 2))))"
proof (induction ws arbitrary: k)
  case (Cons w ws)
  have s: "sector_bytes (w # ws) = ucast w # ucast (drop_bit 8 w) # sector_bytes ws"
    by (simp add: sector_bytes_def word_bytes_def)
  show ?case
  proof (cases "k < 2")
    case True
    then have "k = 0 \<or> k = 1" by auto
    then show ?thesis by (auto simp: s)
  next
    case False
    then obtain j where "k = Suc (Suc j)" by (metis add_2_eq_Suc le_Suc_ex not_less)
    then show ?thesis using Cons by (simp add: s)
  qed
qed simp

text \<open>The boot sector of an unpartitioned volume of 70000 sectors, and its information sector.\<close>

definition boot_words :: "u16 list" where
  "boot_words = (replicate 256 0)[0 := 0x00eb, 5 := 0x0000, 6 := 0x0102, 7 := 32, 8 := 2, 16 := 0x1170, 17 := 1,
     18 := 547, 22 := 2, 24 := 1, 41 := 0x4146, 42 := 0x3354, 43 := 0x2032, 44 := 0x2020]"

definition info_words :: "u16 list" where
  "info_words = (replicate 256 0)[0 := 0x5252, 1 := 0x4161, 242 := 0x7272, 243 := 0x6141, 255 := 0xaa55]"

definition fat_disk :: ata_disk where
  "fat_disk = ata_disk_sample\<lparr>d_sectors := (\<lambda>l. if l = 0 then boot_words else if l = 1 then info_words else replicate 256 0)\<rparr>"

definition boot_sample :: Boot where
  "boot_sample = \<lparr>b_shell = shell_sample, b_pmm = pmm_sample, b_heap = heap_sample\<rparr>"

lemma slice_nth: "i + n \<le> length b \<Longrightarrow> slice b i n = map (\<lambda>k. b ! (i + k)) [0..<n]"
  by (rule nth_equalityI) (simp_all add: slice_def)

lemma boot_lengths [simp]: "length boot_words = 256" "length info_words = 256" by (simp_all add: boot_words_def info_words_def)


lemma upt_8: "[0..<8] = [0, 1, 2, 3, 4, 5, 6, 7 :: nat]"
  by (simp add: upt_rec)

lemmas boot_fields = bpb_fat_cnt_def bpb_info_sect_def bpb_ext_flags_def bpb_sect_per_clust_def bpb_sect_cnt_32_def
  bpb_res_sect_cnt_def bpb_sect_per_fat_32_def get16_def get32_def nth_sector_bytes

lemma check_boot: "check_fat (sector_bytes boot_words) = Some True" "bpb_info_sect (sector_bytes boot_words) = 1"
proof -
  have "slice (sector_bytes boot_words) 82 8 = fat32_tag"
    by (simp add: slice_nth upt_8 nth_sector_bytes) (simp add: boot_words_def fat32_tag_def)
  then show "check_fat (sector_bytes boot_words) = Some True"
    by (simp add: check_fat_def boot_fields) (simp add: boot_words_def)
  show "bpb_info_sect (sector_bytes boot_words) = 1" by (simp add: boot_fields) (simp add: boot_words_def)
qed

lemma check_info: "info_valid (sector_bytes info_words)" "check_fat (sector_bytes info_words) = Some False"
  "check_fat (sector_bytes (replicate 256 0)) = Some False"
  by (simp_all add: info_valid_def check_fat_def boot_fields) (simp_all add: info_words_def)


lemma fat_disk_sectors:
  "disk_sectors fat_disk (tty (b_shell boot_sample)) = d_sectors fat_disk"
  by (simp add: boot_sample_def shell_sample_def ata_machine_sample_def disk_sectors_def)

lemma fat_disk_good: "good_disk (d_sectors fat_disk)"
  using check_boot(1) check_info(2,3) by (auto simp: good_disk_def fat_disk_def)

lemma fat_disk_mountable: "mountable (d_sectors fat_disk)"
proof -
  have "fat32_start (d_sectors fat_disk) = Some 0"
    using check_boot(1) by (simp add: fat32_start_def sector_def fat_disk_def)
  then show ?thesis
    using check_boot(2) check_info(1) by (simp add: mountable_def sector_def fat_disk_def)
qed

lemma kmain_starts_witness:
  "wp (kmain_init (ata_sample fat_disk) (\<lambda>i. of_nat (0x100000 + 16 * i)) 0x200000) (\<lambda>_ s'.
      g_fat_list (sh_fs (b_shell s')) = 1 \<and> memory_up s' \<and>
      suffix (str ''[OK] FAT32 filesystem mounted at /'' @ [0x0a, 0x0a] @ str ''[OK] All systems operational'' @ [0x0a, 0x0a])
        (log (b_shell s'))) (\<lambda>_ _. False) boot_sample"
proof -
  have s: "b_shell boot_sample = shell_sample" by (simp add: boot_sample_def)
  have b: "\<not> dlab (io_hist (tty (b_shell boot_sample)))" "length (terminal_buffer (tty (b_shell boot_sample))) = 2000"
    "length (g_buf (sh_fs (b_shell boot_sample))) = 512" "g_fat_list (sh_fs (b_shell boot_sample)) = 0"
    unfolding s shell_sample_screen(3) by (simp_all add: shell_sample_def)
  have good: "good_disk (disk_sectors fat_disk (tty (b_shell boot_sample)))"
    unfolding fat_disk_sectors by (rule fat_disk_good)
  from kmain_starts [OF uart_ata_sample ata_sample_ok b good] show ?thesis
    by (rule wp_conseq) (simp_all add: fat_disk_sectors fat_disk_mountable mount_message_def Let_def)
qed

end
