(* ===== verification/Spec2Isabelle.thy ===== *)
theory Spec2Isabelle
  imports Fat_Correct Fat_File_Correct Vmm Libc Boot_Up
begin

text \<open>
  beanerOS is a small 32-bit kernel in C (the files named here are under \<open>src/src/\<close>): it starts
  from GRUB, sets up a text terminal, a serial line, interrupts, a timer, a keyboard, a frame
  allocator, a heap and an ATA disk, mounts a FAT32 volume and runs a shell on it. This
  development models all of its C code and proves what its components promise each other.

  \<^bold>\<open>How C is modelled.\<close>

  \<^item> \<open>CMonad\<close>: a C function is a function from the state to an optional result and state:
    \<open>Some (Inr x, s')\<close> is a normal return, \<open>Some (Inl e, s')\<close> a return of the error code \<open>e\<close> with
    the changes made so far, \<open>None\<close> a run that does not end or leaves the defined behaviour of C
    (an access outside an object, a division by 0, a signed overflow, a page fault). Every loop of
    the sources is one \<open>loop\<close>, a \<open>partial_function\<close> without fuel, so no bound on rounds is
    assumed anywhere; \<open>wp\<close> is total correctness, and a theorem \<open>wp f Q E s\<close> says that \<open>f\<close> returns.
    What follows \<open>E\<close>, often \<open>\<lambda>_ _. False\<close>, is what holds when \<open>f\<close> fails.
  \<^item> \<open>Prelude\<close>: machine words of the widths of the source, byte order, strings (\<open>str\<close>), parts of
    lists (\<open>slice\<close>, \<open>splice\<close>) and the arithmetic the components share.
  \<^item> Structs are records, extended where one component's state contains another's: \<open>Tty\<close> (ports,
    terminal), \<open>Kernel\<close> (interrupts, timer, keyboard), \<open>Ata\<close>. The file system's state \<open>fs\<close> has its
    disk as a parameter; in the shell that is the machine \<open>Ata\<close> itself. \<open>Boot\<close> adds the allocators.
  \<^item> \<open>Interfaces\<close>: the three contracts that occur more than once, as locales: a bounded FIFO
    (keyboard), a store of cells (frame bitmap, VGA memory), an allocator (frames, heap). Each is
    interpreted on the code's own definitions, in the theory of the component.

  \<^bold>\<open>The components.\<close>

  \<^item> The FAT32 driver (\<open>fs/fat.c\<close>, \<open>include/fat.h\<close>). \<open>Fat_Types\<close>: its structs, constants and state.
    \<open>Fat_Names\<close>: names, checksums, dates. \<open>Fat_Cache\<close>: the one-sector cache. \<open>Fat_Table\<close>: the
    allocation table and its chains. \<open>Fat_Dir\<close>: directories and paths. \<open>Fat_File\<close>: open files.
    \<open>Fat_Api\<close>: probing, mounting, the calls that take a path. \<open>Fat_Correct\<close> and \<open>Fat_File_Correct\<close>
    hold the properties, \<open>Fat_Sample\<close> the volume they are applied to. The abstraction is the flat
    disk \<open>lsec\<close>, on it the table \<open>fat_tab\<close>, on it the chains; the lemmas say what every function
    does to them when the device works and when it fails (C1 to C10).
  \<^item> Memory. \<open>Pmm\<close> (\<open>mm/pmm.c\<close>): the frame bitmap, its invariant, first fit, safety of the clients
    (C19 to C21). \<open>Kheap\<close> (\<open>mm/kheap.c\<close>): the list of blocks in memory refines a list of sizes that
    tiles the heap (C22 to C25). \<open>Vmm\<close> (\<open>mm/vmm.c\<close>): page tables in memory and the translation the
    processor makes of them; once paging is on, the accesses of \<open>vmm_map\<close> and \<open>vmm_unmap\<close> are
    translated themselves (C26 to C28).
  \<^item> Devices. \<open>Port\<close> (\<open>include/io.h\<close>, \<open>driver/serial.c\<close>): the ports as a history of reads and
    writes, a device as a function from the history to what a read gives; the serial line (C33).
    \<open>Tty\<close> (\<open>driver/tty.c\<close>): the cells of the screen refine a window on all the text written (C34, C35).
    \<open>Keyboard\<close> (\<open>driver/keyboard.c\<close>): the ring buffer, and the reader interrupted by the handler at
    every step (C29). \<open>Interrupts\<close> (\<open>kernel/idt.c\<close>, \<open>driver/timer.c\<close>): the gates, the dispatch, the
    timer; \<open>timer_wait\<close> under a schedule of interrupts (C38 to C40). \<open>Ata\<close> (\<open>driver/ata.c\<close>): transfers
    through the ports against a model of the disk (C12, C13).
  \<^item> The library. \<open>Libc\<close> (\<open>libc/string\<close>): strings and memory on byte arrays (C30 to C32).
    \<open>Printf\<close> (\<open>libc/stdio\<close>): the formats as a parser with its own specification (C36, C37).
  \<^item> The shell. \<open>Commands\<close> (\<open>kernel/commands.c\<close>), \<open>Shell\<close> (\<open>kernel/shell.c\<close>: the parsing in place
    of a line equals dispatch on strings), \<open>Shell_Line\<close> (editing the line on the screen) (C14 to C18).
  \<^item> Starting. \<open>Boot\<close> (\<open>kernel/kernel.c\<close>, \<open>libc/stdlib/abort.c\<close>, \<open>kernel/stack_protector.c\<close>),
    \<open>Boot_Start\<close>, \<open>Boot_Run\<close>, \<open>Boot_Disk\<close>, \<open>Boot_Up\<close>: the initialisation of \<open>kmain\<close> as a whole, down to
    the ports of the disk (C11).

  \<^bold>\<open>What is assumed.\<close>

  \<^item> \<open>uart_ok\<close>: a serial line that reports an empty transmitter again and again.
  \<^item> \<open>ata_ok\<close>: a disk that becomes ready and transfers the addressed sectors; \<open>ata_sample\<close> is one.
  \<^item> \<open>disk_ok\<close>: what the FAT driver relies on in its callbacks, which may fail at any call: a failed
    read leaves the buffer alone, a failed write may tear its sector and no other.
  \<^item> \<open>good_disk\<close>: the sectors have 512 bytes, and no boot sector with 0 sectors per cluster (the code
    divides by it).
  \<^item> \<open>junk8\<close> and the parameters \<open>out\<close> stand for variables the code reads before it sets them: the
    theorems hold for every value.
  \<^item> Interrupts come where the model says so: between the steps of \<open>keyboard_getchar\<close> (\<open>kb_step\<close>)
    and between the instructions of \<open>timer_wait\<close> (\<open>irq_schedule\<close>). Elsewhere the code runs between
    interrupts; the handlers touch only the tick count, the ring buffer and the history of the ports.
  \<^item> The addresses of code and static tables are parameters (\<open>stub\<close>, \<open>idt_adr\<close>, \<open>kpd\<close>, \<open>kpt\<close>).
  Properties with such an assumption have a witness, an application to a concrete state.

  \<^bold>\<open>What is not modelled.\<close>

  The assembly (\<open>loader.s\<close>, \<open>kernel/interrupt.s\<close>, \<open>mm/paging.s\<close>), apart from the effect of
  \<open>idt_flush\<close> and \<open>enable_paging\<close>; the TLB; the instructions \<open>sti\<close> and \<open>cli\<close>; the time that
  passes; the initialisation sequence of the interrupt controllers beyond the values written; the
  headers that only declare, and the build and image files.

  The code is modelled as it is, with what it does wrong: C3, C10, C18, C24, C27 and C40 and the
  lemmas \<open>pmm_free_reserved_breaks_count\<close>, \<open>printf_int_min\<close>, \<open>terminal_backspace_home\<close>,
  \<open>vmm_map_overwrites_page_0\<close>, \<open>timer_wait_lost_wakeup\<close> show behaviour the code does not mean.
  Open, in the order of their worth: the round trip of long names through \<open>put_lfns\<close> and
  \<open>parse_lfn_name\<close>, the search in directories, and files across clusters.
\<close>

end
